(* ===== verification/Prelude.thy ===== *)
theory Prelude
  imports Main "HOL-Library.Word"
begin

text \<open>
  Shared vocabulary of the development: the C integer types as words, byte
  buffers and the partial memory write that makes an out-of-block store visible,
  reachability with its invariant rule, and histories of atomic events.  No definition here models a particular function of the repository.
\<close>

unbundle bit_operations_syntax

type_synonym u8 = "8 word"
type_synonym u16 = "16 word"
type_synonym u32 = "32 word"
type_synonym u64 = "64 word"

named_theorems mem_simps \<open>length, lookup and composition of buffer writes\<close>
named_theorems sys_simps \<open>unfolding of the system-call layer\<close>

section \<open>Overwriting a segment of a buffer\<close>

text \<open>
  \<open>blit off xs m\<close> is \<open>m\<close> with the elements from index \<open>off\<close> on replaced by \<open>xs\<close>.
  It is the result of a store only when the segment lies inside \<open>m\<close>;
  \<open>mem_write\<close> is the store itself and is \<open>None\<close> when it would leave the block.
\<close>

definition blit :: "nat \<Rightarrow> 'a list \<Rightarrow> 'a list \<Rightarrow> 'a list" where
  "blit off xs m = take off m @ xs @ drop (off + length xs) m"

definition mem_write :: "nat \<Rightarrow> 'a list \<Rightarrow> 'a list \<Rightarrow> 'a list option" where
  "mem_write off xs m = (if off + length xs \<le> length m then Some (blit off xs m) else None)"

definition segment :: "nat \<Rightarrow> nat \<Rightarrow> 'a list \<Rightarrow> 'a list" where
  "segment off n m = take n (drop off m)"

lemma length_blit [simp, mem_simps]:
  "off + length xs \<le> length m \<Longrightarrow> length (blit off xs m) = length m"
  by (simp add: blit_def)

lemma nth_blit [mem_simps]:
  assumes "off + length xs \<le> length m" and "i < length m"
  shows "blit off xs m ! i = (if off \<le> i \<and> i < off + length xs then xs ! (i - off) else m ! i)"
  using assms by (auto simp: blit_def nth_append min_def)

lemma blit_Nil [simp, mem_simps]: "blit off [] m = m"
  by (simp add: blit_def)

lemma blit_append [mem_simps]:
  assumes "off + length xs + length ys \<le> length m"
  shows "blit off (xs @ ys) m = blit (off + length xs) ys (blit off xs m)"
  by (rule nth_equalityI) (use assms in \<open>auto simp: nth_blit nth_append\<close>)

lemma blit_one: "off < length m \<Longrightarrow> blit off [x] m = m[off := x]"
  by (rule nth_equalityI) (auto simp: nth_blit nth_list_update)

lemma blit_Cons:
  assumes "off + Suc (length xs) \<le> length m"
  shows "blit off (x # xs) m = blit (Suc off) xs (m[off := x])"
  using blit_append [of off "[x]" xs m] assms by (simp add: blit_one)

lemma blit_commute:
  assumes "a + length xs \<le> length m" and "b + length ys \<le> length m"
    and "a + length xs \<le> b \<or> b + length ys \<le> a"
  shows "blit a xs (blit b ys m) = blit b ys (blit a xs m)"
  by (rule nth_equalityI) (use assms in \<open>auto simp: nth_blit\<close>)

lemma length_segment [simp, mem_simps]: "off + n \<le> length m \<Longrightarrow> length (segment off n m) = n"
  by (simp add: segment_def)

lemma nth_segment: "off + n \<le> length m \<Longrightarrow> i < n \<Longrightarrow> segment off n m ! i = m ! (off + i)"
  by (simp add: segment_def)

lemma segment_blit_same [mem_simps]:
  "off + length xs \<le> length m \<Longrightarrow> n = length xs \<Longrightarrow> segment off n (blit off xs m) = xs"
  by (simp add: segment_def blit_def min_def)

lemma segment_blit_disjoint [mem_simps]:
  assumes "off + length xs \<le> length m" and "a + n \<le> length m"
    and "a + n \<le> off \<or> off + length xs \<le> a"
  shows "segment a n (blit off xs m) = segment a n m"
  by (rule nth_equalityI) (use assms in \<open>auto simp: nth_segment nth_blit\<close>)

lemma segment_blit_inside [mem_simps]:
  assumes "off + length xs \<le> length m" and "off \<le> a" and "a + n \<le> off + length xs"
  shows "segment a n (blit off xs m) = segment (a - off) n xs"
  by (rule nth_equalityI) (use assms in \<open>auto simp: nth_segment nth_blit\<close>)

lemma segment_all: "n = length m \<Longrightarrow> segment 0 n m = m"
  by (simp add: segment_def)

lemma segment_blit_around [mem_simps]:
  assumes "a \<le> off" and "off + length xs \<le> a + n" and "a + n \<le> length m"
  shows "segment a n (blit off xs m) = blit (off - a) xs (segment a n m)"
proof (rule nth_equalityI)
  fix i assume i: "i < length (segment a n (blit off xs m))"
  have "a + i - off = i - (off - a)" using assms(1) by simp
  then show "segment a n (blit off xs m) ! i = blit (off - a) xs (segment a n m) ! i"
    using assms i by (auto simp: nth_segment nth_blit)
qed (use assms in simp)

lemma mem_write_Some [simp]:
  "mem_write off xs m = Some m' \<longleftrightarrow> off + length xs \<le> length m \<and> m' = blit off xs m"
  by (auto simp: mem_write_def)

lemma mem_write_None [simp]: "mem_write off xs m = None \<longleftrightarrow> length m < off + length xs"
  by (auto simp: mem_write_def)

section \<open>Words and remainders\<close>

lemma unat_of_nat_u32: "n < 2 ^ 32 \<Longrightarrow> unat (of_nat n :: u32) = n"
  by (simp add: unsigned_of_nat take_bit_nat_eq_self)

lemma unat_Suc_below: "unat (j :: u32) + 1 < 2 ^ 32 \<Longrightarrow> unat (j + 1) = unat j + 1"
  using unat_of_nat_u32 [of "unat j + 1"] by (simp add: add.commute)

lemma unat_u32_less: "unat (w :: u32) < 2 ^ 32"
  using unsigned_less [of w] by simp

lemma unat_pred: "len \<noteq> 0 \<Longrightarrow> unat (len - 1 :: u32) = unat len - 1"
  by (rule unat_minus_one)

lemma eq_of_nat: "unat (w :: u32) = n \<Longrightarrow> w = of_nat n"
  by (drule sym) simp

lemma less_bit: "(w :: u32) < 2 ^ k \<Longrightarrow> k < 32 \<Longrightarrow> bit w n \<Longrightarrow> n < k"
proof -
  assume w: "w < 2 ^ k" "k < 32" "bit w n"
  then have "take_bit k w = w" using less_mask_eq [of w k] by (simp add: take_bit_eq_mask)
  with w(3) show "n < k" by (metis bit_take_bit_iff)
qed

lemma unat_times4: "unat (n :: u32) \<le> 64 \<Longrightarrow> unat (n * 4) = 4 * unat n"
  using unat_of_nat_u32 [of "unat n * 4"] by simp

lemma add_mod_cancel_le:
  fixes a b z k :: nat
  assumes "a \<le> b" and "b < k" and "(z + a) mod k = (z + b) mod k"
  shows "a = b"
proof -
  have "k dvd (z + b) - (z + a)"
    using assms(1,3) by (subst mod_eq_dvd_iff_nat [symmetric]) simp_all
  then have "k dvd b - a" by simp
  moreover have "b - a < k" using assms(2) by simp
  ultimately have "b - a = 0" by (metis dvd_imp_le gr0I leD)
  with assms(1) show ?thesis by simp
qed

lemma add_mod_cancel:
  fixes a b z k :: nat
  assumes "a < k" and "b < k" and "(z + a) mod k = (z + b) mod k"
  shows "a = b"
  using add_mod_cancel_le [of a b k z] add_mod_cancel_le [of b a k z] assms by (cases "a \<le> b") auto

lemma unat_or_push:
  fixes a b :: u32
  assumes "unat b < 2 ^ k" and "unat a * 2 ^ k < 2 ^ 32" and "k < 32"
  shows "unat (push_bit k a OR b) = unat a * 2 ^ k + unat b"
proof -
  have "(2 :: nat) ^ k < 2 ^ 32" using assms(3) by (intro power_strict_increasing) simp_all
  then have "unat (2 ^ k :: u32) = 2 ^ k" using unat_of_nat_u32 [of "2 ^ k"] by simp
  then have b: "b < 2 ^ k" using assms(1) by (simp add: word_less_nat_alt)
  have "push_bit k a OR b = push_bit k a + b"
    by (rule disjunctive_add_eq_or [symmetric])
      (use less_bit [OF b assms(3)] in \<open>force simp: bit_simps bit_eq_iff\<close>)
  also have "\<dots> = of_nat (unat a * 2 ^ k + unat b)" by (simp add: push_bit_eq_mult)
  also have "unat \<dots> = unat a * 2 ^ k + unat b"
  proof (rule unat_of_nat_u32)
    have "unat a * 2 ^ k < 2 ^ (32 - k) * 2 ^ k" using assms(2,3) by (simp flip: power_add)
    then have "unat a + 1 \<le> 2 ^ (32 - k)" by simp
    then have "(unat a + 1) * 2 ^ k \<le> 2 ^ (32 - k) * 2 ^ k" by (rule mult_le_mono1)
    also have "(2 :: nat) ^ (32 - k) * 2 ^ k = 2 ^ 32" using assms(3) by (simp flip: power_add)
    finally show "unat a * 2 ^ k + unat b < 2 ^ 32" using assms(1) by simp
  qed
  finally show ?thesis .
qed

lemma unat_ucast_u16: "unat (ucast (w :: u32) :: u16) = unat w mod 2 ^ 16"
  by (simp add: unsigned_ucast_eq take_bit_eq_mod)

lemma unat_ucast_u8: "unat (ucast (w :: u32) :: u8) = unat w mod 2 ^ 8"
  by (simp add: unsigned_ucast_eq take_bit_eq_mod)

lemma unat_u32_u16: "unat (ucast (w :: u16) :: u32) = unat w"
  by (simp add: unsigned_ucast_eq take_bit_nat_eq_self order_less_le_trans [OF unsigned_less])

lemma unat_u32_u8: "unat (ucast (w :: u8) :: u32) = unat w"
  by (simp add: unsigned_ucast_eq take_bit_nat_eq_self order_less_le_trans [OF unsigned_less])

lemma sint_if_uint_small:
  fixes x :: u64
  assumes "uint x < 2 ^ 63"
  shows "sint x = uint x"
  using assms by (simp add: sint_uint signed_take_bit_int_eq_self order_trans [OF _ uint_nonnegative])

lemma sint_len: "unat (len :: u32) < 2 ^ 31 \<Longrightarrow> sint len = int (unat len)"
  by (simp add: sint_uint signed_take_bit_int_eq_self unat_eq_nat_uint order_trans [OF _ uint_nonnegative] del: nat_uint_eq)

section \<open>Reachable states and invariants\<close>

inductive reach :: "('s \<Rightarrow> bool) \<Rightarrow> ('s \<Rightarrow> 's \<Rightarrow> bool) \<Rightarrow> 's \<Rightarrow> bool"
  for init :: "'s \<Rightarrow> bool" and step :: "'s \<Rightarrow> 's \<Rightarrow> bool" where
  reach_init: "init s \<Longrightarrow> reach init step s"
| reach_step: "reach init step s \<Longrightarrow> step s t \<Longrightarrow> reach init step t"

text \<open>
  The contract between a component's step relation and the properties that rest on it:
  an invariant that the initial states have and every step keeps holds in every
  reachable state.
\<close>

locale inv_system =
  fixes init :: "'s \<Rightarrow> bool" and step :: "'s \<Rightarrow> 's \<Rightarrow> bool" and inv :: "'s \<Rightarrow> bool"
  assumes inv_init: "init s \<Longrightarrow> inv s"
    and inv_step: "inv s \<Longrightarrow> step s t \<Longrightarrow> inv t"
begin

lemma inv_reach: "reach init step s \<Longrightarrow> inv s"
  by (induction rule: reach.induct) (auto intro: inv_init inv_step)

lemma inv_steps: "step\<^sup>*\<^sup>* s t \<Longrightarrow> inv s \<Longrightarrow> inv t"
  by (induction rule: rtranclp_induct) (auto intro: inv_step)

end

section \<open>Histories and atomicity\<close>

text \<open>
  Runs of atomic operations that may show an event; the history has the newest event first.
\<close>

inductive history :: "('a \<Rightarrow> 'e option \<Rightarrow> 'a \<Rightarrow> bool) \<Rightarrow> 'a \<Rightarrow> 'e list \<Rightarrow> 'a \<Rightarrow> bool"
  for atom :: "'a \<Rightarrow> 'e option \<Rightarrow> 'a \<Rightarrow> bool" where
  history_nil: "history atom a [] a"
| history_event: "history atom a es b \<Longrightarrow> atom b (Some e) c \<Longrightarrow> history atom a (e # es) c"
| history_silent: "history atom a es b \<Longrightarrow> atom b None c \<Longrightarrow> history atom a es c"

text \<open>
  A system of small steps whose events appear as if each operation ran at one moment: every
  step is invisible or one atomic operation on the related abstract state.
\<close>

locale atomicity =
  fixes step :: "'s \<Rightarrow> 's \<Rightarrow> bool" and hist :: "'s \<Rightarrow> 'e list"
    and atom :: "'a \<Rightarrow> 'e option \<Rightarrow> 'a \<Rightarrow> bool" and rel :: "'s \<Rightarrow> 'a \<Rightarrow> bool"
  assumes simulates: "rel c a \<Longrightarrow> step c d \<Longrightarrow>
    (rel d a \<and> hist d = hist c)
    \<or> (\<exists>b. rel d b \<and> atom a None b \<and> hist d = hist c)
    \<or> (\<exists>b e. rel d b \<and> atom a (Some e) b \<and> hist d = e # hist c)"
begin

lemma atomic_run:
  assumes "step\<^sup>*\<^sup>* c d" and "rel c a" and "hist c = []"
  shows "\<exists>b. rel d b \<and> history atom a (hist d) b"
  using assms(1)
proof (induction rule: rtranclp_induct)
  case base
  then show ?case using assms(2,3) history_nil by metis
next
  case (step d d')
  then obtain b where b: "rel d b" "history atom a (hist d) b" by blast
  from simulates [OF b(1) step.hyps(2)] show ?case
  proof (elim disjE exE conjE)
    assume "rel d' b" "hist d' = hist d"
    then show ?thesis using b by auto
  next
    fix b' assume "rel d' b'" "atom b None b'" "hist d' = hist d"
    then show ?thesis using history_silent [OF b(2)] by auto
  next
    fix b' e assume "rel d' b'" "atom b (Some e) b'" "hist d' = e # hist d"
    then show ?thesis using history_event [OF b(2)] by auto
  qed
qed

lemma rel_reach: "step\<^sup>*\<^sup>* c d \<Longrightarrow> \<exists>a. rel c a \<Longrightarrow> \<exists>b. rel d b"
proof (induction rule: rtranclp_induct)
  case (step d e)
  then show ?case using simulates by blast
qed

end

end
