(* ===== verification/Bytes.thy ===== *)
theory Bytes
  imports Prelude
begin

text \<open>
  Little-endian encodings of the words the library writes into VRAM, and the contract
  (a locale) by which a byte memory is read as an array of fixed-width elements: writing
  the encodings of a list of elements at an element boundary is the same segment write on
  the array.
\<close>

section \<open>Little-endian words\<close>

definition le16 :: "u16 \<Rightarrow> u8 list" where
  "le16 w = [ucast w, ucast (drop_bit 8 w)]"

definition un16 :: "u8 list \<Rightarrow> u16" where
  "un16 bs = ucast (bs ! 0) OR push_bit 8 (ucast (bs ! 1))"

definition le32 :: "u32 \<Rightarrow> u8 list" where
  "le32 w = [ucast w, ucast (drop_bit 8 w), ucast (drop_bit 16 w), ucast (drop_bit 24 w)]"

definition un32 :: "u8 list \<Rightarrow> u32" where
  "un32 bs = ucast (bs ! 0) OR push_bit 8 (ucast (bs ! 1))
     OR push_bit 16 (ucast (bs ! 2)) OR push_bit 24 (ucast (bs ! 3))"

lemma length_le16 [simp]: "length (le16 w) = 2"
  by (simp add: le16_def)

lemma length_le32 [simp]: "length (le32 w) = 4"
  by (simp add: le32_def)

lemma un16_le16 [simp]: "un16 (le16 w) = w"
  by (rule bit_word_eqI) (auto simp: un16_def le16_def bit_simps)

lemma un32_le32 [simp]: "un32 (le32 w) = w"
  proof (rule bit_word_eqI)
  fix n assume "n < LENGTH(32)"
  then consider "n < 8" | "8 \<le> n" "n < 16" | "16 \<le> n" "n < 24" | "24 \<le> n" "n < 32"
    by fastforce
  then show "bit (un32 (le32 w)) n = bit w n"
    by cases (auto simp: un32_def le32_def bit_simps)
qed

section \<open>A byte memory read as an array of elements\<close>

definition view :: "nat \<Rightarrow> (u8 list \<Rightarrow> 'a) \<Rightarrow> nat \<Rightarrow> nat \<Rightarrow> u8 list \<Rightarrow> 'a list" where
  "view w dec base n m = map (\<lambda>i. dec (segment (base + w * i) w m)) [0..<n]"

lemma length_view [simp]: "length (view w dec base n m) = n"
  by (simp add: view_def)

lemma nth_view: "i < n \<Longrightarrow> view w dec base n m ! i = dec (segment (base + w * i) w m)"
  by (simp add: view_def)

locale codec =
  fixes enc :: "'a \<Rightarrow> u8 list" and dec :: "u8 list \<Rightarrow> 'a" and w :: nat
  assumes enc_length: "length (enc x) = w"
    and dec_enc: "dec (enc x) = x"
begin

lemma length_concat_enc: "length (concat (map enc xs)) = w * length xs"
  by (induction xs) (auto simp: enc_length)

lemma segment_concat_enc: "i < length xs \<Longrightarrow> segment (w * i) w (concat (map enc xs)) = enc (xs ! i)"
proof (induction xs arbitrary: i)
  case Nil
  then show ?case by simp
next
  case (Cons x xs)
  then show ?case
    by (cases i) (auto simp: segment_def enc_length)
qed

lemma view_blit:
  assumes k: "k + length xs \<le> n" and m: "base + w * n \<le> length m"
  shows "view w dec base n (blit (base + w * k) (concat (map enc xs)) m)
       = blit k xs (view w dec base n m)"
proof (rule nth_equalityI)
  show "length (view w dec base n (blit (base + w * k) (concat (map enc xs)) m))
      = length (blit k xs (view w dec base n m))"
    using k by simp
  fix i assume i: "i < length (view w dec base n (blit (base + w * k) (concat (map enc xs)) m))"
  then have i: "i < n" by simp
  let ?b = "concat (map enc xs)"
  have "w * (k + length xs) \<le> w * n" using k by (rule mult_le_mono2)
  then have fits: "base + w * k + length ?b \<le> length m"
    using m by (simp add: length_concat_enc distrib_left)
  have "w * (i + 1) \<le> w * n" using i by (intro mult_le_mono2) simp
  then have here: "base + w * i + w \<le> length m" using m by simp
  show "view w dec base n (blit (base + w * k) ?b m) ! i = blit k xs (view w dec base n m) ! i"
  proof (cases "k \<le> i \<and> i < k + length xs")
    case True
    then obtain d where d: "i = k + d" "d < length xs"
      using nat_le_iff_add by auto
    have "w * (d + 1) \<le> w * length xs" using d by (intro mult_le_mono2) simp
    then have "segment (base + w * i) w (blit (base + w * k) ?b m) = segment (w * d) w ?b"
      using fits by (subst segment_blit_inside) (auto simp: d length_concat_enc distrib_left)
    then show ?thesis
      using True d k i by (simp add: nth_view nth_blit segment_concat_enc dec_enc)
  next
    case False
    then have "w * (i + 1) \<le> w * k \<or> w * (k + length xs) \<le> w * i"
      by (metis Suc_eq_plus1 Suc_leI mult_le_mono2 not_le)
    then have "segment (base + w * i) w (blit (base + w * k) ?b m) = segment (base + w * i) w m"
      using fits here by (intro segment_blit_disjoint) (auto simp: length_concat_enc distrib_left)
    then show ?thesis
      using False k i by (auto simp: nth_view nth_blit)
  qed
qed

end

lemma view_blit_disjoint:
  assumes "off + length bs \<le> length m" and "base + w * n \<le> length m"
    and "base + w * n \<le> off \<or> off + length bs \<le> base"
  shows "view w dec base n (blit off bs m) = view w dec base n m"
proof (rule nth_equalityI)
  fix i assume "i < length (view w dec base n (blit off bs m))"
  then have i: "i < n" by simp
  have "w * (i + 1) \<le> w * n" using i by (intro mult_le_mono2) simp
  then have "segment (base + w * i) w (blit off bs m) = segment (base + w * i) w m"
    using assms by (intro segment_blit_disjoint) auto
  then show "view w dec base n (blit off bs m) ! i = view w dec base n m ! i"
    using i by (simp add: nth_view)
qed simp

interpretation word16: codec le16 un16 2
  by unfold_locales auto

interpretation word32: codec le32 un32 4
  by unfold_locales auto

interpretation byte: codec "\<lambda>b. [b]" hd 1
  by unfold_locales auto

end
