(* ===== verification/Noway.thy ===== *)
theory Noway
  imports Prelude
begin

text \<open>
  The error functions of \<^verbatim>\<open>Library/src/noway.c\<close> and the macros of
  \<^verbatim>\<open>Library/src/inc/noway.h\<close>, and the outcome of a call of the user library:
  it returns, it aborts the process after a report on standard error, it never returns
  from a system call, or it has run into undefined behaviour of C (an access outside an
  object).  A report keeps what
  identifies the failed check (its text or its message), not the file, line and function
  that the macros pass beside it.
\<close>

datatype report =
    BadNowayArgs
  | NoWay string
  | NoWayMsg "string option"
  | BadPanicArgs
  | Panic string
  | AssertFailed string

datatype 'a outcome = Done 'a | Abort report | Hangs | Undef

fun and_then :: "'a outcome \<Rightarrow> ('a \<Rightarrow> 'b outcome) \<Rightarrow> 'b outcome" where
  "and_then (Done x) f = f x"
| "and_then (Abort r) f = Abort r"
| "and_then Hangs f = Hangs"
| "and_then Undef f = Undef"

section \<open>The helpers\<close>

text \<open>A \<open>char *\<close> argument that may be NULL is a \<open>string option\<close>.\<close>

definition noway_helper ::
  "bool \<Rightarrow> string option \<Rightarrow> int \<Rightarrow> string option \<Rightarrow> string option \<Rightarrow> unit outcome" where
  "noway_helper check file line fn check_str =
     (if file = None \<or> line < 0 \<or> fn = None \<or> check_str = None then Abort BadNowayArgs
      else if \<not> check then Done ()
      else Abort (NoWay (the check_str)))"

definition nowaymsg_helper ::
  "bool \<Rightarrow> string option \<Rightarrow> int \<Rightarrow> string option \<Rightarrow> string option \<Rightarrow> string option
     \<Rightarrow> unit outcome" where
  "nowaymsg_helper check file line fn check_str error_msg =
     (if file = None \<or> line < 0 \<or> fn = None \<or> check_str = None then Abort BadNowayArgs
      else if \<not> check then Done ()
      else Abort (NoWayMsg error_msg))"

definition panic_helper ::
  "string option \<Rightarrow> string option \<Rightarrow> int \<Rightarrow> string option \<Rightarrow> 'a outcome" where
  "panic_helper err file line fn =
     (if err = None \<or> line < 0 \<or> file = None \<or> fn = None then Abort BadPanicArgs
      else Abort (Panic (the err)))"

section \<open>The macros\<close>

text \<open>
  The macros pass \<open>__FILE__\<close>, \<open>__LINE__\<close> and \<open>__func__\<close>, which are never NULL or
  negative.  The statement after the check is the continuation \<open>k\<close>.
\<close>

definition noway :: "bool \<Rightarrow> string \<Rightarrow> 'a outcome \<Rightarrow> 'a outcome" where
  "noway err err_text k =
     and_then (noway_helper err (Some ''__FILE__'') 1 (Some ''__func__'') (Some err_text)) (\<lambda>_. k)"

definition nowaymsg :: "bool \<Rightarrow> string \<Rightarrow> 'a outcome \<Rightarrow> 'a outcome" where
  "nowaymsg err msg k =
     and_then (nowaymsg_helper err (Some ''__FILE__'') 1 (Some ''__func__'') (Some ''#err'') (Some msg))
       (\<lambda>_. k)"

definition panic :: "string \<Rightarrow> 'a outcome" where
  "panic err = panic_helper (Some err) (Some ''__FILE__'') 1 (Some ''__func__'')"

text \<open>The C library's \<open>assert\<close>, with \<open>NDEBUG\<close> undefined as the build leaves it.\<close>

definition c_assert :: "bool \<Rightarrow> string \<Rightarrow> 'a outcome \<Rightarrow> 'a outcome" where
  "c_assert b b_text k = (if b then k else Abort (AssertFailed b_text))"

lemma noway_if [simp]: "noway err t k = (if err then Abort (NoWay t) else k)"
  by (simp add: noway_def noway_helper_def)

lemma nowaymsg_if [simp]: "nowaymsg err msg k = (if err then Abort (NoWayMsg (Some msg)) else k)"
  by (simp add: nowaymsg_def nowaymsg_helper_def)

lemma c_assert_if [simp]: "c_assert b t k = (if b then k else Abort (AssertFailed t))"
  by (simp add: c_assert_def)

lemma and_then_eq_Done:
  "and_then m f = Done y \<longleftrightarrow> (\<exists>x. m = Done x \<and> f x = Done y)"
  by (cases m) auto

end
