(* ===== verification/PpuData.thy ===== *)
theory PpuData
  imports Bytes Noway
begin

text \<open>
  The data of the graphics library: the types and constants of
  \<^verbatim>\<open>Library/usr/inc/fp-game/ppu.h\<close>, the layout of VRAM, and the functions of
  \<^verbatim>\<open>Library/src/ppu.c\<close> that build addresses, tiles and sprite words.
  An \<open>unsigned\<close> is a \<open>u32\<close>, and so is an enum, whose enumerators are not negative and
  whose arguments the library checks as numbers.
\<close>

section \<open>Constants\<close>

abbreviation (input) PATTERN_MAXADDR :: u32 where "PATTERN_MAXADDR \<equiv> 1023"
abbreviation (input) MIRROR_MAXVAL :: u32 where "MIRROR_MAXVAL \<equiv> 3"
abbreviation (input) SPRITE_MAXCOUNT :: u32 where "SPRITE_MAXCOUNT \<equiv> 64"
abbreviation (input) COLOR_24MASK :: u32 where "COLOR_24MASK \<equiv> 0xFFFFFF"
abbreviation (input) LAYER_ENMASK :: u32 where "LAYER_ENMASK \<equiv> 0x7"
abbreviation (input) TILEDATA_BSIZE :: u32 where "TILEDATA_BSIZE \<equiv> 2"
abbreviation (input) PALETTE15_BSIZE :: u32 where "PALETTE15_BSIZE \<equiv> 60"
abbreviation (input) PALETTE16_BSIZE :: u32 where "PALETTE16_BSIZE \<equiv> 64"
abbreviation (input) SPRITE_BSIZE :: u32 where "SPRITE_BSIZE \<equiv> 4"
abbreviation (input) SPRITE_MAX_PRIO :: u32 where "SPRITE_MAX_PRIO \<equiv> 2"
abbreviation (input) SPRITE_MAXX :: u16 where "SPRITE_MAXX \<equiv> 511"
abbreviation (input) SPRITE_MAXY :: u16 where "SPRITE_MAXY \<equiv> 255"
abbreviation (input) SPRITE_MAXWIDTH :: u8 where "SPRITE_MAXWIDTH \<equiv> 4"
abbreviation (input) SPRITE_MAXHEIGHT :: u8 where "SPRITE_MAXHEIGHT \<equiv> 4"

abbreviation (input) TILELAYER_MAX_PALETTES :: u32 where "TILELAYER_MAX_PALETTES \<equiv> 16"
abbreviation (input) SPRLAYER_MAX_PALETTES :: u32 where "SPRLAYER_MAX_PALETTES \<equiv> 32"
abbreviation (input) TILELAYER_WIDTH :: u32 where "TILELAYER_WIDTH \<equiv> 64"
abbreviation (input) TILELAYER_HEIGHT :: u32 where "TILELAYER_HEIGHT \<equiv> 64"
abbreviation (input) TILEPATTERN_BSIZE :: u32 where "TILEPATTERN_BSIZE \<equiv> 32"
abbreviation (input) TILEPATTERN_HEIGHT :: nat where "TILEPATTERN_HEIGHT \<equiv> 8"
abbreviation (input) TILERAM_FGOFFSET :: u32 where "TILERAM_FGOFFSET \<equiv> 0x2000"
abbreviation (input) VRAM_PATTERNOFFSET :: u32 where "VRAM_PATTERNOFFSET \<equiv> 0x4000"
abbreviation (input) VRAM_PALETTEOFFSET :: u32 where "VRAM_PALETTEOFFSET \<equiv> 0xC000"
abbreviation (input) VRAM_SPRITESOFFSET :: u32 where "VRAM_SPRITESOFFSET \<equiv> 0xD000"
abbreviation (input) PALETTERAM_BGOFFSET :: u32 where "PALETTERAM_BGOFFSET \<equiv> 0"
abbreviation (input) PALETTERAM_FGOFFSET :: u32 where "PALETTERAM_FGOFFSET \<equiv> 0x400"
abbreviation (input) PALETTERAM_SPROFFSET :: u32 where "PALETTERAM_SPROFFSET \<equiv> 0x800"
abbreviation (input) PALETTERAM_SPRITEMAX :: u32 where "PALETTERAM_SPRITEMAX \<equiv> 32"
abbreviation (input) PALETTERAM_TILEMAX :: u32 where "PALETTERAM_TILEMAX \<equiv> 16"
abbreviation (input) SPRRAM_EXTRAOFFSET :: u32 where "SPRRAM_EXTRAOFFSET \<equiv> 0x100"

section \<open>Types\<close>

type_synonym layer_e = u32
abbreviation (input) LAYER_BG :: layer_e where "LAYER_BG \<equiv> 1"
abbreviation (input) LAYER_FG :: layer_e where "LAYER_FG \<equiv> 2"
abbreviation (input) LAYER_SPR :: layer_e where "LAYER_SPR \<equiv> 4"

type_synonym mirror_e = u32
type_synonym render_prio_e = u32
type_synonym pattern_addr_t = u32
type_synonym tile_t = u16

text \<open>A pattern has eight rows and a palette fifteen colours: \<open>pattern_ok\<close> and \<open>palette_ok\<close>
  are what the C types say of the lists.\<close>

record pattern_t =
  pxrow :: "u32 list"

record palette_t =
  colors :: "u32 list"

definition pattern_ok :: "pattern_t \<Rightarrow> bool" where
  "pattern_ok p \<longleftrightarrow> length (pxrow p) = TILEPATTERN_HEIGHT"

definition palette_ok :: "palette_t \<Rightarrow> bool" where
  "palette_ok p \<longleftrightarrow> length (colors p) = 15"

record sprite_t =
  s_pattern_addr :: pattern_addr_t
  s_palette_id :: u32
  s_mirror :: mirror_e
  s_prio :: render_prio_e
  s_x :: u16
  s_y :: u16
  s_height :: u8
  s_width :: u8

section \<open>Addresses and tiles\<close>

definition unsigned_min :: "u32 \<Rightarrow> u32 \<Rightarrow> u32" where
  "unsigned_min a b = (if a < b then a else b)"

definition ppu_pattern_addr :: "u32 \<Rightarrow> u32 \<Rightarrow> pattern_addr_t outcome" where
  "ppu_pattern_addr x y =
     nowaymsg (x > 31) ''Argument out of range!''
    (nowaymsg (y > 31) ''Argument out of range!''
    (Done (push_bit 5 y OR x)))"

definition ppu_make_tile :: "pattern_addr_t \<Rightarrow> u32 \<Rightarrow> mirror_e \<Rightarrow> tile_t outcome" where
  "ppu_make_tile addr pal mir =
     nowaymsg (addr > PATTERN_MAXADDR) ''Pattern address malformed!''
    (nowaymsg (pal \<ge> TILELAYER_MAX_PALETTES) ''Palette ID out of range!''
    (nowaymsg (mir > MIRROR_MAXVAL) ''Mirror argument malformed!''
    (Done (ucast (push_bit 6 addr OR push_bit 2 pal OR mir)))))"

section \<open>Sprites\<close>

text \<open>The checks of one turn of the loop of \<open>ppu_write_sprites\<close>, and the two words it packs.\<close>

definition sprite_check :: "sprite_t \<Rightarrow> 'a outcome \<Rightarrow> 'a outcome" where
  "sprite_check s k =
     nowaymsg (s_pattern_addr s > PATTERN_MAXADDR) ''Pattern address malformed!''
    (nowaymsg (s_palette_id s \<ge> SPRLAYER_MAX_PALETTES) ''Palette ID out of range!''
    (nowaymsg (s_y s > SPRITE_MAXY) ''Sprite y coord. out of range!''
    (nowaymsg (s_x s > SPRITE_MAXX) ''Sprite x coord. out of range!''
    (nowaymsg (s_mirror s > MIRROR_MAXVAL) ''Mirror argument malformed!''
    (nowaymsg (s_height s > SPRITE_MAXHEIGHT) ''Sprite height exceeds maximum (4)!''
    (nowaymsg (s_height s = 0) ''Sprite height cannot be 0!''
    (nowaymsg (s_width s > SPRITE_MAXWIDTH) ''Sprite width exceeds maximum (4)!''
    (nowaymsg (s_width s = 0) ''Sprite width cannot be 0!''
    (nowaymsg (s_prio s > SPRITE_MAX_PRIO) ''Sprite Priority exceeds maximum (2)!''
     k)))))))))"

text \<open>The narrow members are promoted to \<open>int\<close> before they are shifted.\<close>

definition sprite_word :: "sprite_t \<Rightarrow> u32" where
  "sprite_word s = push_bit 22 (s_pattern_addr s) OR push_bit 17 (s_palette_id s)
     OR push_bit 9 (ucast (s_y s)) OR ucast (s_x s)"

definition sprite_extra :: "sprite_t \<Rightarrow> u8" where
  "sprite_extra s = ucast (push_bit 6 (s_mirror s) OR push_bit 4 (ucast (s_height s) - 1)
     OR push_bit 2 (ucast (s_width s) - 1) OR s_prio s)"

definition sprite_ok :: "sprite_t \<Rightarrow> bool" where
  "sprite_ok s \<longleftrightarrow> s_pattern_addr s \<le> PATTERN_MAXADDR \<and> s_palette_id s < SPRLAYER_MAX_PALETTES
     \<and> s_y s \<le> SPRITE_MAXY \<and> s_x s \<le> SPRITE_MAXX \<and> s_mirror s \<le> MIRROR_MAXVAL
     \<and> s_height s \<le> SPRITE_MAXHEIGHT \<and> s_height s \<noteq> 0 \<and> s_width s \<le> SPRITE_MAXWIDTH
     \<and> s_width s \<noteq> 0 \<and> s_prio s \<le> SPRITE_MAX_PRIO"

lemma sprite_check_ok: "sprite_ok s \<Longrightarrow> sprite_check s k = k"
  by (simp add: sprite_check_def sprite_ok_def not_less [symmetric])

lemma sprite_check_bad: "\<not> sprite_ok s \<Longrightarrow> \<exists>msg. sprite_check s k = Abort (NoWayMsg (Some msg))"
  by (auto simp: sprite_check_def sprite_ok_def not_less [symmetric])

end
