(* ===== verification/Chardev.thy ===== *)
theory Chardev
  imports Prelude
begin

text \<open>
  What the three kernel modules share as character devices: error numbers, the view a
  driver has of a user buffer through \<open>copy_from_user\<close>, and the contract of a device
  that one process at a time may hold open.
\<close>

section \<open>Error numbers\<close>

abbreviation (input) EFAULT :: int where "EFAULT \<equiv> 14"
abbreviation (input) EBUSY :: int where "EBUSY \<equiv> 16"
abbreviation (input) EINVAL :: int where "EINVAL \<equiv> 22"

section \<open>User buffers\<close>

text \<open>
  \<open>copy_from_user\<close> is kernel code outside the repository, so a user buffer is the outcome
  it has: for each requested length, the bytes that reach the destination and the number
  of bytes that could not be copied.  \<open>ubuf_ok\<close> is its documented contract that it never
  stores more than was asked for, and stores all of it when it reports nothing left over; \<open>user_readable buf bs\<close> says that the \<open>bs\<close> at the
  buffer's address are readable, so that copying them leaves nothing over.
\<close>

type_synonym ubuf = "nat \<Rightarrow> u8 list \<times> nat"

definition ubuf_ok :: "ubuf \<Rightarrow> bool" where
  "ubuf_ok buf \<longleftrightarrow> (\<forall>n. length (fst (buf n)) \<le> n \<and> (snd (buf n) = 0 \<longrightarrow> length (fst (buf n)) = n))"

definition user_readable :: "ubuf \<Rightarrow> u8 list \<Rightarrow> bool" where
  "user_readable buf bs \<longleftrightarrow> (\<forall>n \<le> length bs. buf n = (take n bs, 0))"

text \<open>A buffer whose readable bytes are exactly \<open>bs\<close>, the rest being padded with zeros.\<close>

definition user_mem :: "u8 list \<Rightarrow> ubuf" where
  "user_mem bs n = (take n bs @ replicate (n - length bs) 0, n - length bs)"

lemma ubuf_ok_user_mem [simp]: "ubuf_ok (user_mem bs)"
  by (auto simp: ubuf_ok_def user_mem_def)

lemma user_readable_user_mem [simp]: "user_readable (user_mem bs) bs"
  by (auto simp: user_readable_def user_mem_def)

lemma user_readableD: "user_readable buf bs \<Longrightarrow> n \<le> length bs \<Longrightarrow> buf n = (take n bs, 0)"
  by (simp add: user_readable_def)

text \<open>What \<open>memset(p, 0, n)\<close> stores.\<close>

definition zeros :: "nat \<Rightarrow> u8 list" where
  "zeros n = replicate n 0"

lemma length_zeros [simp]: "length (zeros n) = n"
  by (simp add: zeros_def)

lemma nth_zeros [simp]: "i < n \<Longrightarrow> zeros n ! i = 0"
  by (simp add: zeros_def)

section \<open>How a driver call can end\<close>

text \<open>
  A handler returns, spins for ever on a lock nobody releases (within the schedule it is
  given), or writes outside the block it owns.
\<close>

datatype 'a kresult = Returns 'a | Spins | Corrupts

fun returned :: "'a kresult \<Rightarrow> 'a option" where
  "returned (Returns x) = Some x"
| "returned Spins = None"
| "returned Corrupts = None"

lemma returned_Some [simp]: "returned r = Some x \<longleftrightarrow> r = Returns x"
  by (cases r) auto

section \<open>Resources a module holds\<close>

text \<open>
  The kernel objects a probe acquires and a remove gives back.  A handler registered by
  \<open>request_irq\<close> is found again by its cookie \<open>dev_id\<close> (NULL is \<open>None\<close>): \<open>free_irq\<close> with
  another cookie leaves it registered, as the interrupt API documents.
\<close>

record kernel_res =
  chrdev :: bool
  iomap :: bool
  dma_block :: bool
  irq_cookie :: "string option option"
  dev_class :: bool
  dev_node :: bool

definition no_resources :: kernel_res where
  "no_resources = \<lparr>chrdev = False, iomap = False, dma_block = False, irq_cookie = None,
     dev_class = False, dev_node = False\<rparr>"

definition free_irq :: "string option \<Rightarrow> kernel_res \<Rightarrow> kernel_res" where
  "free_irq dev_id k = (if irq_cookie k = Some dev_id then k\<lparr>irq_cookie := None\<rparr> else k)"

section \<open>Devices with one owner\<close>

text \<open>
  Processes attach to and detach from a device; \<open>clients\<close> runs a sequence of these and
  keeps the set of processes whose open succeeded.  A detach of a process that holds no
  descriptor never reaches the driver.  The run is \<open>None\<close> when a release does not return.
\<close>

datatype client_act = Attach nat | Detach nat

fun clients :: "('s \<Rightarrow> int \<times> 's) \<Rightarrow> ('s \<Rightarrow> 's option) \<Rightarrow> client_act list
    \<Rightarrow> 's \<times> nat set \<Rightarrow> ('s \<times> nat set) option" where
  "clients opn rel [] c = Some c"
| "clients opn rel (Attach p # as) (s, own) =
     (let (r, s') = opn s
      in clients opn rel as (s', if r = 0 then insert p own else own))"
| "clients opn rel (Detach p # as) (s, own) =
     (if p \<in> own then
        (case rel s of None \<Rightarrow> None | Some s' \<Rightarrow> clients opn rel as (s', own - {p}))
      else clients opn rel as (s, own))"

locale exclusive_open =
  fixes opn :: "'s \<Rightarrow> int \<times> 's" and rel :: "'s \<Rightarrow> 's option"
    and held :: "'s \<Rightarrow> bool" and good :: "'s \<Rightarrow> bool"
  assumes open_free: "good s \<Longrightarrow> \<not> held s \<Longrightarrow> opn s = (r, s') \<Longrightarrow> r = 0 \<and> held s' \<and> good s'"
    and open_held: "good s \<Longrightarrow> held s \<Longrightarrow> opn s = (- EBUSY, s)"
    and release_free: "good s \<Longrightarrow> held s \<Longrightarrow> rel s = Some s' \<Longrightarrow> \<not> held s' \<and> good s'"
begin

lemma one_owner_step:
  assumes "good s" and "\<not> held s \<and> own = {} \<or> held s \<and> (\<exists>p. own = {p})"
    and "clients opn rel as (s, own) = Some (s', own')"
  shows "good s' \<and> (\<not> held s' \<and> own' = {} \<or> held s' \<and> (\<exists>p. own' = {p}))"
  using assms
proof (induction as arbitrary: s own)
  case Nil
  then show ?case by auto
next
  case (Cons a as)
  show ?case
  proof (cases a)
    case (Attach p)
    obtain r t where o: "opn s = (r, t)" by fastforce
    show ?thesis
    proof (cases "held s")
      case True
      with Cons.prems(1) o have "r = - EBUSY" "t = s" by (auto dest: open_held)
      with Cons Attach o show ?thesis by auto
    next
      case False
      with Cons.prems(1) o have "r = 0 \<and> held t \<and> good t" by (auto dest: open_free)
      moreover have "own = {}" using Cons.prems(2) False by auto
      ultimately show ?thesis
        using Cons.IH [of t "{p}"] Cons.prems(3) Attach o by auto
    qed
  next
    case (Detach p)
    show ?thesis
    proof (cases "p \<in> own")
      case True
      with Cons.prems(2) have h: "held s" and own: "own = {p}" by auto
      from Cons.prems(3) Detach True obtain t where t: "rel s = Some t"
        and run: "clients opn rel as (t, {}) = Some (s', own')"
        by (auto simp: own split: option.splits)
      from release_free [OF Cons.prems(1) h t] run show ?thesis
        by (intro Cons.IH [of t "{}"]) simp_all
    next
      case False
      with Cons Detach show ?thesis by auto
    qed
  qed
qed

lemma one_owner:
  assumes "good s" and "\<not> held s" and "clients opn rel as (s, {}) = Some (s', own)"
  shows "card own \<le> 1 \<and> (held s' \<longleftrightarrow> own \<noteq> {})"
  using one_owner_step [of s "{}" as s' own] assms by auto

end

end
