(* ===== verification/PpuDriver.thy ===== *)
theory PpuDriver
  imports Chardev
begin

text \<open>
  The kernel module of the pixel processing unit, \<^verbatim>\<open>Kernel/ppu/ppu.c\<close>: its
  static variables and the control registers of the device as one record, and each of its
  handlers as a function on it.
\<close>

section \<open>State\<close>

text \<open>The size of VRAM in bytes (\<^verbatim>\<open>drv_ppu.h\<close>).\<close>

abbreviation (input) VRAM_SIZE :: nat where "VRAM_SIZE \<equiv> 0xD140"

text \<open>Offsets of the control registers from the base of the device's register window.\<close>

abbreviation (input) PPU_DMA_ADDR_OFFSET :: u32 where "PPU_DMA_ADDR_OFFSET \<equiv> 0x00"
abbreviation (input) PPU_BGSCROLL_OFFSET :: u32 where "PPU_BGSCROLL_OFFSET \<equiv> 0x10"
abbreviation (input) PPU_FGSCROLL_OFFSET :: u32 where "PPU_FGSCROLL_OFFSET \<equiv> 0x20"
abbreviation (input) PPU_BGCOLOR_OFFSET :: u32 where "PPU_BGCOLOR_OFFSET \<equiv> 0x30"
abbreviation (input) PPU_ENABLE_OFFSET :: u32 where "PPU_ENABLE_OFFSET \<equiv> 0x40"

text \<open>
  The device as the driver sees it: the last value written to each control register,
  whether a transfer has been started and not yet been answered by an interrupt, and the
  log of transfers started and interrupts raised, newest first.
\<close>

datatype bus_event = DmaStart u32 | DmaIrq

record ppu_dev =
  bgscroll_reg :: u32
  fgscroll_reg :: u32
  bgcolor_reg :: u32
  enable_reg :: u32
  dma_pending :: bool
  bus :: "bus_event list"

text \<open>
  The driver's statics.  \<open>vram_block\<close> is the memory \<open>vram_base_v\<close> points to;
  \<open>vram_addr_v\<close> is a byte offset into it.  \<open>dma_addr_t\<close> is 32 bits wide on the target.
\<close>

record ppu_drv =
  vram_block :: "u8 list"
  vram_addr_v :: nat
  vram_base_p :: u32
  vram_addr_p :: u32
  ppu_lock :: int
  vram_lock :: int
  dev :: ppu_dev

text \<open>The VRAM image inside the allocated block.\<close>

definition kvram :: "ppu_drv \<Rightarrow> u8 list" where
  "kvram s = segment (vram_addr_v s) VRAM_SIZE (vram_block s)"

section \<open>Register writes\<close>

fun dev_write :: "u32 \<Rightarrow> u32 \<Rightarrow> ppu_dev \<Rightarrow> ppu_dev" where
  "dev_write off val d =
     (if off = PPU_DMA_ADDR_OFFSET then d\<lparr>dma_pending := True, bus := DmaStart val # bus d\<rparr>
      else if off = PPU_BGSCROLL_OFFSET then d\<lparr>bgscroll_reg := val\<rparr>
      else if off = PPU_FGSCROLL_OFFSET then d\<lparr>fgscroll_reg := val\<rparr>
      else if off = PPU_BGCOLOR_OFFSET then d\<lparr>bgcolor_reg := val\<rparr>
      else if off = PPU_ENABLE_OFFSET then d\<lparr>enable_reg := val\<rparr>
      else d)"

definition mmio_write :: "u32 \<Rightarrow> u32 \<Rightarrow> ppu_drv \<Rightarrow> ppu_drv" where
  "mmio_write offset val s = s\<lparr>dev := dev_write offset val (dev s)\<rparr>"

section \<open>Interrupt\<close>

definition ppu_irq :: "ppu_drv \<Rightarrow> ppu_drv" where
  "ppu_irq s = s\<lparr>vram_lock := 0\<rparr>"

text \<open>
  The device finishes the transfer it was given, if any, and raises its interrupt, which
  runs the handler.
\<close>

definition dma_complete :: "ppu_drv \<Rightarrow> ppu_drv" where
  "dma_complete s =
     (if dma_pending (dev s)
      then ppu_irq (s\<lparr>dev := (dev s)\<lparr>dma_pending := False, bus := DmaIrq # bus (dev s)\<rparr>\<rparr>)
      else s)"

section \<open>Open and release\<close>

definition ppu_open :: "ppu_drv \<Rightarrow> int \<times> ppu_drv" where
  "ppu_open s = (let old = ppu_lock s; s = s\<lparr>ppu_lock := 1\<rparr>
                 in (if old = 0 then 0 else - EBUSY, s))"

text \<open>
  \<open>while (atomic_xchg(&vram_lock, 1) == 1);\<close> with a schedule of the device: before each
  turn of the loop the device either completes its transfer (\<open>True\<close>) or does nothing.
  \<open>None\<close> is a loop still running when the schedule ends.
\<close>

fun spin_vram_lock :: "bool list \<Rightarrow> ppu_drv \<Rightarrow> (ppu_drv \<times> bool list) option" where
  "spin_vram_lock [] s = None"
| "spin_vram_lock (e # es) s =
     (let s = (if e then dma_complete s else s);
          old = vram_lock s;
          s = s\<lparr>vram_lock := 1\<rparr>
      in if old = 1 then spin_vram_lock es s else Some (s, es))"

definition reset_regs :: "ppu_drv \<Rightarrow> ppu_drv" where
  "reset_regs s =
     mmio_write PPU_ENABLE_OFFSET 0 (mmio_write PPU_BGCOLOR_OFFSET 0
       (mmio_write PPU_FGSCROLL_OFFSET 0 (mmio_write PPU_BGSCROLL_OFFSET 0 s)))"

definition ppu_release :: "bool list \<Rightarrow> ppu_drv \<Rightarrow> (int \<times> ppu_drv \<times> bool list) kresult" where
  "ppu_release es s =
     (let old = ppu_lock s; s = s\<lparr>ppu_lock := 1\<rparr>
      in if old = 0 then Returns (-1, s\<lparr>ppu_lock := 0\<rparr>, es)
      else
        (case spin_vram_lock es s of
           None \<Rightarrow> Spins
         | Some (s, es) \<Rightarrow>
            (case mem_write 0 (zeros (VRAM_SIZE + 8)) (vram_block s) of
               None \<Rightarrow> Corrupts
             | Some m \<Rightarrow>
                (let s = reset_regs (s\<lparr>vram_block := m\<rparr>);
                     s = mmio_write PPU_DMA_ADDR_OFFSET (vram_addr_p s) s
                 in case spin_vram_lock es s of
                      None \<Rightarrow> Spins
                    | Some (s, es) \<Rightarrow> Returns (0, s\<lparr>vram_lock := 0, ppu_lock := 0\<rparr>, es)))))"

section \<open>Write\<close>

text \<open>
  \<open>offset\<close> is a 64-bit \<open>loff_t\<close> and \<open>len\<close> a 32-bit \<open>size_t\<close>; their sum and the
  comparison are signed 64-bit, and the address takes the low 32 bits of the offset.  The
  result is the return value and the new file position.
\<close>

definition ppu_write :: "ubuf \<Rightarrow> u32 \<Rightarrow> u64 \<Rightarrow> ppu_drv \<Rightarrow> (int \<times> u64 \<times> ppu_drv) kresult" where
  "ppu_write buf len offset s =
     (if sint (offset + ucast len) > int VRAM_SIZE then Returns (- EINVAL, offset, s)
      else
        (let old = vram_lock s; s = s\<lparr>vram_lock := 1\<rparr>
         in if old = 1 then Returns (- EBUSY, offset, s)
         else
           (let addr = vram_addr_v s + unat (ucast offset :: u32);
                (bs, left) = buf (unat len)
            in case mem_write addr bs (vram_block s) of
                 None \<Rightarrow> Corrupts
               | Some m \<Rightarrow>
                  (let s = s\<lparr>vram_block := m\<rparr>
                   in if left \<noteq> 0 then Returns (- EFAULT, offset, s\<lparr>vram_lock := 0\<rparr>)
                      else Returns (sint len, offset + ucast len, s\<lparr>vram_lock := 0\<rparr>)))))"

section \<open>Ioctl\<close>

text \<open>
  The command numbers of \<^verbatim>\<open>drv_ppu.h\<close> are the labels of a \<open>switch\<close>, so they are
  distinct; any other number is \<open>PPU_OTHER\<close>.
\<close>

datatype ppu_cmd =
    IOCTL_PPU_UPDATE
  | IOCTL_PPU_SET_BGSCROLL
  | IOCTL_PPU_SET_FGSCROLL
  | IOCTL_PPU_SET_BGCOLOR
  | IOCTL_PPU_SET_ENABLE
  | PPU_OTHER nat

definition ppu_ioctl :: "ppu_cmd \<Rightarrow> u32 \<Rightarrow> ppu_drv \<Rightarrow> int \<times> ppu_drv" where
  "ppu_ioctl ioctl_num ioctl_param s =
     (let old = vram_lock s; s = s\<lparr>vram_lock := 1\<rparr>
      in if old = 1 then (- EBUSY, s)
      else
        (case ioctl_num of
           IOCTL_PPU_UPDATE \<Rightarrow> (0, mmio_write PPU_DMA_ADDR_OFFSET (vram_addr_p s) s)
         | IOCTL_PPU_SET_BGSCROLL \<Rightarrow>
             (0, (mmio_write PPU_BGSCROLL_OFFSET ioctl_param s)\<lparr>vram_lock := 0\<rparr>)
         | IOCTL_PPU_SET_FGSCROLL \<Rightarrow>
             (0, (mmio_write PPU_FGSCROLL_OFFSET ioctl_param s)\<lparr>vram_lock := 0\<rparr>)
         | IOCTL_PPU_SET_BGCOLOR \<Rightarrow>
             (0, (mmio_write PPU_BGCOLOR_OFFSET ioctl_param s)\<lparr>vram_lock := 0\<rparr>)
         | IOCTL_PPU_SET_ENABLE \<Rightarrow>
             (0, (mmio_write PPU_ENABLE_OFFSET ioctl_param s)\<lparr>vram_lock := 0\<rparr>)
         | PPU_OTHER _ \<Rightarrow> (- EINVAL, s\<lparr>vram_lock := 0\<rparr>)))"

section \<open>Probe and remove\<close>

text \<open>What the kernel answers to the calls of \<open>ppu_probe\<close>.\<close>

record ppu_probe_env =
  register_chrdev_ret :: int
  dma_alloc_ret :: "(u32 \<times> u8 list) option"
  request_irq_ret :: int
  ioremap_ok :: bool

definition ppu_probe :: "ppu_probe_env \<Rightarrow> kernel_res \<Rightarrow> ppu_drv \<Rightarrow> int \<times> kernel_res \<times> ppu_drv" where
  "ppu_probe env k s =
     (if register_chrdev_ret env < 0 then (-1, k, s)
      else
        (let k = k\<lparr>chrdev := True, iomap := True\<rparr>
         in case dma_alloc_ret env of
              None \<Rightarrow> (-1, k, s)
            | Some (base_p, blk) \<Rightarrow>
               (let k = k\<lparr>dma_block := True\<rparr>;
                    s = s\<lparr>vram_block := blk, vram_base_p := base_p\<rparr>;
                    s = (if base_p AND 0xF \<noteq> 0
                         then s\<lparr>vram_addr_v := 8, vram_addr_p := base_p + 1\<rparr>
                         else s\<lparr>vram_addr_v := 0, vram_addr_p := base_p\<rparr>);
                    s = s\<lparr>ppu_lock := 0, vram_lock := 0\<rparr>
                in if request_irq_ret env < 0 then (-1, k, s)
                else
                  (let k = k\<lparr>irq_cookie := Some (Some ''ppu_irq'')\<rparr>
                   in if \<not> ioremap_ok env then (-1, k, s)
                      else (0, k\<lparr>dev_class := True, dev_node := True\<rparr>, s)))))"

definition ppu_remove :: "kernel_res \<Rightarrow> kernel_res" where
  "ppu_remove k =
     free_irq None
       (k\<lparr>dev_node := False, dev_class := False, chrdev := False, iomap := False,
          dma_block := False\<rparr>)"

section \<open>The invariant of the driver between calls\<close>

text \<open>
  Transfers and interrupts alternate: the log, newest first, starts with a transfer
  exactly when one is pending, and every transfer but the newest is followed by an
  interrupt before the next one starts.
\<close>

fun dma_log_ok :: "bool \<Rightarrow> bus_event list \<Rightarrow> bool" where
  "dma_log_ok pend [] = (\<not> pend)"
| "dma_log_ok pend (DmaStart a # l) = (pend \<and> dma_log_ok False l)"
| "dma_log_ok pend (DmaIrq # l) = (\<not> pend \<and> dma_log_ok True l)"

definition ppu_inv :: "ppu_drv \<Rightarrow> bool" where
  "ppu_inv s \<longleftrightarrow> ppu_lock s \<in> {0, 1} \<and> vram_lock s \<in> {0, 1}
     \<and> (vram_lock s = 1 \<longleftrightarrow> dma_pending (dev s))
     \<and> length (vram_block s) = VRAM_SIZE + 8 \<and> vram_addr_v s \<in> {0, 8}
     \<and> dma_log_ok (dma_pending (dev s)) (bus (dev s))"

text \<open>The calls the kernel makes into the module, one after the other.\<close>

datatype ppu_call =
    PpuOpen
  | PpuRelease "bool list"
  | PpuWrite ubuf u32 u64
  | PpuIoctl ppu_cmd u32
  | PpuDmaDone

fun ppu_exec :: "ppu_call \<Rightarrow> ppu_drv \<Rightarrow> ppu_drv kresult" where
  "ppu_exec PpuOpen s = Returns (snd (ppu_open s))"
| "ppu_exec (PpuRelease es) s =
     (case ppu_release es s of
        Returns (r, s', es') \<Rightarrow> Returns s' | Spins \<Rightarrow> Spins | Corrupts \<Rightarrow> Corrupts)"
| "ppu_exec (PpuWrite buf len off) s =
     (case ppu_write buf len off s of
        Returns (r, off', s') \<Rightarrow> Returns s' | Spins \<Rightarrow> Spins | Corrupts \<Rightarrow> Corrupts)"
| "ppu_exec (PpuIoctl c a) s = Returns (snd (ppu_ioctl c a s))"
| "ppu_exec PpuDmaDone s = Returns (dma_complete s)"


fun ppu_run :: "ppu_call list \<Rightarrow> ppu_drv \<Rightarrow> ppu_drv kresult" where
  "ppu_run [] s = Returns s"
| "ppu_run (c # cs) s =
     (case ppu_exec c s of Returns t \<Rightarrow> ppu_run cs t | Spins \<Rightarrow> Spins | Corrupts \<Rightarrow> Corrupts)"

section \<open>Facts about the handlers\<close>

text \<open>
  The VFS calls the write handler with a position that is not negative and whose sum with
  the length does not overflow (\<open>rw_verify_area\<close>).
\<close>

definition vfs_pos :: "u64 \<Rightarrow> u32 \<Rightarrow> bool" where
  "vfs_pos offset len \<longleftrightarrow> 0 \<le> sint offset \<and> sint offset + uint len < 2 ^ 63"

lemma uint_if_sint_nonneg:
  fixes x :: u64
  assumes "0 \<le> sint x"
  shows "uint x = sint x"
proof -
  have "uint x = take_bit 64 (sint x)" by (simp add: uint_sint)
  also have "\<dots> = sint x"
    using assms sint_lt [of x] by (intro take_bit_int_eq_self) simp_all
  finally show ?thesis .
qed

lemma vfs_pos_sum:
  assumes "vfs_pos offset len"
  shows "sint (offset + ucast len) = int (unat offset + unat len)"
    and "unat (offset + ucast len) = unat offset + unat len"
    and "unat offset + unat len < 2 ^ 63"
proof -
  have o: "uint offset = sint offset"
    using assms by (simp add: vfs_pos_def uint_if_sint_nonneg)
  have l: "uint (ucast len :: u64) = uint len"
    by (simp add: unsigned_ucast_eq take_bit_int_eq_self order_less_le_trans [OF uint_bounded])
  have small: "uint offset + uint len < 2 ^ 63"
    using assms o by (simp add: vfs_pos_def)
  then have u: "uint (offset + ucast len) = uint offset + uint len"
    by (simp add: uint_plus_if' l)
  then show "unat (offset + ucast len) = unat offset + unat len"
    by (simp add: unat_eq_nat_uint nat_add_distrib del: nat_uint_eq)
  from small have "int (unat offset + unat len) < int (2 ^ 63)" by simp
  then show "unat offset + unat len < 2 ^ 63" by (simp only: of_nat_less_iff)
  show "sint (offset + ucast len) = int (unat offset + unat len)"
    using small u by (simp add: sint_if_uint_small unat_eq_nat_uint del: nat_uint_eq)
qed

lemma unat_low_offset: "unat (offset :: u64) \<le> n \<Longrightarrow> n < 2 ^ 32 \<Longrightarrow> unat (ucast offset :: u32) = unat offset"
  by (simp add: unsigned_ucast_eq take_bit_nat_eq_self)

text \<open>The write handler under the contract of the VFS, over natural numbers.\<close>

lemma ppu_write_nat:
  assumes pos: "vfs_pos offset len"
  shows "ppu_write buf len offset s =
     (if VRAM_SIZE < unat offset + unat len then Returns (- EINVAL, offset, s)
      else if vram_lock s = 1 then Returns (- EBUSY, offset, s)
      else case mem_write (vram_addr_v s + unat offset) (fst (buf (unat len))) (vram_block s) of
             None \<Rightarrow> Corrupts
           | Some m \<Rightarrow>
               if snd (buf (unat len)) \<noteq> 0
               then Returns (- EFAULT, offset, s\<lparr>vram_block := m, vram_lock := 0\<rparr>)
               else Returns (int (unat len), offset + ucast len, s\<lparr>vram_block := m, vram_lock := 0\<rparr>))"
proof (cases "VRAM_SIZE < unat offset + unat len")
  case True
  then have "sint (offset + ucast len) > int VRAM_SIZE"
    unfolding vfs_pos_sum(1) [OF pos] by (simp only: of_nat_less_iff)
  with True show ?thesis by (simp add: ppu_write_def)
next
  case False
  then have guard: "\<not> sint (offset + ucast len) > int VRAM_SIZE"
    unfolding vfs_pos_sum(1) [OF pos] by (simp only: of_nat_less_iff not_False_eq_True)
  from False
  have "unat (ucast offset :: u32) = unat offset" and "sint len = int (unat len)"
    by (auto intro!: unat_low_offset [of _ VRAM_SIZE] sint_len simp del: of_nat_unat)
  with False guard show ?thesis
    by (simp add: ppu_write_def Let_def split_beta split: option.split del: of_nat_unat)
qed


subsection \<open>The spin loops of release\<close>

lemma lock_idem: "vram_lock s = 1 \<Longrightarrow> s\<lparr>vram_lock := 1\<rparr> = s"
  by (cases s) simp

lemma dma_complete_idle [simp]: "\<not> dma_pending (dev s) \<Longrightarrow> dma_complete s = s"
  by (simp add: dma_complete_def)

lemma dma_complete_pending:
  "dma_pending (dev s) \<Longrightarrow> dma_complete s =
     s\<lparr>vram_lock := 0, dev := (dev s)\<lparr>dma_pending := False, bus := DmaIrq # bus (dev s)\<rparr>\<rparr>"
  by (simp add: dma_complete_def ppu_irq_def)

lemma spin_idle:
  "vram_lock s \<noteq> 1 \<Longrightarrow> \<not> dma_pending (dev s) \<Longrightarrow>
   spin_vram_lock es s = (case es of [] \<Rightarrow> None | _ # es' \<Rightarrow> Some (s\<lparr>vram_lock := 1\<rparr>, es'))"
  by (cases es) (simp_all add: Let_def)

lemma spin_pending:
  "vram_lock s = 1 \<Longrightarrow> dma_pending (dev s) \<Longrightarrow>
   spin_vram_lock es s =
     (case dropWhile Not es of [] \<Rightarrow> None
      | _ # es' \<Rightarrow> Some ((dma_complete s)\<lparr>vram_lock := 1\<rparr>, es'))"
  by (induction es) (auto simp: Let_def dma_complete_pending lock_idem)

text \<open>The state a completed release leaves behind.\<close>

definition ppu_released :: "ppu_drv \<Rightarrow> ppu_drv" where
  "ppu_released s = s\<lparr>vram_block := zeros (VRAM_SIZE + 8), ppu_lock := 0, vram_lock := 0,
     dev := \<lparr>bgscroll_reg = 0, fgscroll_reg = 0, bgcolor_reg = 0, enable_reg = 0,
       dma_pending = False,
       bus = DmaIrq # DmaStart (vram_addr_p s) #
         (if dma_pending (dev s) then DmaIrq # bus (dev s) else bus (dev s))\<rparr>\<rparr>"

text \<open>The part of the schedule that is left after the first spin loop of a release.\<close>

definition first_spin_rest :: "bool list \<Rightarrow> ppu_drv \<Rightarrow> bool list option" where
  "first_spin_rest es s =
     (case (if dma_pending (dev s) then dropWhile Not es else es) of
        [] \<Rightarrow> None | _ # es' \<Rightarrow> Some es')"

lemma blit_whole: "length xs = length m \<Longrightarrow> blit 0 xs m = xs"
  by (simp add: blit_def)

lemma ppu_release_owned:
  assumes inv: "ppu_inv s" and own: "ppu_lock s = 1"
  shows "ppu_release es s =
     (case first_spin_rest es s of None \<Rightarrow> Spins
      | Some es1 \<Rightarrow> (case dropWhile Not es1 of [] \<Rightarrow> Spins
           | _ # es2 \<Rightarrow> Returns (0, ppu_released s, es2)))"
proof -
  define s1 where "s1 = (if dma_pending (dev s) then dma_complete s else s)\<lparr>ppu_lock := 1, vram_lock := 1\<rparr>"
  have spin1: "spin_vram_lock es (s\<lparr>ppu_lock := 1\<rparr>) = map_option (Pair s1) (first_spin_rest es s)"
  proof (cases "dma_pending (dev s)")
    case True
    with inv have "vram_lock s = 1" by (simp add: ppu_inv_def)
    with True show ?thesis
      by (cases "dropWhile Not es")
        (simp_all add: s1_def first_spin_rest_def spin_pending dma_complete_pending
          del: dropWhile_eq_Nil_conv)
  next
    case False
    with inv have "vram_lock s \<noteq> 1" by (simp add: ppu_inv_def)
    with False show ?thesis
      by (simp add: s1_def first_spin_rest_def spin_idle split: list.split)
  qed
  define s2 where
    "s2 = mmio_write PPU_DMA_ADDR_OFFSET (vram_addr_p (reset_regs (s1\<lparr>vram_block := zeros (VRAM_SIZE + 8)\<rparr>)))
            (reset_regs (s1\<lparr>vram_block := zeros (VRAM_SIZE + 8)\<rparr>))"
  have blk: "length (vram_block s1) = VRAM_SIZE + 8"
    using inv by (simp add: s1_def ppu_inv_def dma_complete_def ppu_irq_def)
  have s2: "vram_lock s2 = 1" "dma_pending (dev s2)"
    by (simp_all add: s2_def s1_def mmio_write_def reset_regs_def)
  have fin: "(dma_complete s2)\<lparr>vram_lock := 0, ppu_lock := 0\<rparr> = ppu_released s"
    by (simp add: dma_complete_pending s2_def s1_def mmio_write_def reset_regs_def ppu_released_def)
  show ?thesis
    using own s2 fin
    by (simp add: ppu_release_def Let_def spin1 mem_write_def blk blit_whole
        s2_def [symmetric, simplified] spin_pending split: option.split list.split
        del: dropWhile_eq_Nil_conv)
qed

lemma ppu_release_closed:
  "ppu_lock s = 0 \<Longrightarrow> ppu_release es s = Returns (-1, s, es)"
  by (cases s) (simp add: ppu_release_def)


subsection \<open>Every call keeps the invariant\<close>

text \<open>The buffers and positions the kernel hands to the module.\<close>

fun ppu_call_ok :: "ppu_call \<Rightarrow> bool" where
  "ppu_call_ok (PpuWrite buf len off) = (ubuf_ok buf \<and> vfs_pos off len)"
| "ppu_call_ok _ = True"

lemma ppu_open_inv: "ppu_inv s \<Longrightarrow> ppu_inv (snd (ppu_open s))"
  by (auto simp: ppu_inv_def ppu_open_def Let_def)

lemma ppu_inv_released: "ppu_inv s \<Longrightarrow> ppu_inv (ppu_released s)"
  by (auto simp: ppu_inv_def ppu_released_def)

lemma ppu_release_inv:
  assumes "ppu_inv s"
  shows "ppu_release es s \<noteq> Corrupts"
    and "ppu_release es s = Returns (r, s', es') \<Longrightarrow> ppu_inv s'"
proof -
  from assms consider "ppu_lock s = 0" | "ppu_lock s = 1" by (auto simp: ppu_inv_def)
  then have "ppu_release es s \<noteq> Corrupts \<and>
      (ppu_release es s = Returns (r, s', es') \<longrightarrow> ppu_inv s')"
  proof cases
    case 1
    with assms show ?thesis by (auto simp: ppu_release_closed)
  next
    case 2
    with assms show ?thesis
      by (auto simp: ppu_release_owned ppu_inv_released split: option.splits list.splits)
  qed
  then show "ppu_release es s \<noteq> Corrupts"
    and "ppu_release es s = Returns (r, s', es') \<Longrightarrow> ppu_inv s'" by auto
qed

lemma ppu_write_inv:
  assumes inv: "ppu_inv s" and buf: "ubuf_ok buf" and pos: "vfs_pos off len"
  shows "\<exists>r off' s'. ppu_write buf len off s = Returns (r, off', s') \<and> ppu_inv s'"
proof (cases "VRAM_SIZE < unat off + unat len \<or> vram_lock s = 1")
  case True
  then show ?thesis using inv by (auto simp: ppu_write_nat [OF pos])
next
  case False
  have "length (fst (buf (unat len))) \<le> unat len" using buf by (simp add: ubuf_ok_def)
  with False inv have fits: "vram_addr_v s + unat off + length (fst (buf (unat len))) \<le> length (vram_block s)"
    by (auto simp: ppu_inv_def)
  with False inv show ?thesis
    by (auto simp: ppu_write_nat [OF pos] mem_write_def ppu_inv_def)
qed

lemma ppu_ioctl_inv: "ppu_inv s \<Longrightarrow> ppu_inv (snd (ppu_ioctl c a s))"
  by (cases c) (auto simp: ppu_inv_def ppu_ioctl_def Let_def mmio_write_def)

lemma dma_complete_inv: "ppu_inv s \<Longrightarrow> ppu_inv (dma_complete s)"
  by (auto simp: ppu_inv_def dma_complete_def ppu_irq_def)

lemma ppu_exec_inv:
  assumes "ppu_inv s" and "ppu_call_ok c"
  shows "ppu_exec c s \<noteq> Corrupts" and "ppu_exec c s = Returns t \<Longrightarrow> ppu_inv t"
proof -
  have "ppu_exec c s \<noteq> Corrupts \<and> (ppu_exec c s = Returns t \<longrightarrow> ppu_inv t)"
  proof (cases c)
    case (PpuRelease es)
    with assms show ?thesis
      by (auto split: kresult.splits dest: ppu_release_inv)
  next
    case (PpuWrite buf len off)
    with assms have "ubuf_ok buf" "vfs_pos off len" by auto
    from ppu_write_inv [OF assms(1) this] PpuWrite show ?thesis by auto
  qed (use assms in \<open>auto intro: ppu_open_inv ppu_ioctl_inv dma_complete_inv\<close>)
  then show "ppu_exec c s \<noteq> Corrupts" and "ppu_exec c s = Returns t \<Longrightarrow> ppu_inv t" by auto
qed

subsection \<open>What a call does in a state of the invariant\<close>

lemma kvram_write:
  assumes "ppu_inv s" and "off + length bs \<le> VRAM_SIZE"
  shows "kvram (s\<lparr>vram_block := blit (vram_addr_v s + off) bs (vram_block s)\<rparr>) = blit off bs (kvram s)"
proof -
  have "vram_addr_v s + VRAM_SIZE \<le> length (vram_block s)" using assms(1) by (auto simp: ppu_inv_def)
  then show ?thesis using assms(2) by (simp add: kvram_def segment_blit_around)
qed

lemma length_kvram [simp]: "ppu_inv s \<Longrightarrow> length (kvram s) = VRAM_SIZE"
  by (auto simp: kvram_def ppu_inv_def)

lemma ppu_write_readable:
  assumes inv: "ppu_inv s" and pos: "vfs_pos off len"
    and buf: "user_readable buf bs" and len: "length bs = unat len"
  shows "if VRAM_SIZE < unat off + length bs then ppu_write buf len off s = Returns (- EINVAL, off, s)
    else if dma_pending (dev s) then ppu_write buf len off s = Returns (- EBUSY, off, s)
    else \<exists>s'. ppu_write buf len off s = Returns (int (length bs), off + ucast len, s')
           \<and> kvram s' = blit (unat off) bs (kvram s)
           \<and> s' = s\<lparr>vram_block := vram_block s'\<rparr> \<and> ppu_inv s'"
proof -
  from user_readableD [OF buf, of "unat len"] have copy: "buf (unat len) = (bs, 0)"
    by (simp add: len [symmetric])
  from user_readableD [OF buf, of "length bs"] have copy2: "buf (length bs) = (bs, 0)" by simp
  from inv have lock: "vram_lock s = 1 \<longleftrightarrow> dma_pending (dev s)" "vram_lock s \<noteq> 1 \<Longrightarrow> vram_lock s = 0"
    by (auto simp: ppu_inv_def)
  show ?thesis
  proof (cases "VRAM_SIZE < unat off + unat len \<or> dma_pending (dev s)")
    case True
    with lock show ?thesis by (auto simp: ppu_write_nat [OF pos] len)
  next
    case False
    then have fits: "unat off + length bs \<le> VRAM_SIZE" by (simp add: len)
    define s' where "s' = s\<lparr>vram_block := blit (vram_addr_v s + unat off) bs (vram_block s)\<rparr>"
    have "s' = s'\<lparr>vram_lock := 0\<rparr>" using False lock by (cases s) (simp add: s'_def)
    moreover have "mem_write (vram_addr_v s + unat off) bs (vram_block s) =
        Some (blit (vram_addr_v s + unat off) bs (vram_block s))"
      using fits inv by (auto simp: ppu_inv_def mem_write_def)
    ultimately have "ppu_write buf len off s = Returns (int (length bs), off + ucast len, s')"
      using False lock by (simp add: ppu_write_nat [OF pos] copy copy2 s'_def len [symmetric] del: mem_write_Some)
    moreover have "ppu_inv s'" using inv fits by (auto simp: s'_def ppu_inv_def)
    ultimately show ?thesis using False kvram_write [OF inv fits] by (simp add: s'_def len)
  qed
qed

lemma ppu_ioctl_eq:
  assumes inv: "ppu_inv s"
  shows "ppu_ioctl c a s =
    (if dma_pending (dev s) then (- EBUSY, s)
     else case c of
       IOCTL_PPU_UPDATE \<Rightarrow> (0, s\<lparr>vram_lock := 1, dev := (dev s)\<lparr>dma_pending := True,
           bus := DmaStart (vram_addr_p s) # bus (dev s)\<rparr>\<rparr>)
     | IOCTL_PPU_SET_BGSCROLL \<Rightarrow> (0, s\<lparr>dev := (dev s)\<lparr>bgscroll_reg := a\<rparr>\<rparr>)
     | IOCTL_PPU_SET_FGSCROLL \<Rightarrow> (0, s\<lparr>dev := (dev s)\<lparr>fgscroll_reg := a\<rparr>\<rparr>)
     | IOCTL_PPU_SET_BGCOLOR \<Rightarrow> (0, s\<lparr>dev := (dev s)\<lparr>bgcolor_reg := a\<rparr>\<rparr>)
     | IOCTL_PPU_SET_ENABLE \<Rightarrow> (0, s\<lparr>dev := (dev s)\<lparr>enable_reg := a\<rparr>\<rparr>)
     | PPU_OTHER n \<Rightarrow> (- EINVAL, s))"
proof (cases "dma_pending (dev s)")
  case True
  with inv have "vram_lock s = 1" by (simp add: ppu_inv_def)
  with True show ?thesis by (simp add: ppu_ioctl_def lock_idem)
next
  case False
  with inv have "vram_lock s = 0" by (auto simp: ppu_inv_def)
  with False show ?thesis
    by (cases s; cases c) (simp_all add: ppu_ioctl_def mmio_write_def)
qed

lemma kvram_released: "ppu_inv s \<Longrightarrow> kvram (ppu_released s) = zeros VRAM_SIZE"
proof -
  have "segment n VRAM_SIZE (zeros (VRAM_SIZE + 8)) = zeros VRAM_SIZE" if "n \<le> 8" for n
    by (rule nth_equalityI) (use that in \<open>simp_all add: nth_segment\<close>)
  then show "ppu_inv s \<Longrightarrow> ?thesis" by (auto simp: ppu_released_def kvram_def ppu_inv_def)
qed

subsection \<open>Reachable states of the module\<close>

text \<open>A module that has just been probed over an idle device.\<close>

definition ppu_init :: "ppu_drv \<Rightarrow> bool" where
  "ppu_init s \<longleftrightarrow> ppu_lock s = 0 \<and> vram_lock s = 0 \<and> length (vram_block s) = VRAM_SIZE + 8
     \<and> vram_addr_v s \<in> {0, 8} \<and> \<not> dma_pending (dev s) \<and> bus (dev s) = []"

inductive ppu_step :: "ppu_drv \<Rightarrow> ppu_drv \<Rightarrow> bool" where
  ppu_step: "ppu_call_ok c \<Longrightarrow> ppu_exec c s = Returns t \<Longrightarrow> ppu_step s t"

inductive_cases ppu_stepE: "ppu_step s t"

interpretation ppu_module: inv_system ppu_init ppu_step ppu_inv
proof unfold_locales
  show "ppu_inv s" if "ppu_init s" for s
    using that by (auto simp: ppu_init_def ppu_inv_def)
  show "ppu_inv t" if "ppu_inv s" "ppu_step s t" for s t
    using that by (auto elim: ppu_stepE dest: ppu_exec_inv(2))
qed

text \<open>The release as the closing process experiences it: \<open>None\<close> when it does not return.\<close>

definition ppu_close :: "bool list \<Rightarrow> ppu_drv \<Rightarrow> ppu_drv option" where
  "ppu_close es s = map_option (\<lambda>(r, s', es'). s') (returned (ppu_release es s))"

interpretation ppu_device: exclusive_open ppu_open "ppu_close es"
    "\<lambda>s. ppu_lock s = 1" ppu_inv for es
proof unfold_locales
  fix s s' :: ppu_drv and r
  assume "ppu_inv s" "ppu_lock s \<noteq> 1" "ppu_open s = (r, s')"
  then show "r = 0 \<and> ppu_lock s' = 1 \<and> ppu_inv s'"
    by (auto simp: ppu_open_def Let_def ppu_inv_def)
next
  fix s :: ppu_drv
  assume "ppu_inv s" "ppu_lock s = 1"
  then show "ppu_open s = (- EBUSY, s)" by (cases s) (simp add: ppu_open_def)
next
  fix s s' :: ppu_drv
  assume "ppu_inv s" "ppu_lock s = 1"
    "ppu_close es s = Some s'"
  then show "ppu_lock s' \<noteq> 1 \<and> ppu_inv s'"
    by (auto simp: ppu_close_def ppu_release_owned ppu_inv_released split: option.splits list.splits)
      (simp add: ppu_released_def)
qed

end
