(* ===== verification/PpuLib.thy ===== *)
theory PpuLib
  imports PpuData PpuDriver
begin

text \<open>
  The control and write functions of the graphics library, \<^verbatim>\<open>Library/src/ppu.c\<close>.
  They see the operating system through the record \<open>ppu_sys\<close> of the calls they make, over
  a type \<open>'w\<close> of the rest of the world; the static \<open>ppu_fd\<close> and that world are the state
  of the process.  System calls return their value and \<open>errno\<close>.
\<close>

section \<open>The process and the calls it makes\<close>

record 'w ppu_sys =
  open_ppu :: "'w \<Rightarrow> (int \<times> int) \<times> 'w"
  close_fd :: "int \<Rightarrow> 'w \<Rightarrow> 'w option"
  ioctl_fd :: "int \<Rightarrow> ppu_cmd \<Rightarrow> u32 \<Rightarrow> 'w \<Rightarrow> (int \<times> int) \<times> 'w"
  pwrite_fd :: "int \<Rightarrow> ubuf \<Rightarrow> u32 \<Rightarrow> u32 \<Rightarrow> 'w \<Rightarrow> (int \<times> int) \<times> 'w"
  malloc_blk :: "nat \<Rightarrow> 'w \<Rightarrow> u8 list option \<times> 'w"
  free_blk :: "'w \<Rightarrow> 'w"

record 'w proc =
  ppu_fd :: int
  os :: 'w

text \<open>
  \<open>close_fd\<close> is \<open>None\<close> when the call does not return.  \<open>malloc_blk\<close> is the block that
  \<open>malloc\<close> returns, with its indeterminate contents and with whatever the allocator adds
  beyond the size asked for; \<open>free_blk\<close> gives a block back.  \<open>off_t\<close> is 32 bits wide on the target.
\<close>

definition do_ioctl :: "'w ppu_sys \<Rightarrow> ppu_cmd \<Rightarrow> u32 \<Rightarrow> 'w proc \<Rightarrow> (int \<times> int) \<times> 'w proc" where
  "do_ioctl sys c a p = (let (r, w) = ioctl_fd sys (ppu_fd p) c a (os p) in (r, p\<lparr>os := w\<rparr>))"

definition do_pwrite :: "'w ppu_sys \<Rightarrow> ubuf \<Rightarrow> u32 \<Rightarrow> u32 \<Rightarrow> 'w proc \<Rightarrow> (int \<times> int) \<times> 'w proc" where
  "do_pwrite sys buf n off p =
     (let (r, w) = pwrite_fd sys (ppu_fd p) buf n off (os p) in (r, p\<lparr>os := w\<rparr>))"

definition do_malloc :: "'w ppu_sys \<Rightarrow> nat \<Rightarrow> 'w proc \<Rightarrow> u8 list option \<times> 'w proc" where
  "do_malloc sys n p = (let (b, w) = malloc_blk sys n (os p) in (b, p\<lparr>os := w\<rparr>))"

definition do_free :: "'w ppu_sys \<Rightarrow> 'w proc \<Rightarrow> 'w proc" where
  "do_free sys p = p\<lparr>os := free_blk sys (os p)\<rparr>"

section \<open>Main controls\<close>

definition ppu_enable :: "'w ppu_sys \<Rightarrow> 'w proc \<Rightarrow> (int \<times> 'w proc) outcome" where
  "ppu_enable sys p =
     nowaymsg (ppu_fd p \<noteq> -1) ''PPU already enabled by this process!''
     (let ((fd, err), w) = open_ppu sys (os p); p = p\<lparr>ppu_fd := fd, os := w\<rparr>
      in if fd < 0 then c_assert (err = EBUSY) ''errno == EBUSY'' (Done (-1, p\<lparr>ppu_fd := -1\<rparr>))
         else Done (0, p))"

definition ppu_disable :: "'w ppu_sys \<Rightarrow> 'w proc \<Rightarrow> 'w proc outcome" where
  "ppu_disable sys p =
     nowaymsg (ppu_fd p = -1) ''PPU already disabled or not owned by this process!''
     (case close_fd sys (ppu_fd p) (os p) of
        None \<Rightarrow> Hangs
      | Some w \<Rightarrow> Done (p\<lparr>os := w, ppu_fd := -1\<rparr>))"

definition ppu_update :: "'w ppu_sys \<Rightarrow> 'w proc \<Rightarrow> (int \<times> 'w proc) outcome" where
  "ppu_update sys p =
     nowaymsg (ppu_fd p = -1) ''PPU not enabled or owned by this process!''
     (let ((r, err), p) = do_ioctl sys IOCTL_PPU_UPDATE 0 p
      in if r < 0 then c_assert (err = EBUSY) ''errno == EBUSY'' (Done (-1, p))
         else Done (0, p))"

definition ppu_write_vram :: "'w ppu_sys \<Rightarrow> ubuf \<Rightarrow> u32 \<Rightarrow> u32 \<Rightarrow> 'w proc
    \<Rightarrow> (int \<times> 'w proc) outcome" where
  "ppu_write_vram sys buf n offset p =
     nowaymsg (ppu_fd p = -1) ''PPU not enabled or owned by this process!''
     (let ((r, err), p) = do_pwrite sys buf n offset p
      in if r \<noteq> sint n then
           c_assert (err = EINVAL \<or> err = EBUSY) ''errno == EINVAL || errno == EBUSY''
          (nowaymsg (err = EINVAL) ''PPU vram write goes out of VRAM bounds!''
          (Done (-1, p)))
         else Done (0, p))"

section \<open>Tiles\<close>

text \<open>
  The write buffer: \<open>k\<close> tiles taken from \<open>tiles\<close> from index \<open>j\<close> on, going back to the first
  after the one of index \<open>len - 1\<close>.  \<open>None\<close> is a read past the end of the array.
\<close>

fun fill_tiles :: "tile_t list \<Rightarrow> u32 \<Rightarrow> nat \<Rightarrow> u32 \<Rightarrow> tile_t list option" where
  "fill_tiles tiles len 0 j = Some []"
| "fill_tiles tiles len (Suc k) j =
     (if unat j < length tiles then
        map_option (Cons (tiles ! unat j))
          (fill_tiles tiles len k (if j = len - 1 then 0 else j + 1))
      else None)"

text \<open>A \<open>pwrite\<close> of tiles \<open>i\<close> to \<open>i + n - 1\<close> of the buffer.\<close>

definition tile_bytes :: "tile_t list \<Rightarrow> u8 list" where
  "tile_bytes ts = concat (map le16 ts)"

text \<open>
  The two writes of \<open>ppu_write_tiles_horizontal\<close>: up to the end of the row, then from its
  start.
\<close>

definition write_row :: "'w ppu_sys \<Rightarrow> tile_t list \<Rightarrow> u32 \<Rightarrow> layer_e \<Rightarrow> u32 \<Rightarrow> u32 \<Rightarrow> 'w proc
    \<Rightarrow> (int \<times> 'w proc) outcome" where
  "write_row sys write_tiles count layer x_i y_i p =
     (let tile_layer_offset = (if layer = LAYER_FG then TILERAM_FGOFFSET else 0);
          start_addr = tile_layer_offset + (y_i * TILELAYER_HEIGHT + x_i) * TILEDATA_BSIZE;
          tiles_towrite = unsigned_min (TILELAYER_WIDTH - x_i) count;
          bytes_towrite = tiles_towrite * TILEDATA_BSIZE;
          ((r, err), p) = do_pwrite sys (user_mem (tile_bytes write_tiles)) bytes_towrite start_addr p
      in if r \<noteq> sint bytes_towrite
         then c_assert (err = EBUSY) ''errno == EBUSY'' (Done (-1, p))
         else
     (let tiles_written = tiles_towrite;
          tiles_towrite = count - tiles_written
      in if tiles_towrite = 0 then Done (0, do_free sys p)
         else
     (let bytes_towrite = tiles_towrite * TILEDATA_BSIZE;
          start_addr = tile_layer_offset + (y_i * TILELAYER_HEIGHT) * TILEDATA_BSIZE;
          ((r, err), p) = do_pwrite sys (user_mem (tile_bytes (drop (unat tiles_written) write_tiles)))
                            bytes_towrite start_addr p
      in if r \<noteq> sint bytes_towrite
         then c_assert (err = EBUSY) ''errno == EBUSY'' (Done (-1, p))
         else c_assert (count - (tiles_written + tiles_towrite) = 0)
                ''count - (tiles_written + tiles_towrite) == 0'' (Done (0, do_free sys p)))))"

definition ppu_write_tiles_horizontal :: "'w ppu_sys \<Rightarrow> tile_t list option \<Rightarrow> u32 \<Rightarrow> layer_e
    \<Rightarrow> u32 \<Rightarrow> u32 \<Rightarrow> u32 \<Rightarrow> 'w proc \<Rightarrow> (int \<times> 'w proc) outcome" where
  "ppu_write_tiles_horizontal sys tiles len layer x_i y_i count p =
     nowaymsg (ppu_fd p = -1) ''PPU not enabled or owned by this process!''
    (nowaymsg (x_i \<ge> TILELAYER_WIDTH) ''Initial write position out of bounds!''
    (nowaymsg (y_i \<ge> TILELAYER_HEIGHT) ''Initial write position out of bounds!''
    (nowaymsg (layer \<noteq> LAYER_BG \<and> layer \<noteq> LAYER_FG) ''Incorrect layer to write tiles to!''
    (nowaymsg (tiles = None) ''Tile array is NULL!''
    (if count = 0 \<or> len = 0 then Done (0, p)
     else
       (let count = (if count > TILELAYER_WIDTH then TILELAYER_WIDTH else count);
            len = (if len > TILELAYER_WIDTH then TILELAYER_WIDTH else len);
            (blk, p) = do_malloc sys (unat (TILEDATA_BSIZE * count)) p
        in nowaymsg (blk = None) ''Malloc failed!''
       (case fill_tiles (the tiles) len (unat count) 0 of
          None \<Rightarrow> Undef
        | Some write_tiles \<Rightarrow> write_row sys write_tiles count layer x_i y_i p)))))))"

text \<open>
  The inner loop of the vertical write is bounded by \<open>towrite\<close> and the outer one by the tiles
  still to be written; \<open>VBusy\<close> is the early return with its \<open>errno\<close>.
\<close>

datatype 'w column =
    VDone u32 "'w proc"
  | VBusy int "'w proc"

fun write_column :: "'w ppu_sys \<Rightarrow> tile_t list \<Rightarrow> u32 \<Rightarrow> nat \<Rightarrow> u32 \<Rightarrow> u32 \<Rightarrow> 'w proc \<Rightarrow> 'w column" where
  "write_column sys write_tiles count 0 written start_addr p = VDone written p"
| "write_column sys write_tiles count (Suc towrite) written start_addr p =
     (if written < count then
        (let ((r, err), p) = do_pwrite sys (user_mem (tile_bytes (drop (unat written) write_tiles)))
                               TILEDATA_BSIZE start_addr p
         in if r \<noteq> sint TILEDATA_BSIZE then VBusy err p
            else write_column sys write_tiles count towrite (written + 1)
                   (start_addr + TILELAYER_WIDTH * TILEDATA_BSIZE) p)
      else VDone written p)"

text \<open>
  The outer loop; \<open>fuel\<close> bounds its turns.  Its comment says it runs twice at most, and
  \<open>Hangs\<close> is a third turn about to start.
\<close>

fun write_columns :: "nat \<Rightarrow> 'w ppu_sys \<Rightarrow> tile_t list \<Rightarrow> u32 \<Rightarrow> u32 \<Rightarrow> u32 \<Rightarrow> u32 \<Rightarrow> u32 \<Rightarrow> 'w proc
    \<Rightarrow> (int \<times> 'w proc) outcome" where
  "write_columns fuel sys write_tiles count wrap_addr towrite written start_addr p =
     (if \<not> written < count then Done (0, do_free sys p)
      else case fuel of
        0 \<Rightarrow> Hangs
      | Suc fuel \<Rightarrow>
         (case write_column sys write_tiles count (unat towrite) written start_addr p of
            VBusy err p \<Rightarrow> c_assert (err = EBUSY) ''errno == EBUSY'' (Done (-1, p))
          | VDone written p \<Rightarrow>
              write_columns fuel sys write_tiles count wrap_addr (count - written) written wrap_addr p))"

definition ppu_write_tiles_vertical :: "'w ppu_sys \<Rightarrow> tile_t list option \<Rightarrow> u32 \<Rightarrow> layer_e
    \<Rightarrow> u32 \<Rightarrow> u32 \<Rightarrow> u32 \<Rightarrow> 'w proc \<Rightarrow> (int \<times> 'w proc) outcome" where
  "ppu_write_tiles_vertical sys tiles len layer x_i y_i count p =
     nowaymsg (ppu_fd p = -1) ''PPU not enabled or owned by this process!''
    (nowaymsg (x_i \<ge> TILELAYER_WIDTH) ''Initial write position out of bounds!''
    (nowaymsg (y_i \<ge> TILELAYER_HEIGHT) ''Initial write position out of bounds!''
    (nowaymsg (tiles = None) ''Tile array is NULL!''
    (if count = 0 \<or> len = 0 then Done (0, p)
     else
       (let count = (if count > TILELAYER_HEIGHT then TILELAYER_HEIGHT else count);
            len = (if len > TILELAYER_HEIGHT then TILELAYER_HEIGHT else len);
            (blk, p) = do_malloc sys (unat (TILEDATA_BSIZE * count)) p
        in nowaymsg (blk = None) ''Malloc failed!''
       (case fill_tiles (the tiles) len (unat count) 0 of
          None \<Rightarrow> Undef
        | Some write_tiles \<Rightarrow>
       (let tile_layer_offset = (if layer = LAYER_FG then TILERAM_FGOFFSET else 0);
            start_addr = tile_layer_offset + (push_bit 6 y_i + x_i) * TILEDATA_BSIZE;
            towrite = unsigned_min (TILELAYER_HEIGHT - y_i) count
        in write_columns 2 sys write_tiles count (tile_layer_offset + x_i * TILEDATA_BSIZE)
             towrite 0 start_addr p)))))))"

section \<open>Patterns and palettes\<close>

definition pattern_bytes :: "pattern_t \<Rightarrow> u8 list" where
  "pattern_bytes pt = concat (map le32 (pxrow pt))"

text \<open>
  The two loops of \<open>ppu_write_pattern\<close> visit the pairs of row and column in this order.
\<close>

definition pattern_cells :: "u32 \<Rightarrow> u32 \<Rightarrow> (u32 \<times> u32) list" where
  "pattern_cells width height =
     concat (map (\<lambda>row. map (\<lambda>col. (of_nat row, of_nat col)) [0..<unat width]) [0..<unat height])"

fun write_cells :: "'w ppu_sys \<Rightarrow> pattern_t list \<Rightarrow> u32 \<Rightarrow> u32 \<Rightarrow> u32 \<Rightarrow> (u32 \<times> u32) list \<Rightarrow> 'w proc
    \<Rightarrow> (int \<times> 'w proc) outcome" where
  "write_cells sys pattern width x_i y_i [] p = Done (0, p)"
| "write_cells sys pattern width x_i y_i ((row, col) # cells) p =
     (let y_f = (y_i + row) AND 0x1F;
          x_f = (x_i + col) AND 0x1F
      in and_then (ppu_pattern_addr x_f y_f) (\<lambda>addr.
         let wr_addr = VRAM_PATTERNOFFSET + TILEPATTERN_BSIZE * addr;
             srcaddr = col + width * row
         in if unat srcaddr < length pattern then
              (let ((r, err), p) = do_pwrite sys (user_mem (pattern_bytes (pattern ! unat srcaddr)))
                                     TILEPATTERN_BSIZE wr_addr p
               in if r \<noteq> sint TILEPATTERN_BSIZE
                  then c_assert (err = EBUSY) ''errno == EBUSY'' (Done (-1, p))
                  else write_cells sys pattern width x_i y_i cells p)
            else Undef))"

definition ppu_write_pattern :: "'w ppu_sys \<Rightarrow> pattern_t list option \<Rightarrow> u32 \<Rightarrow> u32 \<Rightarrow> pattern_addr_t
    \<Rightarrow> 'w proc \<Rightarrow> (int \<times> 'w proc) outcome" where
  "ppu_write_pattern sys pattern width height pattern_addr p =
     nowaymsg (ppu_fd p = -1) ''PPU not enabled or owned by this process!''
    (nowaymsg (pattern = None) ''Pattern array is NULL!''
    (nowaymsg (pattern_addr > PATTERN_MAXADDR) ''Pattern address malformed!''
    (nowaymsg (width = 0) ''Pattern width cannot be 0!''
    (nowaymsg (height = 0) ''Pattern height cannot be 0!''
    (let x_i = pattern_addr AND 0x1F;
         y_i = drop_bit 5 pattern_addr AND 0x1F
     in write_cells sys (the pattern) width x_i y_i (pattern_cells width height) p)))))"

definition palette_bytes :: "palette_t \<Rightarrow> u8 list" where
  "palette_bytes pal = concat (map le32 (colors pal))"

definition ppu_write_palette :: "'w ppu_sys \<Rightarrow> palette_t option \<Rightarrow> layer_e \<Rightarrow> u32 \<Rightarrow> 'w proc
    \<Rightarrow> (int \<times> 'w proc) outcome" where
  "ppu_write_palette sys palette layer_id palette_id p =
     nowaymsg (ppu_fd p = -1) ''PPU not enabled or owned by this process!''
    (nowaymsg (palette = None) ''Palette is NULL!''
    (let rest = (\<lambda>layer_offset.
           let wr_addr = VRAM_PALETTEOFFSET + layer_offset + palette_id * PALETTE16_BSIZE + 4;
               ((r, err), p) = do_pwrite sys (user_mem (palette_bytes (the palette)))
                                 PALETTE15_BSIZE wr_addr p
           in if r \<noteq> sint PALETTE15_BSIZE
              then c_assert (err = EBUSY) ''errno == EBUSY'' (Done (-1, p))
              else Done (0, p))
     in if layer_id = LAYER_SPR then
          nowaymsg (palette_id \<ge> PALETTERAM_SPRITEMAX) ''Attempting to access palette out of bounds!''
            (rest PALETTERAM_SPROFFSET)
        else
          nowaymsg (palette_id \<ge> PALETTERAM_TILEMAX) ''Attempting to access palette out of bounds!''
            (rest (if layer_id = LAYER_FG then PALETTERAM_FGOFFSET else PALETTERAM_BGOFFSET))))"

section \<open>Sprites\<close>

text \<open>
  The loop over the sprites \<open>i\<close> on fills two blocks: \<open>sprite_buf\<close>, and \<open>sprite_extra_buf\<close>,
  which is also a \<open>uint32_t *\<close>, so each of its elements takes four bytes.  A store that
  leaves its block and a read past the array are \<open>Undef\<close>.
\<close>

fun pack_sprites :: "sprite_t list \<Rightarrow> nat \<Rightarrow> nat \<Rightarrow> u8 list \<Rightarrow> u8 list \<Rightarrow> (u8 list \<times> u8 list) outcome" where
  "pack_sprites sprites i 0 buf extra = Done (buf, extra)"
| "pack_sprites sprites i (Suc n) buf extra =
     (if i < length sprites then
        sprite_check (sprites ! i)
          (case mem_write (4 * i) (le32 (sprite_word (sprites ! i))) buf of
             None \<Rightarrow> Undef
           | Some buf \<Rightarrow>
              (case mem_write (4 * i) (le32 (ucast (sprite_extra (sprites ! i)))) extra of
                 None \<Rightarrow> Undef
               | Some extra \<Rightarrow> pack_sprites sprites (Suc i) n buf extra))
      else Undef)"

definition ppu_write_sprites :: "'w ppu_sys \<Rightarrow> sprite_t list option \<Rightarrow> u32 \<Rightarrow> u32 \<Rightarrow> 'w proc
    \<Rightarrow> (int \<times> 'w proc) outcome" where
  "ppu_write_sprites sys sprites len sprite_id_i p =
     nowaymsg (sprites = None) ''Sprite Array is NULL!''
    (nowaymsg (sprite_id_i + len > SPRITE_MAXCOUNT) ''Sprite write would exceed Sprite RAM bounds!''
    (let (sprite_buf, p) = do_malloc sys (unat (len * SPRITE_BSIZE)) p
     in nowaymsg (sprite_buf = None) ''Sprite data malloc failed!''
    (let (sprite_extra_buf, p) = do_malloc sys (unat len) p
     in nowaymsg (sprite_extra_buf = None) ''Sprite extra data malloc failed!''
    (let wraddr = VRAM_SPRITESOFFSET + sprite_id_i * SPRITE_BSIZE;
         wraddr_extra = VRAM_SPRITESOFFSET + SPRRAM_EXTRAOFFSET + sprite_id_i
     in and_then (pack_sprites (the sprites) 0 (unat len) (the sprite_buf) (the sprite_extra_buf))
        (\<lambda>(sprite_buf, sprite_extra_buf).
         let ((r, err), p) = do_pwrite sys (user_mem sprite_buf) (len * SPRITE_BSIZE) wraddr p
         in if r \<noteq> sint (len * SPRITE_BSIZE)
            then c_assert (err = EBUSY) ''errno == EBUSY'' (Done (-1, p))
            else
         (let ((r, err), p) = do_pwrite sys (user_mem sprite_extra_buf) len wraddr_extra p
          in if r \<noteq> sint len
             then c_assert (err = EBUSY) ''errno == EBUSY'' (Done (-1, p))
             else Done (0, do_free sys (do_free sys p))))))))"

section \<open>Registers\<close>

definition ppu_set_bgcolor :: "'w ppu_sys \<Rightarrow> u32 \<Rightarrow> 'w proc \<Rightarrow> (int \<times> 'w proc) outcome" where
  "ppu_set_bgcolor sys col p =
     nowaymsg (ppu_fd p = -1) ''PPU not enabled or owned by this process!''
     (let ((r, err), p) = do_ioctl sys IOCTL_PPU_SET_BGCOLOR (col AND COLOR_24MASK) p
      in if r < 0 then c_assert (err = EBUSY) ''errno == EBUSY'' (Done (-1, p))
         else Done (0, p))"

definition ppu_set_scroll :: "'w ppu_sys \<Rightarrow> layer_e \<Rightarrow> u32 \<Rightarrow> u32 \<Rightarrow> 'w proc
    \<Rightarrow> (int \<times> 'w proc) outcome" where
  "ppu_set_scroll sys tile_layer scroll_x scroll_y p =
     nowaymsg (ppu_fd p = -1) ''PPU not enabled or owned by this process!''
    (nowaymsg (tile_layer = LAYER_SPR) ''FP-GAme PPU does not support Sprite Layer scrolling!''
    (let scroll = push_bit 16 scroll_y OR scroll_x;
         ioctl_num = (if tile_layer = LAYER_FG then IOCTL_PPU_SET_FGSCROLL else IOCTL_PPU_SET_BGSCROLL);
         ((r, err), p) = do_ioctl sys ioctl_num scroll p
     in if r < 0 then c_assert (err = EBUSY) ''errno == EBUSY'' (Done (-1, p))
        else Done (0, p)))"

definition ppu_set_layer_enable :: "'w ppu_sys \<Rightarrow> u32 \<Rightarrow> 'w proc \<Rightarrow> (int \<times> 'w proc) outcome" where
  "ppu_set_layer_enable sys enable_mask p =
     nowaymsg (ppu_fd p = -1) ''PPU not enabled or owned by this process!''
     (let ((r, err), p) = do_ioctl sys IOCTL_PPU_SET_ENABLE (enable_mask AND LAYER_ENMASK) p
      in if r < 0 then c_assert (err = EBUSY) ''errno == EBUSY'' (Done (-1, p))
         else Done (0, p))"

end
