(* ===== verification/PpuView.thy ===== *)
theory PpuView
  imports PpuLib
begin

text \<open>
  VRAM as the graphics library and the device share it: an abstract view of the device, the
  tile layers, pattern cells, palettes and sprites laid out in VRAM, what each kind of write
  does to them, and the pure parts of the library's functions.
\<close>

section \<open>The abstract view of the device\<close>

record ppu_view =
  v_vram :: "u8 list"
  v_bgscroll :: u32
  v_fgscroll :: u32
  v_bgcolor :: u32
  v_enable :: u32
  v_live :: int

text \<open>\<open>v_live\<close> is the number of heap blocks the process has not given back.\<close>

fun set_reg :: "ppu_cmd \<Rightarrow> u32 \<Rightarrow> ppu_view \<Rightarrow> ppu_view" where
  "set_reg IOCTL_PPU_SET_BGSCROLL a v = v\<lparr>v_bgscroll := a\<rparr>"
| "set_reg IOCTL_PPU_SET_FGSCROLL a v = v\<lparr>v_fgscroll := a\<rparr>"
| "set_reg IOCTL_PPU_SET_BGCOLOR a v = v\<lparr>v_bgcolor := a\<rparr>"
| "set_reg IOCTL_PPU_SET_ENABLE a v = v\<lparr>v_enable := a\<rparr>"
| "set_reg IOCTL_PPU_UPDATE a v = v"
| "set_reg (PPU_OTHER n) a v = v"

definition put_vram :: "nat \<Rightarrow> u8 list \<Rightarrow> ppu_view \<Rightarrow> ppu_view" where
  "put_vram off bs v = v\<lparr>v_vram := blit off bs (v_vram v)\<rparr>"

lemma tile_addr:
  fixes x y off :: u32
  assumes "x < 64" and "y < 64" and "off \<le> 0x2000"
  shows "unat (off + (y * 64 + x) * 2) = unat off + 2 * (64 * unat y + unat x)"
proof -
  have b: "unat x < 64" "unat y < 64" "unat off \<le> 0x2000"
    using assms by (simp_all add: word_less_nat_alt word_le_nat_alt)
  have "off + (y * 64 + x) * 2 = of_nat (unat off + 2 * (64 * unat y + unat x))" by simp
  also have "unat \<dots> = unat off + 2 * (64 * unat y + unat x)"
    using b by (intro unat_of_nat_u32) simp
  finally show ?thesis .
qed

lemma unat_tile_bytes: "n \<le> 64 \<Longrightarrow> unat (n * 2 :: u32) = 2 * unat n"
proof -
  assume "n \<le> 64"
  then have "2 * unat n < 2 ^ 32" by (simp add: word_le_nat_alt)
  from unat_of_nat_u32 [OF this] show ?thesis by (simp add: mult.commute)
qed

lemma fill_tiles_mod:
  assumes "len \<noteq> 0" and "j < len"
    and "\<forall>i < k. (unat j + i) mod unat len < length tiles"
  shows "fill_tiles tiles len k j = Some (map (\<lambda>i. tiles ! ((unat j + i) mod unat len)) [0..<k])"
  using assms(2,3)
proof (induction k arbitrary: j)
  case 0
  then show ?case by simp
next
  case (Suc k)
  let ?j = "if j = len - 1 then 0 else j + 1"
  have l: "unat len \<noteq> 0" using assms(1) by (simp add: unat_eq_0)
  have jl: "unat j < unat len" using Suc.prems(1) by (simp add: word_less_nat_alt)
  have last: "j = len - 1 \<longleftrightarrow> unat j = unat len - 1"
    using unat_pred [OF assms(1)] by (auto simp: word_unat_eq_iff)
  have next_j: "unat ?j = (unat j + 1) mod unat len"
  proof (cases "j = len - 1")
    case True
    with last l have "unat j + 1 = unat len" by simp
    then show ?thesis using True by simp
  next
    case False
    with last jl have "unat j + 1 < unat len" by linarith
    moreover from this have "unat (j + 1) = unat j + 1"
      using unat_u32_less [of len] by (intro unat_Suc_below) simp
    ultimately show ?thesis using False by simp
  qed
  have "?j < len" using next_j l by (simp add: word_less_nat_alt)
  moreover have shift: "(unat ?j + i) mod unat len = (unat j + Suc i) mod unat len" for i
    by (simp add: next_j mod_simps)
  moreover have "\<forall>i < k. (unat ?j + i) mod unat len < length tiles"
    using Suc.prems(2) shift by auto
  ultimately have "fill_tiles tiles len k ?j = Some (map (\<lambda>i. tiles ! ((unat j + Suc i) mod unat len)) [0..<k])"
    using Suc.IH [of ?j] by simp
  moreover have "unat j < length tiles" using Suc.prems(2) jl by (auto dest: spec [of _ 0])
  ultimately show ?case
    using jl by (simp add: upt_conv_Cons map_Suc_upt [symmetric] del: upt_Suc)
qed

definition scroll_view :: "layer_e \<Rightarrow> u32 \<Rightarrow> ppu_view \<Rightarrow> ppu_view" where
  "scroll_view layer a v = (if layer = LAYER_FG then v\<lparr>v_fgscroll := a\<rparr> else v\<lparr>v_bgscroll := a\<rparr>)"

section \<open>The tile layers of a VRAM image\<close>

definition layer_base :: "layer_e \<Rightarrow> nat" where
  "layer_base layer = (if layer = LAYER_FG then 0x2000 else 0)"

text \<open>The tile in column \<open>x\<close> of row \<open>y\<close> of a layer of 64 by 64 tiles.\<close>

definition tile_at :: "layer_e \<Rightarrow> nat \<Rightarrow> nat \<Rightarrow> u8 list \<Rightarrow> tile_t" where
  "tile_at layer x y m = un16 (segment (layer_base layer + 2 * (64 * y + x)) 2 m)"

definition put_tiles :: "layer_e \<Rightarrow> nat \<Rightarrow> tile_t list \<Rightarrow> u8 list \<Rightarrow> u8 list" where
  "put_tiles layer k ts m = blit (layer_base layer + 2 * k) (tile_bytes ts) m"

lemma layer_base_le: "layer_base layer \<le> 0x2000"
  by (simp add: layer_base_def)

lemma length_tile_bytes [simp]: "length (tile_bytes ts) = 2 * length ts"
  by (simp add: tile_bytes_def word16.length_concat_enc)

lemma tile_bytes_Nil [simp]: "tile_bytes [] = []"
  by (simp add: tile_bytes_def)

lemma tile_bytes_take: "take (2 * n) (tile_bytes ts) = tile_bytes (take n ts)"
proof (induction ts arbitrary: n)
  case (Cons t ts)
  then show ?case by (cases n) (simp_all add: tile_bytes_def)
qed simp

lemma put_tiles_Nil [simp]: "put_tiles layer k [] m = m"
  by (simp add: put_tiles_def)

lemma length_put_tiles [simp]:
  "k + length ts \<le> 4096 \<Longrightarrow> length m = VRAM_SIZE \<Longrightarrow> length (put_tiles layer k ts m) = length m"
  using layer_base_le [of layer] by (simp add: put_tiles_def)

lemma tile_at_put:
  assumes "k + length ts \<le> 4096" and "length m = VRAM_SIZE" and "x < 64" and "y < 64"
  shows "tile_at layer x y (put_tiles layer k ts m) =
    (if k \<le> 64 * y + x \<and> 64 * y + x < k + length ts then ts ! (64 * y + x - k) else tile_at layer x y m)"
proof -
  let ?i = "64 * y + x"
  have i: "?i < 4096" using assms(3,4) by simp
  have "tile_at layer x y (put_tiles layer k ts m)
      = view 2 un16 (layer_base layer) 4096 (put_tiles layer k ts m) ! ?i"
    using i by (simp add: tile_at_def nth_view)
  also have "\<dots> = blit k ts (view 2 un16 (layer_base layer) 4096 m) ! ?i"
    unfolding put_tiles_def tile_bytes_def
    by (subst word16.view_blit) (use assms(1,2) layer_base_le [of layer] in auto)
  finally show ?thesis
    using i assms(1) by (simp add: nth_blit nth_view tile_at_def)
qed

lemma put_tiles_frame:
  assumes "k + length ts \<le> 4096" and "length m = VRAM_SIZE" and "i < VRAM_SIZE"
    and "i < layer_base layer \<or> layer_base layer + 0x2000 \<le> i"
  shows "put_tiles layer k ts m ! i = m ! i"
  using assms layer_base_le [of layer] by (auto simp: put_tiles_def nth_blit)

section \<open>Writing a row\<close>

definition row_write :: "layer_e \<Rightarrow> nat \<Rightarrow> nat \<Rightarrow> tile_t list \<Rightarrow> u8 list \<Rightarrow> u8 list" where
  "row_write layer x y ts m =
     (let n = min (64 - x) (length ts)
      in put_tiles layer (64 * y) (drop n ts) (put_tiles layer (64 * y + x) (take n ts) m))"

lemma tile_at_row_write:
  assumes "x < 64" and "y < 64" and "length ts \<le> 64" and "length m = VRAM_SIZE"
    and "x' < 64" and "y' < 64"
  shows "tile_at layer x' y' (row_write layer x y ts m) =
    (let i = (x' + 64 - x) mod 64
     in if y' = y \<and> i < length ts then ts ! i else tile_at layer x' y' m)"
proof -
  have i: "(x' + 64 - x) mod 64 = (if x \<le> x' then x' - x else x' + 64 - x)"
    using assms by (simp add: mod_if)
  have other_row: "64 * y' + x' < 64 * y \<or> 64 * y + 64 \<le> 64 * y' + x'" if "y' \<noteq> y"
    using that assms by auto
  show ?thesis
  proof (cases "length ts \<le> 64 - x")
    case True
    then have "row_write layer x y ts m = put_tiles layer (64 * y + x) ts m"
      by (simp add: row_write_def Let_def)
    with True assms other_row show ?thesis
      by (cases "y' = y") (auto simp: tile_at_put i Let_def)
  next
    case False
    then have w: "row_write layer x y ts m = put_tiles layer (64 * y) (drop (64 - x) ts)
        (put_tiles layer (64 * y + x) (take (64 - x) ts) m)"
      by (simp add: row_write_def Let_def)
    show ?thesis
      using False assms other_row unfolding w
      by (cases "y' = y") (auto simp: tile_at_put i Let_def add.commute [of 64])
  qed
qed

lemma row_write_frame:
  assumes "x < 64" and "y < 64" and "length ts \<le> 64" and "length m = VRAM_SIZE"
    and "i < VRAM_SIZE" and "i < layer_base layer \<or> layer_base layer + 0x2000 \<le> i"
  shows "row_write layer x y ts m ! i = m ! i"
  unfolding row_write_def Let_def
  by (subst put_tiles_frame; (subst put_tiles_frame)?) (use assms in auto)

definition clamp64 :: "u32 \<Rightarrow> nat" where
  "clamp64 n = min 64 (unat n)"

text \<open>The tiles a call asks to write: \<open>count\<close> of them, going round the first \<open>len\<close> of \<open>tiles\<close>.\<close>

definition repeated :: "tile_t list \<Rightarrow> u32 \<Rightarrow> u32 \<Rightarrow> tile_t list" where
  "repeated tiles len count = map (\<lambda>i. tiles ! (i mod clamp64 len)) [0..<clamp64 count]"

lemma length_repeated [simp]: "length (repeated tiles len count) = clamp64 count"
  by (simp add: repeated_def)

lemma clamp64_le [simp]: "clamp64 n \<le> 64"
  by (simp add: clamp64_def)

lemma clamp_word: "unat (if n > 64 then 64 else n) = clamp64 n"
  by (auto simp: clamp64_def word_less_nat_alt)

lemma clamp_word_le: "(if n > 64 then 64 else n :: u32) \<le> 64"
  by (auto simp: not_less)

lemma fill_tiles_repeated:
  assumes "len \<noteq> 0" and "min (clamp64 len) (clamp64 count) \<le> length tiles"
  shows "fill_tiles tiles (if len > 64 then 64 else len) (unat (if count > 64 then 64 else count)) 0
    = Some (repeated tiles len count)"
proof -
  let ?l = "if len > 64 then 64 else len"
  have l: "?l \<noteq> 0" using assms(1) by simp
  then have pos: "0 < unat ?l" using unat_gt_0 [of ?l] by blast
  have bound: "i mod clamp64 len < length tiles" if "i < clamp64 count" for i
  proof -
    have "i mod clamp64 len < clamp64 len" using pos unfolding clamp_word by (rule mod_less_divisor)
    moreover have "i mod clamp64 len \<le> i" by (rule mod_less_eq_dividend)
    ultimately show ?thesis using assms(2) that by linarith
  qed
  have "fill_tiles tiles ?l (clamp64 count) 0
      = Some (map (\<lambda>i. tiles ! ((unat (0 :: u32) + i) mod unat ?l)) [0..<clamp64 count])"
  proof (rule fill_tiles_mod)
    show "?l \<noteq> 0" by (rule l)
    show "0 < ?l" using l unfolding word_neq_0_conv .
    show "\<forall>i<clamp64 count. (unat (0 :: u32) + i) mod unat ?l < length tiles"
      unfolding clamp_word using bound by simp
  qed
  then show ?thesis unfolding clamp_word repeated_def by simp
qed

lemma unat_min_row:
  assumes "x < (64 :: u32)"
  shows "unat (unsigned_min (64 - x) c) = min (64 - unat x) (unat c)"
proof -
  have "unat (64 - x) = 64 - unat x"
    using assms by (simp add: unat_sub word_le_nat_alt word_less_nat_alt)
  then show ?thesis by (auto simp: unsigned_min_def word_less_nat_alt)
qed

lemma sint_small: "unat (w :: u32) \<le> 256 \<Longrightarrow> sint w = int (unat w)"
  by (rule sint_len) simp

lemma user_readable_prefix: "user_readable (user_mem bs) (take k bs)"
  by (auto simp: user_readable_def user_mem_def min_def)

lemma readable_tiles: "user_readable (user_mem (tile_bytes ts)) (tile_bytes (take k ts))"
  using user_readable_prefix [of "tile_bytes ts" "2 * k"] by (simp add: tile_bytes_take)

definition put_row :: "layer_e \<Rightarrow> u32 \<Rightarrow> u32 \<Rightarrow> tile_t list \<Rightarrow> ppu_view \<Rightarrow> ppu_view" where
  "put_row layer x y ts v = v\<lparr>v_vram := row_write layer (unat x) (unat y) ts (v_vram v)\<rparr>"

definition put_at :: "layer_e \<Rightarrow> nat \<Rightarrow> tile_t list \<Rightarrow> ppu_view \<Rightarrow> ppu_view" where
  "put_at layer j ts v = v\<lparr>v_vram := put_tiles layer j ts (v_vram v)\<rparr>"

lemma put_live [simp]:
  "v_live (put_row layer x y ts v) = v_live v" "v_live (put_at layer j ts v) = v_live v"
  "(put_row layer x y ts v)\<lparr>v_live := k\<rparr> = put_row layer x y ts (v\<lparr>v_live := k\<rparr>)"
  "(put_at layer j ts v)\<lparr>v_live := k\<rparr> = put_at layer j ts (v\<lparr>v_live := k\<rparr>)"
  by (cases v; simp add: put_row_def put_at_def)+

lemma put_row_at: "put_row layer x y ts v =
    (let n = min (64 - unat x) (length ts)
     in put_at layer (64 * unat y) (drop n ts) (put_at layer (64 * unat y + unat x) (take n ts) v))"
  by (simp add: put_row_def put_at_def row_write_def Let_def)

lemma put_at_Nil [simp]: "put_at layer j [] v = v"
  by (simp add: put_at_def)

section \<open>Writing a column\<close>

fun put_down :: "layer_e \<Rightarrow> nat \<Rightarrow> tile_t list \<Rightarrow> u8 list \<Rightarrow> u8 list" where
  "put_down layer j [] m = m"
| "put_down layer j (t # ts) m = put_down layer (j + 64) ts (put_tiles layer j [t] m)"

definition col_write :: "layer_e \<Rightarrow> nat \<Rightarrow> nat \<Rightarrow> tile_t list \<Rightarrow> u8 list \<Rightarrow> u8 list" where
  "col_write layer x y ts m =
     (let n = min (64 - y) (length ts)
      in put_down layer x (drop n ts) (put_down layer (64 * y + x) (take n ts) m))"

lemma put_down_row:
  "put_down layer (64 * y + x) (t # ts) m
    = put_down layer (64 * (y + 1) + x) ts (put_tiles layer (64 * y + x) [t] m)"
  by (simp add: algebra_simps)

lemma length_put_down [simp]:
  "x < 64 \<Longrightarrow> y + length ts \<le> 64 \<Longrightarrow> length m = VRAM_SIZE \<Longrightarrow>
   length (put_down layer (64 * y + x) ts m) = VRAM_SIZE"
proof (induction ts arbitrary: y m)
  case (Cons t ts)
  then show ?case unfolding put_down_row by (intro Cons.IH) simp_all
qed simp

lemma tile_at_put_down:
  "x < 64 \<Longrightarrow> y + length ts \<le> 64 \<Longrightarrow> length m = VRAM_SIZE \<Longrightarrow> x' < 64 \<Longrightarrow> y' < 64 \<Longrightarrow>
   tile_at layer x' y' (put_down layer (64 * y + x) ts m) =
     (if x' = x \<and> y \<le> y' \<and> y' < y + length ts then ts ! (y' - y) else tile_at layer x' y' m)"
proof (induction ts arbitrary: y m)
  case (Cons t ts)
  have "(64 * y' + x') div 64 = y'" "(64 * y + x) div 64 = y" using Cons.prems by simp_all
  then have same: "64 * y' + x' = 64 * y + x \<longleftrightarrow> y' = y \<and> x' = x"
    by (metis add_left_cancel)
  have "tile_at layer x' y' (put_down layer (64 * y + x) (t # ts) m)
      = tile_at layer x' y' (put_down layer (64 * (y + 1) + x) ts (put_tiles layer (64 * y + x) [t] m))"
    by (simp only: put_down_row)
  also have "\<dots> = (if x' = x \<and> y + 1 \<le> y' \<and> y' < y + 1 + length ts then ts ! (y' - (y + 1))
      else tile_at layer x' y' (put_tiles layer (64 * y + x) [t] m))"
    using Cons.prems by (intro Cons.IH) simp_all
  also have "tile_at layer x' y' (put_tiles layer (64 * y + x) [t] m) =
      (if y' = y \<and> x' = x then t else tile_at layer x' y' m)"
    using Cons.prems same by (subst tile_at_put) (auto simp: less_Suc_eq_le)
  finally show ?case by (auto simp: nth_Cons' not_less_eq_eq)
qed auto

lemma put_down_frame:
  "x < 64 \<Longrightarrow> y + length ts \<le> 64 \<Longrightarrow> length m = VRAM_SIZE \<Longrightarrow> i < VRAM_SIZE \<Longrightarrow>
   i < layer_base layer \<or> layer_base layer + 0x2000 \<le> i \<Longrightarrow>
   put_down layer (64 * y + x) ts m ! i = m ! i"
proof (induction ts arbitrary: y m)
  case (Cons t ts)
  have "put_down layer (64 * y + x) (t # ts) m ! i
      = put_down layer (64 * (y + 1) + x) ts (put_tiles layer (64 * y + x) [t] m) ! i"
    by (simp only: put_down_row)
  also have "\<dots> = put_tiles layer (64 * y + x) [t] m ! i"
    using Cons.prems by (intro Cons.IH) simp_all
  also have "\<dots> = m ! i" using Cons.prems by (intro put_tiles_frame) simp_all
  finally show ?case .
qed simp

lemma tile_at_col_write:
  assumes "x < 64" and "y < 64" and "length ts \<le> 64" and "length m = VRAM_SIZE"
    and "x' < 64" and "y' < 64"
  shows "tile_at layer x' y' (col_write layer x y ts m) =
    (let i = (y' + 64 - y) mod 64
     in if x' = x \<and> i < length ts then ts ! i else tile_at layer x' y' m)"
proof -
  have i: "(y' + 64 - y) mod 64 = (if y \<le> y' then y' - y else y' + 64 - y)"
    using assms by (simp add: mod_if)
  let ?n = "min (64 - y) (length ts)" 
  let ?m = "put_down layer (64 * y + x) (take ?n ts) m"
  have l: "length ?m = VRAM_SIZE" using assms by simp
  have "tile_at layer x' y' (col_write layer x y ts m) =
      (if x' = x \<and> y' < length ts - ?n then ts ! (?n + y') else tile_at layer x' y' ?m)"
    unfolding col_write_def Let_def
    using tile_at_put_down [of x 0 "drop ?n ts" ?m x' y' layer] assms l by auto
  also have "tile_at layer x' y' ?m =
      (if x' = x \<and> y \<le> y' \<and> y' < y + ?n then ts ! (y' - y) else tile_at layer x' y' m)"
    using assms by (subst tile_at_put_down) (auto intro!: nth_take)
  finally show ?thesis using assms unfolding i Let_def
    by (cases "length ts \<le> 64 - y") (auto simp: min_def add.commute)
qed

lemma col_write_frame:
  assumes "x < 64" and "y < 64" and "length ts \<le> 64" and "length m = VRAM_SIZE"
    and "i < VRAM_SIZE" and "i < layer_base layer \<or> layer_base layer + 0x2000 \<le> i"
  shows "col_write layer x y ts m ! i = m ! i"
proof -
  let ?n = "min (64 - y) (length ts)"
  let ?m = "put_down layer (64 * y + x) (take ?n ts) m"
  have "length ?m = VRAM_SIZE" using assms by simp
  then have "put_down layer x (drop ?n ts) ?m ! i = ?m ! i"
    using put_down_frame [of x 0 "drop ?n ts" ?m i layer] assms by auto
  also have "\<dots> = m ! i" using assms by (intro put_down_frame) auto
  finally show ?thesis by (simp add: col_write_def Let_def)
qed

definition put_downv :: "layer_e \<Rightarrow> nat \<Rightarrow> tile_t list \<Rightarrow> ppu_view \<Rightarrow> ppu_view" where
  "put_downv layer j ts v = v\<lparr>v_vram := put_down layer j ts (v_vram v)\<rparr>"

definition put_col :: "layer_e \<Rightarrow> u32 \<Rightarrow> u32 \<Rightarrow> tile_t list \<Rightarrow> ppu_view \<Rightarrow> ppu_view" where
  "put_col layer x y ts v = v\<lparr>v_vram := col_write layer (unat x) (unat y) ts (v_vram v)\<rparr>"

lemma put_downv_simps [simp]:
  "put_downv layer j [] v = v"
  "put_downv layer j (t # ts) v = put_downv layer (j + 64) ts (put_at layer j [t] v)"
  by (simp_all add: put_downv_def put_at_def)

lemma put_down_live [simp]:
  "v_live (put_col layer x y ts v) = v_live v" "v_live (put_downv layer j ts v) = v_live v"
  "(put_col layer x y ts v)\<lparr>v_live := k\<rparr> = put_col layer x y ts (v\<lparr>v_live := k\<rparr>)"
  "(put_downv layer j ts v)\<lparr>v_live := k\<rparr> = put_downv layer j ts (v\<lparr>v_live := k\<rparr>)"
  by (cases v; simp add: put_col_def put_downv_def)+

lemma put_col_down: "put_col layer x y ts v =
    (let n = min (64 - unat y) (length ts)
     in put_downv layer (unat x) (drop n ts) (put_downv layer (64 * unat y + unat x) (take n ts) v))"
  by (simp add: put_col_def put_downv_def col_write_def Let_def)

section \<open>Patterns\<close>

text \<open>The pattern in column \<open>x\<close> of row \<open>y\<close> of Pattern RAM, 32 by 32 patterns of 32 bytes.\<close>

definition pattern_at :: "nat \<Rightarrow> nat \<Rightarrow> u8 list \<Rightarrow> u8 list" where
  "pattern_at x y m = segment (0x4000 + 32 * (32 * y + x)) 32 m"

definition put_pattern :: "nat \<Rightarrow> nat \<Rightarrow> pattern_t \<Rightarrow> u8 list \<Rightarrow> u8 list" where
  "put_pattern x y pt m = blit (0x4000 + 32 * (32 * y + x)) (pattern_bytes pt) m"

lemma length_pattern_bytes: "pattern_ok pt \<Longrightarrow> length (pattern_bytes pt) = 32"
  by (simp add: pattern_bytes_def pattern_ok_def word32.length_concat_enc)

lemma length_put_pattern [simp]:
  "pattern_ok pt \<Longrightarrow> x < 32 \<Longrightarrow> y < 32 \<Longrightarrow> length m = VRAM_SIZE \<Longrightarrow>
   length (put_pattern x y pt m) = VRAM_SIZE"
  by (simp add: put_pattern_def length_pattern_bytes)

lemma pattern_at_put:
  assumes "pattern_ok pt" and "x < 32" and "y < 32" and "x' < 32" and "y' < 32"
    and "length m = VRAM_SIZE"
  shows "pattern_at x' y' (put_pattern x y pt m) =
    (if x' = x \<and> y' = y then pattern_bytes pt else pattern_at x' y' m)"
proof (cases "x' = x \<and> y' = y")
  case True
  then show ?thesis
    using assms by (simp add: pattern_at_def put_pattern_def length_pattern_bytes segment_blit_same)
next
  case False
  have "(32 * y' + x') div 32 = y'" "(32 * y + x) div 32 = y" using assms by simp_all
  with False have "32 * y' + x' \<noteq> 32 * y + x" by (metis add_left_cancel)
  then have "32 * y' + x' < 32 * y + x \<or> 32 * y + x < 32 * y' + x'" by linarith
  with False assms show ?thesis
    unfolding pattern_at_def put_pattern_def
    by (subst segment_blit_disjoint) (auto simp: length_pattern_bytes)
qed

lemma put_pattern_frame:
  assumes "pattern_ok pt" and "x < 32" and "y < 32" and "length m = VRAM_SIZE" and "i < VRAM_SIZE"
    and "i < 0x4000 \<or> 0xC000 \<le> i"
  shows "put_pattern x y pt m ! i = m ! i"
  using assms by (auto simp: put_pattern_def nth_blit length_pattern_bytes)

text \<open>
  The patterns of a list of cells relative to a starting cell, each at its place modulo the
  size of Pattern RAM, in the order of the list.
\<close>

fun put_cells :: "pattern_t list \<Rightarrow> nat \<Rightarrow> nat \<Rightarrow> nat \<Rightarrow> (nat \<times> nat) list \<Rightarrow> u8 list \<Rightarrow> u8 list" where
  "put_cells pts w x y [] m = m"
| "put_cells pts w x y ((row, col) # cs) m =
     put_cells pts w x y cs (put_pattern ((x + col) mod 32) ((y + row) mod 32) (pts ! (col + w * row)) m)"

lemma length_put_cells [simp]:
  "length m = VRAM_SIZE \<Longrightarrow> \<forall>(row, col) \<in> set cs. pattern_ok (pts ! (col + w * row)) \<Longrightarrow>
   length (put_cells pts w x y cs m) = VRAM_SIZE"
  by (induction pts w x y cs m rule: put_cells.induct) auto

lemma put_cells_frame:
  "length m = VRAM_SIZE \<Longrightarrow> \<forall>(row, col) \<in> set cs. pattern_ok (pts ! (col + w * row)) \<Longrightarrow>
   i < VRAM_SIZE \<Longrightarrow> i < 0x4000 \<or> 0xC000 \<le> i \<Longrightarrow> put_cells pts w x y cs m ! i = m ! i"
  by (induction pts w x y cs m rule: put_cells.induct) (auto simp: put_pattern_frame)

text \<open>When no two cells fall on the same place, each place holds the pattern of its cell.\<close>

lemma pattern_at_put_cells_other:
  "length m = VRAM_SIZE \<Longrightarrow> \<forall>(row, col) \<in> set cs. pattern_ok (pts ! (col + w * row)) \<Longrightarrow>
   x' < 32 \<Longrightarrow> y' < 32 \<Longrightarrow>
   \<forall>(row, col) \<in> set cs. \<not> ((x + col) mod 32 = x' \<and> (y + row) mod 32 = y') \<Longrightarrow>
   pattern_at x' y' (put_cells pts w x y cs m) = pattern_at x' y' m"
  by (induction pts w x y cs m rule: put_cells.induct) (auto simp: pattern_at_put)

lemma pattern_at_put_cells:
  "length m = VRAM_SIZE \<Longrightarrow> \<forall>(row, col) \<in> set cs. pattern_ok (pts ! (col + w * row)) \<Longrightarrow>
   \<forall>(row, col) \<in> set cs. row < 32 \<and> col < 32 \<Longrightarrow> distinct cs \<Longrightarrow> (row, col) \<in> set cs \<Longrightarrow>
   pattern_at ((x + col) mod 32) ((y + row) mod 32) (put_cells pts w x y cs m)
     = pattern_bytes (pts ! (col + w * row))"
proof (induction pts w x y cs m rule: put_cells.induct)
  case (2 pts w x y r c cs m)
  show ?case
  proof (cases "(row, col) = (r, c)")
    case True
    have diff: "(x + c') mod 32 \<noteq> (x + c) mod 32 \<or> (y + r') mod 32 \<noteq> (y + r) mod 32"
      if "(r', c') \<in> set cs" for r' c'
    proof -
      have "c' < 32" "r' < 32" "c < 32" "r < 32" "(r', c') \<noteq> (r, c)" using that 2 by auto
      moreover have "a = b" if "a < 32" "b < 32" "(z + a) mod 32 = (z + b) mod 32" for a b z :: nat
        using that by (rule add_mod_cancel)
      ultimately show ?thesis by blast
    qed
    show ?thesis using True 2
      by (simp, subst pattern_at_put_cells_other) (use diff in \<open>auto simp: pattern_at_put\<close>)
  next
    case False
    with 2 show ?thesis by auto
  qed
qed simp

lemma and_1F: "unat ((of_nat n :: u32) AND 0x1F) = n mod 32"
proof -
  have "(of_nat n :: u32) AND 0x1F = take_bit 5 (of_nat n)"
    by (simp add: take_bit_eq_mask mask_eq_exp_minus_1)
  then show ?thesis
    by (simp only: unsigned_take_bit_eq unsigned_of_nat take_bit_take_bit min_def)
      (simp only: take_bit_eq_mod, simp add: mod_mod_cancel)
qed

lemma pattern_addr_value:
  assumes "unat x < 32" and "unat y < 32"
  shows "\<exists>a. ppu_pattern_addr x y = Done a \<and> unat a = 32 * unat y + unat x"
proof -
  have b: "x < 2 ^ 5" "\<not> 31 < x" "\<not> 31 < y" using assms by (simp_all add: word_less_nat_alt not_less)
  have "push_bit 5 y OR x = push_bit 5 y + x"
    by (rule disjunctive_add_eq_or [symmetric])
      (use less_bit [OF b(1)] in \<open>force simp: bit_simps bit_eq_iff\<close>)
  also have "\<dots> = of_nat (32 * unat y + unat x)" by (simp add: push_bit_eq_mult)
  finally have "unat (push_bit 5 y OR x) = 32 * unat y + unat x"
    using assms by (simp only:) (rule unat_of_nat_u32, simp)
  then show ?thesis using b(2,3) by (simp add: ppu_pattern_addr_def)
qed

definition put_cellsv :: "pattern_t list \<Rightarrow> nat \<Rightarrow> nat \<Rightarrow> nat \<Rightarrow> (nat \<times> nat) list \<Rightarrow> ppu_view \<Rightarrow> ppu_view" where
  "put_cellsv pts w x y cs v = v\<lparr>v_vram := put_cells pts w x y cs (v_vram v)\<rparr>"

definition cell_word :: "nat \<times> nat \<Rightarrow> u32 \<times> u32" where
  "cell_word = (\<lambda>(row, col). (of_nat row, of_nat col))"

text \<open>The source index of a cell does not overflow and lies in the array.\<close>

definition cell_ok :: "pattern_t list \<Rightarrow> u32 \<Rightarrow> nat \<times> nat \<Rightarrow> bool" where
  "cell_ok pts w = (\<lambda>(row, col). col + unat w * row < 2 ^ 32
     \<and> col + unat w * row < length pts \<and> pattern_ok (pts ! (col + unat w * row)))"

definition pattern_nats :: "nat \<Rightarrow> nat \<Rightarrow> (nat \<times> nat) list" where
  "pattern_nats w h = concat (map (\<lambda>row. map (\<lambda>col. (row, col)) [0..<w]) [0..<h])"

lemma pattern_cells_nats: "pattern_cells w h = map cell_word (pattern_nats (unat w) (unat h))"
  by (simp add: pattern_cells_def pattern_nats_def map_concat comp_def cell_word_def)

lemma set_pattern_nats [simp]: "set (pattern_nats w h) = {0..<h} \<times> {0..<w}"
  by (auto simp: pattern_nats_def)

lemma distinct_pattern_nats: "distinct (pattern_nats w h)"
  by (induction h) (auto simp: pattern_nats_def distinct_map inj_on_def)

lemma pattern_nats_Cons: "0 < w \<Longrightarrow> 0 < h \<Longrightarrow> \<exists>rc rest. pattern_nats w h = rc # rest \<and> rc = (0, 0)"
  by (simp add: pattern_nats_def upt_conv_Cons del: upt_Suc)

lemma cell_index: "row < h \<Longrightarrow> col < w \<Longrightarrow> col + w * row < w * (h :: nat)"
proof -
  assume "row < h" "col < w"
  then have "w * (row + 1) \<le> w * h" by (intro mult_le_mono2) simp
  with \<open>col < w\<close> show ?thesis by simp
qed

text \<open>The first byte of the opaque colours of a palette, and its sixty bytes.\<close>

definition palette_base :: "layer_e \<Rightarrow> nat \<Rightarrow> nat" where
  "palette_base layer k = 0xC000 + (if layer = LAYER_SPR then 0x800
     else if layer = LAYER_FG then 0x400 else 0) + 64 * k + 4"

definition palettes_of :: "layer_e \<Rightarrow> nat" where
  "palettes_of layer = (if layer = LAYER_SPR then 32 else 16)"

lemma length_palette_bytes: "palette_ok pal \<Longrightarrow> length (palette_bytes pal) = 60"
  by (simp add: palette_bytes_def palette_ok_def word32.length_concat_enc)

lemma palette_base_bound: "k < palettes_of layer \<Longrightarrow> palette_base layer k + 60 \<le> 0xD000"
  by (auto simp: palette_base_def palettes_of_def split: if_splits)

lemma palette_addr:
  assumes "unat k < palettes_of layer"
  shows "unat (VRAM_PALETTEOFFSET + (if layer = LAYER_SPR then PALETTERAM_SPROFFSET
      else if layer = LAYER_FG then PALETTERAM_FGOFFSET else PALETTERAM_BGOFFSET)
      + k * PALETTE16_BSIZE + 4) = palette_base layer (unat k)" (is "unat (?a + ?o + _ + _) = _")
proof -
  have "?a + ?o + k * PALETTE16_BSIZE + 4 = of_nat (palette_base layer (unat k))"
    by (simp add: palette_base_def)
  also have "unat \<dots> = palette_base layer (unat k)"
    using palette_base_bound [OF assms] by (intro unat_of_nat_u32) simp
  finally show ?thesis .
qed

definition put_palette :: "layer_e \<Rightarrow> u32 \<Rightarrow> palette_t \<Rightarrow> ppu_view \<Rightarrow> ppu_view" where
  "put_palette layer k pal v = put_vram (palette_base layer (unat k)) (palette_bytes pal) v"

section \<open>Sprites\<close>

definition sprite_words :: "sprite_t list \<Rightarrow> u8 list" where
  "sprite_words ss = concat (map (\<lambda>s. le32 (sprite_word s)) ss)"

text \<open>The contents of the second buffer, whose elements are four bytes wide.\<close>

definition extra_words :: "sprite_t list \<Rightarrow> u8 list" where
  "extra_words ss = concat (map (\<lambda>s. le32 (ucast (sprite_extra s))) ss)"

lemma length_sprite_words [simp]: "length (sprite_words ss) = 4 * length ss"
  by (induction ss) (simp_all add: sprite_words_def)

lemma length_extra_words [simp]: "length (extra_words ss) = 4 * length ss"
  by (induction ss) (simp_all add: extra_words_def)

lemma sprite_words_simps [simp]:
  "sprite_words [] = []" "sprite_words (s # ss) = le32 (sprite_word s) @ sprite_words ss"
  "extra_words [] = []" "extra_words (s # ss) = le32 (ucast (sprite_extra s)) @ extra_words ss"
  by (simp_all add: sprite_words_def extra_words_def)

lemma nth_extra_words:
  "j < 4 * length ss \<Longrightarrow> extra_words ss ! j = (if 4 dvd j then sprite_extra (ss ! (j div 4)) else 0)"
proof (induction ss arbitrary: j)
  case (Cons s ss)
  show ?case
  proof (cases "j < 4")
    case True
    have nb: "\<not> bit (sprite_extra s) (k + n)" if "8 \<le> k" for k n
      using that bit_imp_le_length [of "sprite_extra s" "k + n"] by auto
    have z: "ucast (drop_bit 8 (ucast (sprite_extra s) :: u32)) = (0 :: u8)"
      "ucast (drop_bit 16 (ucast (sprite_extra s) :: u32)) = (0 :: u8)"
      "ucast (drop_bit 24 (ucast (sprite_extra s) :: u32)) = (0 :: u8)"
      by (auto intro!: bit_word_eqI simp: bit_simps nb)
    have "j = 0 \<or> j = 1 \<or> j = 2 \<or> j = 3" using True by auto
    then show ?thesis
      by (auto simp: le32_def z nth_Cons' unsigned_ucast_eq take_bit_word_eq_self)
  next
    case False
    then have "extra_words (s # ss) ! j = extra_words ss ! (j - 4)" by (simp add: nth_append)
    also have "\<dots> = (if 4 dvd (j - 4) then sprite_extra (ss ! ((j - 4) div 4)) else 0)"
      using Cons.prems False by (intro Cons.IH) simp
    also have "4 dvd (j - 4) \<longleftrightarrow> 4 dvd j" using False by (simp add: dvd_minus_self)
    also have "(j - 4) div 4 = j div 4 - 1" using False by (simp add: le_div_geq)
    finally show ?thesis using False by (simp add: nth_Cons' div_eq_0_iff)
  qed
qed simp

lemma pack_sprites_fits:
  assumes "list_all sprite_ok sprites"
  shows "i + n \<le> length sprites \<Longrightarrow> 4 * (i + n) \<le> length buf \<Longrightarrow> 4 * (i + n) \<le> length extra \<Longrightarrow>
    pack_sprites sprites i n buf extra =
      Done (blit (4 * i) (sprite_words (take n (drop i sprites))) buf,
            blit (4 * i) (extra_words (take n (drop i sprites))) extra)"
proof (induction n arbitrary: i buf extra)
  case (Suc n)
  have i: "i < length sprites" using Suc.prems by simp
  then have ok: "sprite_ok (sprites ! i)" using assms by (simp add: list_all_length)
  have d: "drop i sprites = sprites ! i # drop (Suc i) sprites" using i by (simp add: Cons_nth_drop_Suc)
  let ?b = "blit (4 * i) (le32 (sprite_word (sprites ! i))) buf"
  let ?e = "blit (4 * i) (le32 (ucast (sprite_extra (sprites ! i)))) extra"
  have "pack_sprites sprites i (Suc n) buf extra = pack_sprites sprites (Suc i) n ?b ?e"
    using Suc.prems i by (simp add: sprite_check_ok [OF ok] mem_write_def)
  also have "\<dots> = Done (blit (4 * Suc i) (sprite_words (take n (drop (Suc i) sprites))) ?b,
      blit (4 * Suc i) (extra_words (take n (drop (Suc i) sprites))) ?e)"
    using Suc.prems by (intro Suc.IH) simp_all
  also have "blit (4 * Suc i) (sprite_words (take n (drop (Suc i) sprites))) ?b =
      blit (4 * i) (sprite_words (take (Suc n) (drop i sprites))) buf"
    using Suc.prems by (simp add: d blit_append add.commute)
  also have "blit (4 * Suc i) (extra_words (take n (drop (Suc i) sprites))) ?e =
      blit (4 * i) (extra_words (take (Suc n) (drop i sprites))) extra"
    using Suc.prems by (simp add: d blit_append add.commute)
  finally show ?case .
qed simp

lemma pack_sprites_overflow:
  assumes "list_all sprite_ok sprites"
  shows "i + n \<le> length sprites \<Longrightarrow> 4 * (i + n) \<le> length buf \<Longrightarrow> length extra < 4 * (i + n) \<Longrightarrow> 0 < n \<Longrightarrow>
    pack_sprites sprites i n buf extra = Undef"
proof (induction n arbitrary: i buf extra)
  case (Suc n)
  have i: "i < length sprites" using Suc.prems by simp
  then have ok: "sprite_ok (sprites ! i)" using assms by (simp add: list_all_length)
  show ?case
  proof (cases "4 * i + 4 \<le> length extra")
    case True
    then have "0 < n" using Suc.prems by (cases n) auto
    then show ?thesis
      using Suc.prems True i by (simp add: sprite_check_ok [OF ok] mem_write_def Suc.IH)
  next
    case False
    then show ?thesis
      using Suc.prems i by (simp add: sprite_check_ok [OF ok] mem_write_def)
  qed
qed simp

lemma user_readable_blit0:
  "length xs \<le> length m \<Longrightarrow> user_readable (user_mem (blit 0 xs m)) xs"
  by (auto simp: user_readable_def user_mem_def blit_def)

section \<open>Registers and raw writes\<close>

section \<open>The numbers the packed words stand for\<close>

lemma tile_value:
  assumes "addr \<le> PATTERN_MAXADDR" and "pal < 16" and "mir \<le> MIRROR_MAXVAL"
  shows "\<exists>t. ppu_make_tile addr pal mir = Done t \<and> unat t = unat addr * 64 + unat pal * 4 + unat mir"
proof -
  have b: "unat addr \<le> 1023" "unat pal < 16" "unat mir < 4"
    using assms by (simp_all add: word_le_nat_alt word_less_nat_alt)
  have p: "unat (push_bit 2 pal OR mir) = unat pal * 4 + unat mir"
    using b by (subst unat_or_push) simp_all
  have "unat (push_bit 6 addr OR (push_bit 2 pal OR mir)) = unat addr * 64 + (unat pal * 4 + unat mir)"
    using b by (subst unat_or_push) (simp_all add: p)
  then have "unat (ucast (push_bit 6 addr OR push_bit 2 pal OR mir) :: u16)
      = unat addr * 64 + unat pal * 4 + unat mir"
    using b by (simp add: unat_ucast_u16)
  then show ?thesis using assms by (auto simp: ppu_make_tile_def not_less)
qed

lemma sprite_word_value:
  assumes "sprite_ok s"
  shows "unat (sprite_word s) = unat (s_pattern_addr s) * 2 ^ 22 + unat (s_palette_id s) * 2 ^ 17
    + unat (s_y s) * 2 ^ 9 + unat (s_x s)"
proof -
  have b: "unat (s_pattern_addr s) \<le> 1023" "unat (s_palette_id s) < 32" "unat (s_y s) \<le> 255"
      "unat (s_x s) \<le> 511"
    using assms by (simp_all add: sprite_ok_def word_le_nat_alt word_less_nat_alt)
  have y: "unat (push_bit 9 (ucast (s_y s)) OR (ucast (s_x s) :: u32)) = unat (s_y s) * 2 ^ 9 + unat (s_x s)"
    using b by (subst unat_or_push) (simp_all add: unat_u32_u16)
  have p: "unat (push_bit 17 (s_palette_id s) OR push_bit 9 (ucast (s_y s)) OR ucast (s_x s))
      = unat (s_palette_id s) * 2 ^ 17 + (unat (s_y s) * 2 ^ 9 + unat (s_x s))"
    using b by (subst unat_or_push) (simp_all add: y)
  show ?thesis
    unfolding sprite_word_def using b by (subst unat_or_push) (simp_all add: p)
qed

lemma sprite_extra_value:
  assumes "sprite_ok s"
  shows "unat (sprite_extra s) = unat (s_mirror s) * 64 + (unat (s_height s) - 1) * 16
    + (unat (s_width s) - 1) * 4 + unat (s_prio s)"
proof -
  have b: "unat (s_mirror s) \<le> 3" "unat (s_height s) \<le> 4" "unat (s_width s) \<le> 4" "unat (s_prio s) \<le> 2"
      "0 < unat (s_height s)" "0 < unat (s_width s)"
    using assms by (simp_all add: sprite_ok_def word_le_nat_alt unat_gt_0)
  have one: "unat (ucast w - 1 :: u32) = unat w - 1" if "0 < unat w" for w :: u8
  proof -
    have "ucast w \<noteq> (0 :: u32)" using that by (metis unat_u32_u8 unat_0 less_irrefl)
    then show ?thesis by (simp add: unat_pred unat_u32_u8)
  qed
  note h = one [OF b(5)] and w = one [OF b(6)]
  have x: "unat (push_bit 2 (ucast (s_width s) - 1) OR s_prio s) = (unat (s_width s) - 1) * 4 + unat (s_prio s)"
    using b by (subst unat_or_push) (simp_all add: w)
  have y: "unat (push_bit 4 (ucast (s_height s) - 1) OR push_bit 2 (ucast (s_width s) - 1) OR s_prio s)
      = (unat (s_height s) - 1) * 16 + ((unat (s_width s) - 1) * 4 + unat (s_prio s))"
    using b by (subst unat_or_push) (simp_all add: x h)
  have "unat (push_bit 6 (s_mirror s) OR push_bit 4 (ucast (s_height s) - 1) OR
      push_bit 2 (ucast (s_width s) - 1) OR s_prio s) = unat (s_mirror s) * 64
      + ((unat (s_height s) - 1) * 16 + ((unat (s_width s) - 1) * 4 + unat (s_prio s)))"
    using b by (subst unat_or_push) (simp_all add: y)
  then show ?thesis
    using b unfolding sprite_extra_def by (simp add: unat_ucast_u8)
qed

end
