(* ===== verification/HwRam.thy ===== *)
theory HwRam
  imports PpuView
begin

text \<open>
  Words of the circuits: a bus or a RAM word is a natural number below its power of two, and
  \<open>bits hi lo w\<close> is the part-select \<open>w[hi:lo]\<close> of SystemVerilog.  The RAMs of the device hold
  little-endian words of the VRAM image; the lemmas read bytes, tiles and pixels off them.
\<close>

section \<open>Part-selects\<close>

definition bits :: "nat \<Rightarrow> nat \<Rightarrow> nat \<Rightarrow> nat" where
  "bits hi lo w = w div 2 ^ lo mod 2 ^ (hi + 1 - lo)"

named_theorems hw_simps \<open>part-selects and words of the circuits\<close>

lemma bits_less: "bits hi lo w < 2 ^ (hi + 1 - lo)"
  by (simp add: bits_def)

lemma bits_eq [hw_simps]: "bits hi 0 w = w mod 2 ^ (hi + 1)"
  by (simp add: bits_def)

lemma bits_one: "lo \<le> hi \<Longrightarrow> hi = lo \<Longrightarrow> bits hi lo w = w div 2 ^ lo mod 2"
  by (simp add: bits_def)

section \<open>Little-endian words\<close>

definition word_num :: "u8 list \<Rightarrow> nat" where
  "word_num bs = horner_sum unat 256 bs"

lemma word_num_simps [simp]:
  "word_num [] = 0" "word_num (b # bs) = unat b + 256 * word_num bs"
  by (simp_all add: word_num_def)

lemma word_num_append: "word_num (xs @ ys) = word_num xs + 2 ^ (8 * length xs) * word_num ys"
  by (simp add: word_num_def horner_sum_append power_mult)

lemma word_num_less: "word_num bs < 2 ^ (8 * length bs)"
proof (induction bs)
  case (Cons b bs)
  have "unat b < 256" using unsigned_less [of b] by simp
  with Cons have "unat b + 256 * word_num bs < 256 * 2 ^ (8 * length bs)" by linarith
  then show ?case by (simp add: power_add)
qed simp

lemma word_num_drop: "word_num bs div 2 ^ (8 * i) = word_num (drop i bs)"
proof (cases "i \<le> length bs")
  case True
  have "word_num bs = word_num (take i bs) + 2 ^ (8 * i) * word_num (drop i bs)"
    using word_num_append [of "take i bs" "drop i bs"] True by (simp add: min_def)
  moreover have "word_num (take i bs) < 2 ^ (8 * i)"
    using word_num_less [of "take i bs"] True by (simp add: min_absorb2)
  ultimately show ?thesis by simp
next
  case False
  then have "(2 :: nat) ^ (8 * length bs) \<le> 2 ^ (8 * i)" by (intro power_increasing) simp_all
  with word_num_less [of bs] have "word_num bs < 2 ^ (8 * i)" by (rule order_less_le_trans)
  with False show ?thesis by simp
qed

lemma word_num_take: "word_num bs mod 2 ^ (8 * n) = word_num (take n bs)"
proof (cases "n \<le> length bs")
  case True
  have "word_num bs = word_num (take n bs) + 2 ^ (8 * n) * word_num (drop n bs)"
    using word_num_append [of "take n bs" "drop n bs"] True by (simp add: min_def)
  moreover have "word_num (take n bs) < 2 ^ (8 * n)"
    using word_num_less [of "take n bs"] True by (simp add: min_absorb2)
  ultimately show ?thesis by simp
next
  case False
  then have "(2 :: nat) ^ (8 * length bs) \<le> 2 ^ (8 * n)" by (intro power_increasing) simp_all
  with word_num_less [of bs] have "word_num bs < 2 ^ (8 * n)" by (rule order_less_le_trans)
  with False show ?thesis by simp
qed

lemma word_num_segment: "word_num bs div 2 ^ (8 * i) mod 2 ^ (8 * n) = word_num (segment i n bs)"
  by (simp add: word_num_drop word_num_take segment_def)

lemma segment_segment: "i + k \<le> n \<Longrightarrow> segment i k (segment off n m) = segment (off + i) k m"
  by (simp add: segment_def drop_take min_def add.commute)

text \<open>Eight-bit, sixteen-bit and four-bit elements of a word.\<close>

lemma word_num_un16: "length bs = 2 \<Longrightarrow> word_num bs = unat (un16 bs)"
proof -
  assume "length bs = 2"
  then obtain a b where bs: "bs = [a, b]" by (auto simp: length_Suc_conv numeral_2_eq_2)
  have "unat (un16 [a, b]) = unat (push_bit 8 (ucast b) OR ucast a :: u16)"
    by (simp add: un16_def or.commute)
  also have "\<dots> = unat b * 256 + unat a"
  proof -
    have n: "unat (ucast a :: u16) = unat a" "unat (ucast b :: u16) = unat b"
      by (simp_all add: unsigned_ucast_eq take_bit_nat_eq_self order_less_le_trans [OF unsigned_less])
    have lt: "unat a < 256" "unat b < 256" using unsigned_less [of a] unsigned_less [of b] by simp_all
    have "push_bit 8 (ucast b) OR ucast a = (push_bit 8 (ucast b) + ucast a :: u16)"
    proof (rule disjunctive_add [symmetric])
      fix n
      show "\<not> bit (push_bit 8 (ucast b) :: u16) n \<or> \<not> bit (ucast a :: u16) n"
        using bit_imp_le_length [of a n] by (auto simp: bit_simps)
    qed
    also have "\<dots> = of_nat (unat b * 256 + unat a)"
      by (simp add: push_bit_eq_mult)
    also have "unat \<dots> = unat b * 256 + unat a"
      by (rule trans [OF unsigned_of_nat]) (use lt in \<open>simp add: take_bit_nat_eq_self\<close>)
    finally show ?thesis .
  qed
  finally show ?thesis using bs by simp
qed

definition nib :: "u8 list \<Rightarrow> nat \<Rightarrow> nat" where
  "nib bs i = unat (bs ! (i div 2)) div 16 ^ (i mod 2) mod 16"

lemma low_nibbles:
  fixes x w :: nat
  shows "(x + 256 * w) mod 16 = x mod 16" and "(x + 256 * w) div 16 mod 16 = x div 16 mod 16"
proof -
  have e: "x + 256 * w = x + 16 * (16 * w)" by simp
  show "(x + 256 * w) mod 16 = x mod 16" unfolding e by (rule mod_mult_self2)
  have "(x + 256 * w) div 16 = x div 16 + 16 * w" unfolding e by simp
  then show "(x + 256 * w) div 16 mod 16 = x div 16 mod 16" by simp
qed

lemma word_num_nib: "i < 2 * length bs \<Longrightarrow> word_num bs div 2 ^ (4 * i) mod 16 = nib bs i"
proof -
  assume i: "i < 2 * length bs"
  let ?k = "i div 2"
  have k: "?k < length bs" using i by simp
  have sp: "4 * i = 8 * ?k + 4 * (i mod 2)" by presburger
  have "word_num bs div 2 ^ (4 * i) = word_num (drop ?k bs) div 2 ^ (4 * (i mod 2))"
    by (simp only: sp power_add div_mult2_eq word_num_drop)
  also have "drop ?k bs = bs ! ?k # drop (Suc ?k) bs" using k by (simp add: Cons_nth_drop_Suc)
  also have "word_num \<dots> div 2 ^ (4 * (i mod 2)) mod 16 = unat (bs ! ?k) div 16 ^ (i mod 2) mod 16"
  proof (cases "i mod 2 = 0")
    case True
    then show ?thesis by (simp add: low_nibbles)
  next
    case False
    then have "i mod 2 = 1" by simp
    then show ?thesis by (simp add: low_nibbles)
  qed
  finally show ?thesis by (simp add: nib_def)
qed

lemma nib_less [simp]: "nib bs i < 16"
  by (simp add: nib_def)

section \<open>The RAMs that the drawing circuits read\<close>

text \<open>The 64-bit words of one RAM, which starts at byte \<open>base\<close> of the image.\<close>

definition ram64 :: "nat \<Rightarrow> nat \<Rightarrow> u8 list \<Rightarrow> nat" where
  "ram64 base a m = word_num (segment (base + 8 * a) 8 m)"

lemma ram64_part:
  assumes "8 * i + 8 * n \<le> 64"
  shows "ram64 base a m div 2 ^ (8 * i) mod 2 ^ (8 * n) = word_num (segment (base + 8 * a + i) n m)"
  using assms by (simp add: ram64_def word_num_segment segment_segment)

text \<open>
  The four RAMs on the side of the drawing circuits (\<^verbatim>\<open>vram_ppu_facing.sv\<close>), and what
  they hold when an image has been transferred.
\<close>

record vram_p =
  p_tilram :: "nat list"
  p_patram :: "nat list"
  p_palram :: "nat list"
  p_sprram :: "nat list"

definition image_vram :: "u8 list \<Rightarrow> vram_p" where
  "image_vram m = \<lparr>p_tilram = map (\<lambda>a. ram64 0 a m) [0..<2048],
     p_patram = map (\<lambda>a. ram64 0x4000 a m) [0..<4096],
     p_palram = map (\<lambda>a. ram64 0xC000 a m) [0..<512],
     p_sprram = map (\<lambda>a. ram64 0xD000 a m) [0..<40]\<rparr>"

lemma image_vram_nth [hw_simps]:
  "a < 2048 \<Longrightarrow> p_tilram (image_vram m) ! a = ram64 0 a m"
  "a < 4096 \<Longrightarrow> p_patram (image_vram m) ! a = ram64 0x4000 a m"
  "a < 512 \<Longrightarrow> p_palram (image_vram m) ! a = ram64 0xC000 a m"
  "a < 40 \<Longrightarrow> p_sprram (image_vram m) ! a = ram64 0xD000 a m"
  by (simp_all add: image_vram_def)

text \<open>
  A RAM with a wide write port and a narrow read port: word \<open>a\<close> of the wide port is the
  elements \<open>n * a\<close> to \<open>n * a + n - 1\<close> of the narrow one, lowest bits first.
\<close>

definition parts :: "nat \<Rightarrow> nat \<Rightarrow> nat \<Rightarrow> nat list" where
  "parts n k w = map (\<lambda>i. bits (k * i + k - 1) (k * i) w) [0..<n]"

lemma length_parts [simp]: "length (parts n k w) = n"
  by (simp add: parts_def)

lemma nth_parts: "i < n \<Longrightarrow> 0 < k \<Longrightarrow> parts n k w ! i = w div 2 ^ (k * i) mod 2 ^ k"
  by (simp add: parts_def bits_def)

definition wide_read :: "nat \<Rightarrow> nat \<Rightarrow> nat list \<Rightarrow> nat list" where
  "wide_read n k ws = concat (map (parts n k) ws)"

lemma length_wide_read [simp]: "length (wide_read n k ws) = n * length ws"
  by (induction ws) (simp_all add: wide_read_def)

lemma nth_concat_uniform:
  "\<forall>xs \<in> set xss. length xs = n \<Longrightarrow> i < n * length xss \<Longrightarrow> concat xss ! i = xss ! (i div n) ! (i mod n)"
proof (induction xss arbitrary: i)
  case (Cons xs xss)
  show ?case
  proof (cases "i < n")
    case True
    with Cons.prems show ?thesis by (simp add: nth_append)
  next
    case False
    with Cons.prems have n: "0 < n" "n \<le> i" by (auto intro: gr0I)
    have "concat (xs # xss) ! i = concat xss ! (i - n)"
      using n Cons.prems by (simp add: nth_append)
    also have "\<dots> = xss ! ((i - n) div n) ! ((i - n) mod n)"
      using Cons.prems n by (intro Cons.IH) auto
    also have "(i - n) div n = i div n - 1" using n by (simp add: le_div_geq)
    also have "(i - n) mod n = i mod n" using n by (simp add: le_mod_geq)
    finally show ?thesis using n by (simp add: nth_Cons' div_eq_0_iff)
  qed
qed simp

lemma nth_wide_read:
  "i < n * length ws \<Longrightarrow> wide_read n k ws ! i = parts n k (ws ! (i div n)) ! (i mod n)"
  unfolding wide_read_def
  by (subst nth_concat_uniform [where n = n]) (auto simp: less_mult_imp_div_less mult.commute)

end
