(* ===== verification/HwCopy.thy ===== *)
theory HwCopy
  imports HwRam
begin

text \<open>
  The two circuits that copy between RAMs, cycle by cycle: \<^verbatim>\<open>sync_writer.sv\<close>, which
  copies in order, and \<^verbatim>\<open>indirect_sync_writer.sv\<close>, which looks every address up in a
  third RAM.  The RAMs register the address and the output, so data arrives two cycles after
  its address; the copiers are pipelined around that, and write what they do not need before
  the first data arrives.  The locale \<open>write_port\<close> is what they rely on in the target.
\<close>

section \<open>RAM ports\<close>

text \<open>A read port with its two registers; \<open>mem\<close> is the contents by address.\<close>

record 'a read_port =
  rp_addr :: nat
  rp_q :: 'a

definition read_step :: "(nat \<Rightarrow> 'a) \<Rightarrow> nat \<Rightarrow> 'a read_port \<Rightarrow> 'a read_port" where
  "read_step mem addr p = \<lparr>rp_addr = addr, rp_q = mem (rp_addr p)\<rparr>"

lemma read_step_sel [simp]: "rp_addr (read_step mem a p) = a" "rp_q (read_step mem a p) = mem (rp_addr p)"
  by (simp_all add: read_step_def)

locale write_port =
  fixes store :: "nat \<Rightarrow> 'a \<Rightarrow> 'd \<Rightarrow> 'd" and ok :: "'d \<Rightarrow> bool" and n :: nat
  assumes store_ok: "ok d \<Longrightarrow> i < n \<Longrightarrow> ok (store i x d)"
    and store_again: "ok d \<Longrightarrow> i < n \<Longrightarrow> store i x (store i y d) = store i x d"

text \<open>The contents of the target when the first \<open>k\<close> addresses have been written.\<close>

definition copied :: "(nat \<Rightarrow> 'a \<Rightarrow> 'd \<Rightarrow> 'd) \<Rightarrow> (nat \<Rightarrow> 'a) \<Rightarrow> nat \<Rightarrow> 'd \<Rightarrow> 'd" where
  "copied store f k d = fold (\<lambda>i. store i (f i)) [0..<k] d"

lemma copied_simps [simp]: "copied store f 0 d = d"
  "copied store f (Suc k) d = store k (f k) (copied store f k d)"
  by (simp_all add: copied_def)

section \<open>The copier in order\<close>

record sync_writer =
  sw_sync :: bool
  sw_done :: bool
  sw_from :: nat
  sw_to :: nat
  sw_to_buf :: nat
  sw_wren :: bool

definition sync_writer_step :: "nat \<Rightarrow> bool \<Rightarrow> bool \<Rightarrow> sync_writer \<Rightarrow> sync_writer" where
  "sync_writer_step MAX_ADDR sync clr_done s =
     (if \<not> sw_sync s
      then if sync
           then \<lparr>sw_sync = True, sw_done = False, sw_from = 0, sw_to = 0, sw_to_buf = 0, sw_wren = True\<rparr>
           else if clr_done then s\<lparr>sw_done := False\<rparr> else s
      else if sw_to s = MAX_ADDR
           then s\<lparr>sw_done := True, sw_wren := False, sw_sync := False\<rparr>
           else s\<lparr>sw_from := if sw_from s = MAX_ADDR then 0 else sw_from s + 1,
                  sw_to_buf := sw_from s, sw_to := sw_to_buf s\<rparr>)"

text \<open>The circuit with the port it reads and the RAM it writes; \<open>addr\<close> makes the address.\<close>

record ('a, 'd) copier =
  cp_sw :: sync_writer
  cp_port :: "'a read_port"
  cp_dest :: 'd

definition copier_step ::
    "nat \<Rightarrow> (nat \<Rightarrow> 'a) \<Rightarrow> (nat \<Rightarrow> nat) \<Rightarrow> (nat \<Rightarrow> 'a \<Rightarrow> 'd \<Rightarrow> 'd) \<Rightarrow> bool \<times> bool \<Rightarrow> ('a, 'd) copier \<Rightarrow> ('a, 'd) copier" where
  "copier_step MAX_ADDR mem addr store inp c =
     \<lparr>cp_sw = sync_writer_step MAX_ADDR (fst inp) (snd inp) (cp_sw c),
      cp_port = read_step mem (addr (sw_from (cp_sw c))) (cp_port c),
      cp_dest = (if sw_wren (cp_sw c) then store (sw_to (cp_sw c)) (rp_q (cp_port c)) (cp_dest c) else cp_dest c)\<rparr>"

section \<open>The copier by address\<close>

record indirect_sync_writer =
  iw_sync :: bool
  iw_done :: bool
  iw_wren :: bool
  iw_abuf :: nat
  iw_targ :: nat

definition indirect_sync_writer_step :: "nat \<Rightarrow> bool \<Rightarrow> indirect_sync_writer \<Rightarrow> indirect_sync_writer" where
  "indirect_sync_writer_step ABUF_NUM_ADDR sync s =
     (if \<not> iw_sync s
      then \<lparr>iw_sync = sync, iw_done = False, iw_wren = sync, iw_abuf = 0, iw_targ = 0\<rparr>
      else if iw_targ s = ABUF_NUM_ADDR - 1
           then s\<lparr>iw_sync := False, iw_done := True, iw_wren := False\<rparr>
           else s\<lparr>iw_done := False, iw_wren := True,
                  iw_abuf := if iw_abuf s = ABUF_NUM_ADDR - 1 then iw_abuf s else iw_abuf s + 1,
                  iw_targ := if 4 \<le> iw_abuf s then iw_targ s + 1 else iw_targ s\<rparr>)"

text \<open>
  The circuit with the buffer of entries it looks up, the port of the source, the two
  registers that delay a part of the entry (the mirror bits) and the RAM it writes.
\<close>

record ('e, 'a, 'm, 'd) fetcher =
  ft_iw :: indirect_sync_writer
  ft_entry :: "'e read_port"
  ft_port :: "'a read_port"
  ft_buf1 :: 'm
  ft_buf2 :: 'm
  ft_dest :: 'd

definition fetcher_step ::
    "nat \<Rightarrow> (nat \<Rightarrow> 'e) \<Rightarrow> (nat \<Rightarrow> 'a) \<Rightarrow> ('e \<Rightarrow> nat) \<Rightarrow> ('e \<Rightarrow> 'm) \<Rightarrow> ('m \<Rightarrow> 'a \<Rightarrow> 'b) \<Rightarrow> (nat \<Rightarrow> 'b \<Rightarrow> 'd \<Rightarrow> 'd)
      \<Rightarrow> bool \<Rightarrow> ('e, 'a, 'm, 'd) fetcher \<Rightarrow> ('e, 'a, 'm, 'd) fetcher" where
  "fetcher_step ABUF_NUM_ADDR abuf src addr_of part_of final store sync f =
     \<lparr>ft_iw = indirect_sync_writer_step ABUF_NUM_ADDR sync (ft_iw f),
      ft_entry = read_step abuf (iw_abuf (ft_iw f)) (ft_entry f),
      ft_port = read_step src (addr_of (rp_q (ft_entry f))) (ft_port f),
      ft_buf1 = part_of (rp_q (ft_entry f)), ft_buf2 = ft_buf1 f,
      ft_dest = (if iw_wren (ft_iw f)
                 then store (iw_targ (ft_iw f)) (final (ft_buf2 f) (rp_q (ft_port f))) (ft_dest f)
                 else ft_dest f)\<rparr>"

section \<open>Both copy exactly\<close>

text \<open>The read address \<open>k\<close> cycles after the start.\<close>

definition read_pos :: "nat \<Rightarrow> nat \<Rightarrow> nat" where
  "read_pos MAX_ADDR k = (if k \<le> MAX_ADDR then k else k - MAX_ADDR - 1)"

text \<open>What is written at place \<open>i\<close> of the target.\<close>

definition fetched :: "(nat \<Rightarrow> 'e) \<Rightarrow> (nat \<Rightarrow> 'c) \<Rightarrow> ('e \<Rightarrow> nat) \<Rightarrow> ('e \<Rightarrow> 'm) \<Rightarrow> ('m \<Rightarrow> 'c \<Rightarrow> 'a) \<Rightarrow> nat \<Rightarrow> 'a" where
  "fetched abuf src addr_of part_of final i = final (part_of (abuf i)) (src (addr_of (abuf i)))"

context write_port
begin

definition copying :: "nat \<Rightarrow> (nat \<Rightarrow> 'a) \<Rightarrow> (nat \<Rightarrow> nat) \<Rightarrow> 'd \<Rightarrow> nat \<Rightarrow> ('a, 'd) copier \<Rightarrow> bool" where
  "copying MAX_ADDR mem addr d k c \<longleftrightarrow>
     cp_sw c = \<lparr>sw_sync = True, sw_done = False, sw_from = read_pos MAX_ADDR k, sw_to = k - 2,
                sw_to_buf = read_pos MAX_ADDR (k - 1), sw_wren = True\<rparr>
     \<and> (1 \<le> k \<longrightarrow> rp_addr (cp_port c) = addr (read_pos MAX_ADDR (k - 1)))
     \<and> (2 \<le> k \<longrightarrow> rp_q (cp_port c) = mem (addr (k - 2)))
     \<and> (k = 0 \<longrightarrow> cp_dest c = d) \<and> (k = 1 \<or> k = 2 \<longrightarrow> (\<exists>g. cp_dest c = store 0 g d))
     \<and> (3 \<le> k \<longrightarrow> cp_dest c = copied store (\<lambda>i. mem (addr i)) (k - 2) d)"

lemma copied_ok: "ok d \<Longrightarrow> k \<le> n \<Longrightarrow> ok (copied store f k d)"
  by (induction k) (simp_all add: store_ok)

lemma copying_step:
  assumes c: "copying MAX_ADDR mem addr d k c" and k: "k < MAX_ADDR + 2" "0 < MAX_ADDR" and d: "ok d" "0 < n"
  shows "copying MAX_ADDR mem addr d (Suc k) (copier_step MAX_ADDR mem addr store inp c)"
proof -
  have pos: "read_pos MAX_ADDR (k - 1) = k - 1" using k by (simp add: read_pos_def)
  consider "k = 0" | "k = 1" | "k = 2" | j where "k = Suc (Suc (Suc j))" by (metis One_nat_def Suc_1 not0_implies_Suc)
  then show ?thesis
    using c k d pos
    by cases (auto simp: copying_def copier_step_def sync_writer_step_def read_pos_def store_again)
qed

lemma copying_fold:
  "copying MAX_ADDR mem addr d k c \<Longrightarrow> k + length xs \<le> MAX_ADDR + 2 \<Longrightarrow> 0 < MAX_ADDR \<Longrightarrow> ok d \<Longrightarrow> 0 < n \<Longrightarrow>
   copying MAX_ADDR mem addr d (k + length xs) (fold (copier_step MAX_ADDR mem addr store) xs c)"
proof (induction xs arbitrary: k c)
  case (Cons x xs)
  then have "copying MAX_ADDR mem addr d (Suc k) (copier_step MAX_ADDR mem addr store x c)"
    by (intro copying_step) auto
  from Cons.IH [OF this] Cons.prems show ?case by simp
qed simp

lemma copier_run:
  assumes idle: "\<not> sw_sync (cp_sw c)" "\<not> sw_wren (cp_sw c)" and d: "ok (cp_dest c)" and M: "0 < MAX_ADDR" "MAX_ADDR < n"
    and ins: "length ins = MAX_ADDR + 3"
    and c': "c' = fold (copier_step MAX_ADDR mem addr store) ((True, b) # ins) c"
  shows "\<not> sw_sync (cp_sw c') \<and> \<not> sw_wren (cp_sw c') \<and> sw_done (cp_sw c')
    \<and> cp_dest c' = copied store (\<lambda>i. mem (addr i)) (MAX_ADDR + 1) (cp_dest c)"
proof -
  let ?step = "copier_step MAX_ADDR mem addr store"
  obtain xs x where xs: "ins = xs @ [x]" "length xs = MAX_ADDR + 2"
    using ins by (cases ins rule: rev_cases) auto
  have "copying MAX_ADDR mem addr (cp_dest c) 0 (?step (True, b) c)"
    using idle by (simp add: copying_def copier_step_def sync_writer_step_def read_pos_def)
  from copying_fold [OF this, of xs]
  have "copying MAX_ADDR mem addr (cp_dest c) (MAX_ADDR + 2) (fold ?step xs (?step (True, b) c))"
    using xs d M by simp
  moreover obtain j where "MAX_ADDR = Suc j" using M(1) by (cases MAX_ADDR) auto
  ultimately show ?thesis
    by (simp add: c' xs(1) copying_def copier_step_def sync_writer_step_def)
qed

text \<open>The copier when it is left alone after its start.\<close>

lemma copier_busy:
  assumes "\<not> sw_sync (cp_sw c)" "\<not> sw_wren (cp_sw c)" and "ok (cp_dest c)" and "0 < MAX_ADDR" "MAX_ADDR < n"
    and "j \<le> MAX_ADDR + 2"
  shows "\<not> sw_done (cp_sw ((copier_step MAX_ADDR mem addr store x ^^ j) (copier_step MAX_ADDR mem addr store (True, b) c)))"
proof -
  have "copying MAX_ADDR mem addr (cp_dest c) 0 (copier_step MAX_ADDR mem addr store (True, b) c)"
    using assms(1,2) by (simp add: copying_def copier_step_def sync_writer_step_def read_pos_def)
  from copying_fold [OF this, of "replicate j x"] assms show ?thesis
    by (simp add: copying_def fold_replicate)
qed

lemma idle_rest:
  "\<not> sw_sync (cp_sw c) \<Longrightarrow> \<not> sw_wren (cp_sw c) \<Longrightarrow>
   cp_sw ((copier_step MAX_ADDR mem addr store (False, False) ^^ k) c) = cp_sw c \<and>
   cp_dest ((copier_step MAX_ADDR mem addr store (False, False) ^^ k) c) = cp_dest c"
  by (induction k) (simp_all add: copier_step_def sync_writer_step_def)

lemma copier_finished:
  assumes idle: "\<not> sw_sync (cp_sw c)" "\<not> sw_wren (cp_sw c)" and d: "ok (cp_dest c)" and M: "0 < MAX_ADDR" "MAX_ADDR < n"
    and j: "MAX_ADDR + 3 \<le> j"
    and c': "c' = (copier_step MAX_ADDR mem addr store (False, False) ^^ j) (copier_step MAX_ADDR mem addr store (True, b) c)"
  shows "\<not> sw_sync (cp_sw c') \<and> \<not> sw_wren (cp_sw c') \<and> sw_done (cp_sw c')
    \<and> cp_dest c' = copied store (\<lambda>i. mem (addr i)) (MAX_ADDR + 1) (cp_dest c)"
proof -
  let ?step = "copier_step MAX_ADDR mem addr store"
  define e where "e = fold ?step ((True, b) # replicate (MAX_ADDR + 3) (False, False)) c"
  note run = copier_run [OF idle d M _ e_def, simplified]
  have "c' = (?step (False, False) ^^ (j - (MAX_ADDR + 3))) e"
    using j by (simp add: c' e_def fold_replicate flip: funpow_add [THEN fun_cong, unfolded comp_def])
  with idle_rest [of e "j - (MAX_ADDR + 3)" MAX_ADDR mem addr] run show ?thesis by simp
qed

definition fetching ::
    "nat \<Rightarrow> (nat \<Rightarrow> 'e) \<Rightarrow> (nat \<Rightarrow> 'c) \<Rightarrow> ('e \<Rightarrow> nat) \<Rightarrow> ('e \<Rightarrow> 'm) \<Rightarrow> ('m \<Rightarrow> 'c \<Rightarrow> 'a) \<Rightarrow> 'd \<Rightarrow> nat
      \<Rightarrow> ('e, 'c, 'm, 'd) fetcher \<Rightarrow> bool" where
  "fetching N abuf src addr_of part_of final d k f \<longleftrightarrow>
     ft_iw f = \<lparr>iw_sync = True, iw_done = False, iw_wren = True, iw_abuf = min k (N - 1), iw_targ = k - 4\<rparr>
     \<and> (1 \<le> k \<longrightarrow> rp_addr (ft_entry f) = min (k - 1) (N - 1))
     \<and> (2 \<le> k \<longrightarrow> rp_q (ft_entry f) = abuf (min (k - 2) (N - 1)))
     \<and> (3 \<le> k \<longrightarrow> rp_addr (ft_port f) = addr_of (abuf (min (k - 3) (N - 1)))
                   \<and> ft_buf1 f = part_of (abuf (min (k - 3) (N - 1))))
     \<and> (4 \<le> k \<longrightarrow> rp_q (ft_port f) = src (addr_of (abuf (k - 4))) \<and> ft_buf2 f = part_of (abuf (k - 4)))
     \<and> (k = 0 \<longrightarrow> ft_dest f = d) \<and> (1 \<le> k \<and> k \<le> 4 \<longrightarrow> (\<exists>g. ft_dest f = store 0 g d))
     \<and> (5 \<le> k \<longrightarrow> ft_dest f = copied store (fetched abuf src addr_of part_of final) (k - 4) d)"

lemma fetching_step:
  assumes f: "fetching N abuf src addr_of part_of final d k f" and k: "k < N + 3" "5 \<le> N" and d: "ok d" "0 < n"
  shows "fetching N abuf src addr_of part_of final d (Suc k)
    (fetcher_step N abuf src addr_of part_of final store inp f)"
proof -
  consider "k = 0" | "k = 1" | "k = 2" | "k = 3" | "k = 4" | j where "k = Suc (Suc (Suc (Suc (Suc j))))"
  proof -
    have "k = 0 \<or> k = 1 \<or> k = 2 \<or> k = 3 \<or> k = 4 \<or> k = Suc (Suc (Suc (Suc (Suc (k - 5)))))" by linarith
    then show thesis using that by blast
  qed
  then show ?thesis
    using f k d
  proof cases
    case 6
    moreover obtain N' where "N = Suc N'" using k(2) by (cases N) auto
    ultimately show ?thesis using f k d
      by (simp add: fetching_def fetcher_step_def indirect_sync_writer_step_def fetched_def min_def)
  qed (auto simp: fetching_def fetcher_step_def indirect_sync_writer_step_def store_again fetched_def min_def)
qed

lemma fetching_fold:
  "fetching N abuf src addr_of part_of final d k f \<Longrightarrow> k + length xs \<le> N + 3 \<Longrightarrow> 5 \<le> N \<Longrightarrow> ok d \<Longrightarrow> 0 < n \<Longrightarrow>
   fetching N abuf src addr_of part_of final d (k + length xs)
     (fold (fetcher_step N abuf src addr_of part_of final store) xs f)"
proof (induction xs arbitrary: k f)
  case (Cons x xs)
  then have "fetching N abuf src addr_of part_of final d (Suc k)
      (fetcher_step N abuf src addr_of part_of final store x f)"
    by (intro fetching_step) auto
  from Cons.IH [OF this] Cons.prems show ?case by simp
qed simp

lemma fetcher_run:
  assumes idle: "\<not> iw_sync (ft_iw f)" "\<not> iw_wren (ft_iw f)" and d: "ok (ft_dest f)" and N: "5 \<le> N" "N \<le> n"
    and ins: "length ins = N + 4"
    and f': "f' = fold (fetcher_step N abuf src addr_of part_of final store) (True # ins) f"
  shows "\<not> iw_sync (ft_iw f') \<and> \<not> iw_wren (ft_iw f') \<and> iw_done (ft_iw f')
    \<and> ft_dest f' = copied store (fetched abuf src addr_of part_of final) N (ft_dest f)"
proof -
  let ?step = "fetcher_step N abuf src addr_of part_of final store"
  obtain xs x where xs: "ins = xs @ [x]" "length xs = N + 3"
    using ins by (cases ins rule: rev_cases) auto
  have "fetching N abuf src addr_of part_of final (ft_dest f) 0 (?step True f)"
    using idle by (simp add: fetching_def fetcher_step_def indirect_sync_writer_step_def)
  moreover define g where "g = fold ?step xs (?step True f)"
  ultimately have g: "fetching N abuf src addr_of part_of final (ft_dest f) (N + 3) g"
    using fetching_fold [of N abuf src addr_of part_of final "ft_dest f" 0 "?step True f" xs] xs d N by simp
  obtain j where j: "N = Suc j" using N(1) by (cases N) auto
  have "f' = ?step x g" by (simp add: f' xs(1) g_def)
  then show ?thesis
    using g N by (simp add: j fetching_def fetcher_step_def indirect_sync_writer_step_def fetched_def)
qed

lemma fetcher_started:
  "\<not> iw_sync (ft_iw f) \<Longrightarrow> \<not> iw_wren (ft_iw f) \<Longrightarrow>
   fetching N abuf src addr_of part_of final (ft_dest f) 0 (fetcher_step N abuf src addr_of part_of final store True f)"
  by (simp add: fetching_def fetcher_step_def indirect_sync_writer_step_def)

lemma fetcher_busy:
  assumes "\<not> iw_sync (ft_iw f)" "\<not> iw_wren (ft_iw f)" and "ok (ft_dest f)" and "5 \<le> N" "N \<le> n" and "j \<le> N + 3"
  shows "\<not> iw_done (ft_iw ((fetcher_step N abuf src addr_of part_of final store x ^^ j)
    (fetcher_step N abuf src addr_of part_of final store True f)))"
  using fetching_fold [OF fetcher_started [OF assms(1,2)], of "replicate j x" N abuf src addr_of part_of final] assms
  by (simp add: fetching_def)

lemma fetcher_finished:
  assumes "\<not> iw_sync (ft_iw f)" "\<not> iw_wren (ft_iw f)" and "ok (ft_dest f)" and "5 \<le> N" "N \<le> n"
    and "f' = (fetcher_step N abuf src addr_of part_of final store x ^^ (N + 4))
      (fetcher_step N abuf src addr_of part_of final store True f)"
  shows "\<not> iw_sync (ft_iw f') \<and> \<not> iw_wren (ft_iw f') \<and> iw_done (ft_iw f')
    \<and> ft_dest f' = copied store (fetched abuf src addr_of part_of final) N (ft_dest f)"
  by (rule fetcher_run [where ins = "replicate (N + 4) x"]) (use assms in simp_all)

end

end
