(* ===== verification/HwTransfer.thy ===== *)
theory HwTransfer
  imports HwCopy
begin

text \<open>
  How an image gets from the kernel's memory into the RAMs that the drawing circuits read:
  the DMA engine writes it word by word, the interconnect (\<^verbatim>\<open>vram_interconnect.sv\<close>)
  routes each word to one of the four RAMs on the processor's side, and the sync writer
  (\<^verbatim>\<open>vram_sync_writer.sv\<close>) copies the four to the other side.
\<close>

section \<open>The processor's side\<close>

text \<open>Four RAMs of 128-bit words (\<^verbatim>\<open>vram_cpu_facing.sv\<close>).\<close>

record vram_c =
  c_tilram :: "nat list"
  c_patram :: "nat list"
  c_palram :: "nat list"
  c_sprram :: "nat list"

datatype vram_select = TILRAM | PATRAM | PALRAM | SPRRAM

text \<open>The demultiplexer: a RAM and the address in it.\<close>

definition demux :: "nat \<Rightarrow> vram_select \<times> nat" where
  "demux h2f_vram_wraddr =
     (if bits 11 11 h2f_vram_wraddr = 1
      then if bits 10 10 h2f_vram_wraddr = 1
           then if bits 8 8 h2f_vram_wraddr = 1
                then (SPRRAM, bits 4 0 ((h2f_vram_wraddr + 2 ^ 12 - 0xD00) mod 2 ^ 12))
                else (PALRAM, bits 7 0 ((h2f_vram_wraddr + 2 ^ 12 - 0xC00) mod 2 ^ 12))
           else (PATRAM, bits 10 0 ((h2f_vram_wraddr + 2 ^ 12 - 0x400) mod 2 ^ 12))
      else if bits 10 10 h2f_vram_wraddr = 1
           then (PATRAM, bits 10 0 ((h2f_vram_wraddr + 2 ^ 12 - 0x400) mod 2 ^ 12))
           else (TILRAM, bits 9 0 h2f_vram_wraddr))"

definition h2f_write :: "nat \<Rightarrow> nat \<Rightarrow> vram_c \<Rightarrow> vram_c" where
  "h2f_write wraddr wrdata c =
     (case demux wraddr of
        (TILRAM, a) \<Rightarrow> c\<lparr>c_tilram := (c_tilram c)[a := wrdata]\<rparr>
      | (PATRAM, a) \<Rightarrow> c\<lparr>c_patram := (c_patram c)[a := wrdata]\<rparr>
      | (PALRAM, a) \<Rightarrow> c\<lparr>c_palram := (c_palram c)[a := wrdata]\<rparr>
      | (SPRRAM, a) \<Rightarrow> c\<lparr>c_sprram := (c_sprram c)[a := wrdata]\<rparr>)"

text \<open>
  The DMA engine: it reads sixteen bytes and writes them until \<open>length\<close> bytes are done.
  \<open>mem\<close> answers a read of the processor's memory.  The bus gives the write port the address
  in words.
\<close>

function dma_run :: "(nat \<Rightarrow> nat) \<Rightarrow> nat \<Rightarrow> nat \<Rightarrow> nat \<Rightarrow> vram_c \<Rightarrow> vram_c" where
  "dma_run mem readaddress writeaddress len c =
     (if len = 0 then c
      else dma_run mem (readaddress + 16) (writeaddress + 16) (len - 16)
             (h2f_write (writeaddress div 16) (mem readaddress) c))"
  by auto
termination by (relation "measure (\<lambda>(mem, r, w, len, c). len)") auto

declare dma_run.simps [simp del]

definition dma_engine :: "(nat \<Rightarrow> nat) \<Rightarrow> nat \<Rightarrow> vram_c \<Rightarrow> vram_c" where
  "dma_engine mem src_addr c = dma_run mem src_addr 0 0xD140 c"

section \<open>What the DMA engine leaves\<close>

text \<open>Word \<open>a\<close> of the RAM that starts at \<open>base\<close>, in sixteen bytes of the image.\<close>

definition ram128 :: "nat \<Rightarrow> nat \<Rightarrow> u8 list \<Rightarrow> nat" where
  "ram128 base a m = word_num (segment (base + 16 * a) 16 m)"

definition image_vram_c :: "u8 list \<Rightarrow> vram_c" where
  "image_vram_c m = \<lparr>c_tilram = map (\<lambda>a. ram128 0 a m) [0..<1024],
     c_patram = map (\<lambda>a. ram128 0x4000 a m) [0..<2048],
     c_palram = map (\<lambda>a. ram128 0xC000 a m) [0..<256],
     c_sprram = map (\<lambda>a. ram128 0xD000 a m) [0..<20]\<rparr>"

definition vram_c_ok :: "vram_c \<Rightarrow> bool" where
  "vram_c_ok c \<longleftrightarrow> length (c_tilram c) = 1024 \<and> length (c_patram c) = 2048 \<and> length (c_palram c) = 256
     \<and> length (c_sprram c) = 20"

lemma demux_bits:
  assumes "a * 2048 \<le> k" "k < (a + 1) * 2048" and "b * 1024 \<le> k" "k < (b + 1) * 1024"
    and "c * 256 \<le> k" "k < (c + 1) * 256"
  shows "bits 11 11 k = a mod 2" "bits 10 10 k = b mod 2" "bits 8 8 k = c mod 2"
proof -
  have "k div 2048 = a" "k div 1024 = b" "k div 256 = c"
    using assms by (auto intro!: div_nat_eqI simp: mult.commute)
  then show "bits 11 11 k = a mod 2" "bits 10 10 k = b mod 2" "bits 8 8 k = c mod 2"
    by (simp_all add: bits_def)
qed

lemma sub_wrap: "b \<le> k \<Longrightarrow> k < 2 ^ 12 \<Longrightarrow> (k + 2 ^ 12 - b) mod 2 ^ 12 = k - (b :: nat)"
proof -
  assume a: "b \<le> k" "k < 2 ^ 12"
  then have "k + 2 ^ 12 - b = (k - b) + 2 ^ 12" by simp
  also have "\<dots> mod 2 ^ 12 = (k - b) mod 2 ^ 12" by (rule mod_add_self2)
  also have "\<dots> = k - b" using a by (intro mod_less) simp
  finally show ?thesis .
qed

text \<open>Where the demultiplexer sends a word, with the start of each RAM.\<close>

lemma demux_ranges:
  shows "k < 0x400 \<Longrightarrow> demux k = (TILRAM, k)"
    and "0x400 \<le> k \<Longrightarrow> k < 0xC00 \<Longrightarrow> demux k = (PATRAM, k - 0x400)"
    and "0xC00 \<le> k \<Longrightarrow> k < 0xD00 \<Longrightarrow> demux k = (PALRAM, k - 0xC00)"
    and "0xD00 \<le> k \<Longrightarrow> k < 0xD14 \<Longrightarrow> demux k = (SPRRAM, k - 0xD00)"
proof -
  show "demux k = (TILRAM, k)" if "k < 0x400"
  proof -
    have "k div 2048 = 0" "k div 1024 = 0" using that by simp_all
    then show ?thesis using that by (simp add: demux_def bits_def)
  qed
  show "demux k = (PATRAM, k - 0x400)" if "0x400 \<le> k" "k < 0xC00"
  proof (cases "k < 0x800")
    case True
    then have "k div 2048 = 0" "k div 1024 = 1" using that by (auto intro: div_nat_eqI)
    then show ?thesis using that sub_wrap [of "0x400" k] by (simp add: demux_def bits_def)
  next
    case False
    then have "k div 2048 = 1" "k div 1024 = 2" using that by (auto intro: div_nat_eqI)
    then show ?thesis using that sub_wrap [of "0x400" k] by (simp add: demux_def bits_def)
  qed
  show "demux k = (PALRAM, k - 0xC00)" if "0xC00 \<le> k" "k < 0xD00"
  proof -
    have "k div 2048 = 1" "k div 1024 = 3" "k div 256 = 12" using that by (auto intro: div_nat_eqI)
    then show ?thesis using that sub_wrap [of "0xC00" k] by (simp add: demux_def bits_def)
  qed
  show "demux k = (SPRRAM, k - 0xD00)" if "0xD00 \<le> k" "k < 0xD14"
  proof -
    have "k div 2048 = 1" "k div 1024 = 3" "k div 256 = 13" using that by (auto intro: div_nat_eqI)
    then show ?thesis using that sub_wrap [of "0xD00" k] by (simp add: demux_def bits_def)
  qed
qed

definition word_at :: "vram_c \<Rightarrow> nat \<Rightarrow> nat" where
  "word_at c k = (case demux k of (TILRAM, a) \<Rightarrow> c_tilram c ! a | (PATRAM, a) \<Rightarrow> c_patram c ! a
     | (PALRAM, a) \<Rightarrow> c_palram c ! a | (SPRRAM, a) \<Rightarrow> c_sprram c ! a)"

lemma demux_cases:
  assumes "k < 0xD14"
  obtains "k < 0x400" "demux k = (TILRAM, k)" | "0x400 \<le> k" "k < 0xC00" "demux k = (PATRAM, k - 0x400)"
    | "0xC00 \<le> k" "k < 0xD00" "demux k = (PALRAM, k - 0xC00)"
    | "0xD00 \<le> k" "k < 0xD14" "demux k = (SPRRAM, k - 0xD00)"
  using assms demux_ranges [of k] by linarith

lemma h2f_write_ok: "vram_c_ok c \<Longrightarrow> vram_c_ok (h2f_write k w c)"
  by (auto simp: h2f_write_def vram_c_ok_def split: prod.split vram_select.split)

lemma word_at_write:
  assumes c: "vram_c_ok c" and j: "j < 0xD14" and k: "k < 0xD14"
  shows "word_at (h2f_write k w c) j = (if j = k then w else word_at c j)"
  using j
proof (cases rule: demux_cases)
  case 1 with k c show ?thesis by (cases rule: demux_cases) (auto simp: word_at_def h2f_write_def vram_c_ok_def nth_list_update)
next
  case 2 with k c show ?thesis by (cases rule: demux_cases) (auto simp: word_at_def h2f_write_def vram_c_ok_def nth_list_update)
next
  case 3 with k c show ?thesis by (cases rule: demux_cases) (auto simp: word_at_def h2f_write_def vram_c_ok_def nth_list_update)
next
  case 4 with k c show ?thesis by (cases rule: demux_cases) (auto simp: word_at_def h2f_write_def vram_c_ok_def nth_list_update)
qed

lemma dma_run_fold:
  "dma_run mem (src + 16 * k) (16 * k) (16 * n) c = fold (\<lambda>i. h2f_write i (mem (src + 16 * i))) [k..<k + n] c"
proof (induction n arbitrary: k c)
  case 0
  show ?case by (simp add: dma_run.simps)
next
  case (Suc n)
  have "dma_run mem (src + 16 * k) (16 * k) (16 * Suc n) c
      = dma_run mem (src + 16 * Suc k) (16 * Suc k) (16 * n) (h2f_write k (mem (src + 16 * k)) c)"
    by (subst dma_run.simps) (simp add: ac_simps)
  also have "\<dots> = fold (\<lambda>i. h2f_write i (mem (src + 16 * i))) [Suc k..<Suc k + n] (h2f_write k (mem (src + 16 * k)) c)"
    by (rule Suc.IH)
  also have "\<dots> = fold (\<lambda>i. h2f_write i (mem (src + 16 * i))) [k..<k + Suc n] c"
    by (simp add: upt_conv_Cons del: upt_Suc)
  finally show ?case .
qed

lemma writes_word_at:
  assumes "vram_c_ok c"
  shows "n \<le> 0xD14 \<Longrightarrow> vram_c_ok (fold (\<lambda>i. h2f_write i (f i)) [0..<n] c)
    \<and> (\<forall>j < 0xD14. word_at (fold (\<lambda>i. h2f_write i (f i)) [0..<n] c) j = (if j < n then f j else word_at c j))"
  by (induction n) (auto simp: assms h2f_write_ok word_at_write less_Suc_eq)

text \<open>The processor's memory: the image at an address.\<close>

definition image_mem :: "nat \<Rightarrow> u8 list \<Rightarrow> nat \<Rightarrow> nat" where
  "image_mem src m a = word_num (segment (a - src) 16 m)"

lemma word_at_nth:
  assumes "vram_c_ok c"
  shows "a < 1024 \<Longrightarrow> c_tilram c ! a = word_at c a"
    and "a < 2048 \<Longrightarrow> c_patram c ! a = word_at c (0x400 + a)"
    and "a < 256 \<Longrightarrow> c_palram c ! a = word_at c (0xC00 + a)"
    and "a < 20 \<Longrightarrow> c_sprram c ! a = word_at c (0xD00 + a)"
  by (simp_all add: word_at_def demux_ranges)

lemma dma_engine_image:
  assumes c: "vram_c_ok c"
  shows "dma_engine (image_mem src m) src c = image_vram_c m"
proof -
  let ?f = "\<lambda>i. word_num (segment (16 * i) 16 m)"
  define c' where "c' = fold (\<lambda>i. h2f_write i (?f i)) [0..<0xD14] c"
  have run: "dma_engine (image_mem src m) src c = c'"
    using dma_run_fold [of "image_mem src m" src 0 "0xD14" c]
    by (simp add: dma_engine_def c'_def image_mem_def)
  have ok: "vram_c_ok c'" and w: "j < 0xD14 \<Longrightarrow> word_at c' j = ?f j" for j
    using writes_word_at [OF c, of "0xD14" ?f] unfolding c'_def by auto
  note len = ok [unfolded vram_c_ok_def]
  have "c_tilram c' = c_tilram (image_vram_c m)"
    by (rule nth_equalityI) (use len in \<open>simp_all add: image_vram_c_def word_at_nth [OF ok] w ram128_def\<close>)
  moreover have "c_patram c' = c_patram (image_vram_c m)"
    by (rule nth_equalityI) (use len in \<open>simp_all add: image_vram_c_def word_at_nth [OF ok] w ram128_def\<close>)
  moreover have "c_palram c' = c_palram (image_vram_c m)"
    by (rule nth_equalityI) (use len in \<open>simp_all add: image_vram_c_def word_at_nth [OF ok] w ram128_def\<close>)
  moreover have "c_sprram c' = c_sprram (image_vram_c m)"
    by (rule nth_equalityI) (use len in \<open>simp_all add: image_vram_c_def word_at_nth [OF ok] w ram128_def\<close>)
  ultimately show ?thesis unfolding run by (cases c') (simp add: image_vram_c_def)
qed

section \<open>The sync writer\<close>

text \<open>A word of 128 bits is written through two ports of 64.\<close>

definition store_halves :: "nat \<Rightarrow> nat \<Rightarrow> nat list \<Rightarrow> nat list" where
  "store_halves a w d = d[2 * a := bits 63 0 w, 2 * a + 1 := bits 127 64 w]"

lemma nth_update_at: "j < length xs \<Longrightarrow> xs[i := x] ! j = (if i = j then x else xs ! j)"
  by (cases "i = j") simp_all

interpretation halves: write_port store_halves "\<lambda>d. True" n for n
  by unfold_locales (auto intro!: nth_equalityI simp: store_halves_def nth_update_at)

record vram_sync_writer =
  vs_sync :: bool
  vs_dones :: "bool list"
  vs_copiers :: "(nat, nat list) copier list"

text \<open>The last address of each of the four RAMs.\<close>

definition sync_max :: "nat list" where
  "sync_max = [1023, 2047, 255, 19]"

definition c_rams :: "vram_c \<Rightarrow> nat list list" where
  "c_rams c = [c_tilram c, c_patram c, c_palram c, c_sprram c]"

definition vs_done :: "vram_sync_writer \<Rightarrow> bool" where
  "vs_done v \<longleftrightarrow> list_all id (vs_dones v)"

definition vram_sync_writer_step :: "vram_c \<Rightarrow> bool \<Rightarrow> vram_sync_writer \<Rightarrow> vram_sync_writer" where
  "vram_sync_writer_step c sync v =
     \<lparr>vs_sync = (if vs_sync v then \<not> vs_done v else sync),
      vs_dones = (if vs_sync v
                  then if vs_done v then replicate 4 False
                       else map (\<lambda>i. vs_dones v ! i \<or> sw_done (cp_sw (vs_copiers v ! i))) [0..<4]
                  else vs_dones v),
      vs_copiers = map (\<lambda>i. copier_step (sync_max ! i) ((!) (c_rams c ! i)) id store_halves (sync, False)
                              (vs_copiers v ! i)) [0..<4]\<rparr>"

definition vs_idle :: "vram_sync_writer \<Rightarrow> bool" where
  "vs_idle v \<longleftrightarrow> \<not> vs_sync v \<and> vs_dones v = replicate 4 False
     \<and> (\<forall>i < 4. \<not> sw_sync (cp_sw (vs_copiers v ! i)) \<and> \<not> sw_wren (cp_sw (vs_copiers v ! i)))"

text \<open>The RAMs on the other side, and what they hold after a copy.\<close>

definition p_rams :: "vram_sync_writer \<Rightarrow> vram_p" where
  "p_rams v = \<lparr>p_tilram = cp_dest (vs_copiers v ! 0), p_patram = cp_dest (vs_copiers v ! 1),
     p_palram = cp_dest (vs_copiers v ! 2), p_sprram = cp_dest (vs_copiers v ! 3)\<rparr>"

lemma copied_halves:
  "length d = 2 * length ws \<Longrightarrow> k \<le> length ws \<Longrightarrow>
   length (copied store_halves ((!) ws) k d) = 2 * length ws \<and>
   (\<forall>i < 2 * length ws. copied store_halves ((!) ws) k d ! i = (if i < 2 * k then wide_read 2 64 ws ! i else d ! i))"
proof (induction k)
  case (Suc k)
  have h: "wide_read 2 64 ws ! (2 * k) = bits 63 0 (ws ! k)" "wide_read 2 64 ws ! Suc (2 * k) = bits 127 64 (ws ! k)"
    using Suc.prems by (simp_all add: nth_wide_read parts_def)
  show ?case
    using Suc h by (auto simp: store_halves_def nth_list_update less_Suc_eq)
qed simp

lemma copied_halves_all:
  assumes "length d = 2 * length ws"
  shows "copied store_halves ((!) ws) (length ws) d = wide_read 2 64 ws"
  by (rule nth_equalityI) (use copied_halves [OF assms order_refl] in auto)

lemma halves_of_128: "wide_read 2 64 (map (\<lambda>a. ram128 base a m) [0..<n]) = map (\<lambda>a. ram64 base a m) [0..<2 * n]"
proof (rule nth_equalityI)
  fix i assume "i < length (wide_read 2 64 (map (\<lambda>a. ram128 base a m) [0..<n]))"
  then have i: "i < 2 * n" by simp
  then have "i div 2 < n" by (simp add: less_mult_imp_div_less mult.commute)
  then have "wide_read 2 64 (map (\<lambda>a. ram128 base a m) [0..<n]) ! i
      = word_num (segment (base + 16 * (i div 2)) 16 m) div 2 ^ (8 * (8 * (i mod 2))) mod 2 ^ (8 * 8)"
    using i by (simp add: nth_wide_read nth_parts ram128_def mult.assoc)
  also have "\<dots> = word_num (segment (base + 16 * (i div 2) + 8 * (i mod 2)) 8 m)"
    using mod2_eq_if [of i] by (simp only: word_num_segment) (subst segment_segment, auto)
  also have "base + 16 * (i div 2) + 8 * (i mod 2) = base + 8 * i"
  proof -
    have "2 * (i div 2) + i mod 2 = i" by simp
    then show ?thesis by linarith
  qed
  finally show "wide_read 2 64 (map (\<lambda>a. ram128 base a m) [0..<n]) ! i = map (\<lambda>a. ram64 base a m) [0..<2 * n] ! i"
    using i by (simp add: ram64_def)
qed simp

section \<open>The whole synchronisation\<close>

definition vs_copier :: "vram_c \<Rightarrow> nat \<Rightarrow> bool \<Rightarrow> (nat, nat list) copier \<Rightarrow> (nat, nat list) copier" where
  "vs_copier c i sync = copier_step (sync_max ! i) ((!) (c_rams c ! i)) id store_halves (sync, False)"

text \<open>One pulse of \<open>sync\<close> and then \<open>j\<close> cycles.\<close>

definition vs_run :: "vram_c \<Rightarrow> nat \<Rightarrow> vram_sync_writer \<Rightarrow> vram_sync_writer" where
  "vs_run c j v = (vram_sync_writer_step c False ^^ j) (vram_sync_writer_step c True v)"

lemma vs_run_Suc: "vs_run c (Suc j) v = vram_sync_writer_step c False (vs_run c j v)"
  by (simp add: vs_run_def)

lemma vs_copiers_run:
  "vs_copiers (vs_run c j v) = map (\<lambda>i. (vs_copier c i False ^^ j) (vs_copier c i True (vs_copiers v ! i))) [0..<4]"
  by (induction j) (simp_all add: vs_run_def vram_sync_writer_step_def vs_copier_def)

lemma vs_copiers_nth:
  "i < 4 \<Longrightarrow> vs_copiers (vs_run c j v) ! i = (vs_copier c i False ^^ j) (vs_copier c i True (vs_copiers v ! i))"
  by (simp add: vs_copiers_run del: upt_Suc)

lemma upt4: "[0..<4] = [0, 1, 2, 3]"
  by (simp add: upt_rec)

lemma sync_max_nth: "sync_max ! 0 = 1023" "sync_max ! 1 = 2047" "sync_max ! Suc 0 = 2047" "sync_max ! 2 = 255"
  "sync_max ! 3 = 19"
  by (simp_all add: sync_max_def)

lemma sync_max_bounds: "i < 4 \<Longrightarrow> 0 < sync_max ! i \<and> sync_max ! i \<le> 2047"
  by (auto simp: sync_max_def nth_Cons' less_Suc_eq numeral_eq_Suc)

lemma vs_copier_run:
  assumes v: "vs_idle v" and i: "i < 4"
  shows "j \<le> sync_max ! i + 2 \<Longrightarrow> \<not> sw_done (cp_sw (vs_copiers (vs_run c j v) ! i))"
    and "sync_max ! i + 3 \<le> j \<Longrightarrow>
      \<not> sw_sync (cp_sw (vs_copiers (vs_run c j v) ! i)) \<and> \<not> sw_wren (cp_sw (vs_copiers (vs_run c j v) ! i))
      \<and> sw_done (cp_sw (vs_copiers (vs_run c j v) ! i))
      \<and> cp_dest (vs_copiers (vs_run c j v) ! i)
          = copied store_halves ((!) (c_rams c ! i)) (sync_max ! i + 1) (cp_dest (vs_copiers v ! i))"
proof -
  have idle: "\<not> sw_sync (cp_sw (vs_copiers v ! i))" "\<not> sw_wren (cp_sw (vs_copiers v ! i))"
    using v i by (simp_all add: vs_idle_def)
  have b: "0 < sync_max ! i" "sync_max ! i < 2048" using sync_max_bounds [OF i] by auto
  show "\<not> sw_done (cp_sw (vs_copiers (vs_run c j v) ! i))" if "j \<le> sync_max ! i + 2"
    using halves.copier_busy [OF idle TrueI b that] by (simp add: vs_copiers_nth [OF i] vs_copier_def)
  show "\<not> sw_sync (cp_sw (vs_copiers (vs_run c j v) ! i)) \<and> \<not> sw_wren (cp_sw (vs_copiers (vs_run c j v) ! i))
      \<and> sw_done (cp_sw (vs_copiers (vs_run c j v) ! i))
      \<and> cp_dest (vs_copiers (vs_run c j v) ! i)
          = copied store_halves ((!) (c_rams c ! i)) (sync_max ! i + 1) (cp_dest (vs_copiers v ! i))"
    if "sync_max ! i + 3 \<le> j"
    using halves.copier_finished [OF idle TrueI b that refl, of "(!) (c_rams c ! i)" id False]
    by (simp add: vs_copiers_nth [OF i] vs_copier_def)
qed

lemma vs_flags:
  assumes v: "vs_idle v"
  shows "j \<le> 2051 \<Longrightarrow> vs_sync (vs_run c j v) \<and> vs_dones (vs_run c j v) = map (\<lambda>i. sync_max ! i + 4 \<le> j) [0..<4]"
proof (induction j)
  case 0
  show ?case using v by (simp add: vs_run_def vram_sync_writer_step_def vs_idle_def numeral_eq_Suc)
next
  case (Suc j)
  then have IH: "vs_sync (vs_run c j v)" "vs_dones (vs_run c j v) = map (\<lambda>i. sync_max ! i + 4 \<le> j) [0..<4]" by simp_all
  have nd: "\<not> vs_done (vs_run c j v)"
    using Suc.prems by (simp add: vs_done_def IH(2) upt4 sync_max_nth)
  have "(sync_max ! i + 4 \<le> j \<or> sw_done (cp_sw (vs_copiers (vs_run c j v) ! i))) = (sync_max ! i + 4 \<le> Suc j)"
    if "i < 4" for i
    using vs_copier_run [OF v that, of j c] by (cases "j \<le> sync_max ! i + 2") auto
  then show ?case
    using IH nd by (simp add: vs_run_Suc vram_sync_writer_step_def del: upt_Suc cong: map_cong)
qed

definition vram_p_ok :: "vram_p \<Rightarrow> bool" where
  "vram_p_ok r \<longleftrightarrow> length (p_tilram r) = 2048 \<and> length (p_patram r) = 4096 \<and> length (p_palram r) = 512
     \<and> length (p_sprram r) = 40"

lemma vs_run_rams:
  assumes v: "vs_idle v" "vram_p_ok (p_rams v)" and c: "vram_c_ok c" and j: "2050 \<le> j"
  shows "p_rams (vs_run c j v) = \<lparr>p_tilram = wide_read 2 64 (c_tilram c), p_patram = wide_read 2 64 (c_patram c),
    p_palram = wide_read 2 64 (c_palram c), p_sprram = wide_read 2 64 (c_sprram c)\<rparr>"
proof -
  have "cp_dest (vs_copiers (vs_run c j v) ! i) = wide_read 2 64 (c_rams c ! i)"
    if i: "i < 4" and len: "length (cp_dest (vs_copiers v ! i)) = 2 * length (c_rams c ! i)"
      and full: "length (c_rams c ! i) = sync_max ! i + 1" for i
    using vs_copier_run(2) [OF v(1) i, of j c] sync_max_bounds [OF i] j copied_halves_all [OF len] full by simp
  from this [of 0] this [of 1] this [of 2] this [of 3] show ?thesis
    using v(2) c by (simp add: p_rams_def vram_p_ok_def vram_c_ok_def c_rams_def sync_max_def)
qed

lemma image_vram_c_halves:
  "\<lparr>p_tilram = wide_read 2 64 (c_tilram (image_vram_c m)), p_patram = wide_read 2 64 (c_patram (image_vram_c m)),
    p_palram = wide_read 2 64 (c_palram (image_vram_c m)), p_sprram = wide_read 2 64 (c_sprram (image_vram_c m))\<rparr>
   = image_vram m"
  by (simp add: image_vram_c_def image_vram_def halves_of_128)

lemma image_vram_c_ok: "vram_c_ok (image_vram_c m)"
  by (simp add: vram_c_ok_def image_vram_c_def)

lemma vs_done_run:
  assumes "vs_idle v"
  shows "j \<le> 2051 \<Longrightarrow> vs_done (vs_run c j v) \<longleftrightarrow> j = 2051"
  using vs_flags [OF assms, of j c] by (auto simp: vs_done_def upt4 sync_max_nth)

lemma vs_rest:
  assumes v: "vs_idle v"
  shows "vs_idle (vs_run c 2052 v)"
proof -
  have "vs_run c 2052 v = vram_sync_writer_step c False (vs_run c 2051 v)"
    using vs_run_Suc [of c 2051 v] by simp
  then have "\<not> vs_sync (vs_run c 2052 v)" "vs_dones (vs_run c 2052 v) = replicate 4 False"
    using vs_flags [OF v, of 2051 c] vs_done_run [OF v, of 2051 c] by (simp_all add: vram_sync_writer_step_def)
  moreover have "\<forall>i < 4. \<not> sw_sync (cp_sw (vs_copiers (vs_run c 2052 v) ! i))
      \<and> \<not> sw_wren (cp_sw (vs_copiers (vs_run c 2052 v) ! i))"
    using vs_copier_run(2) [OF v, of _ 2052 c] sync_max_bounds by fastforce
  ultimately show ?thesis by (simp add: vs_idle_def)
qed

text \<open>C13. When the DMA engine has run and the sync writer is started at rest,
  the writer reports that it is done 2051 cycles after the pulse and not before; then the four
  RAMs of the drawing circuits hold exactly the image that lies in memory, whatever either
  side held, and a cycle later the writer is at rest again.\<close>

theorem vram_transfer_exact:
  assumes v: "vs_idle v" "vram_p_ok (p_rams v)" and c: "vram_c_ok c"
  shows "let c' = dma_engine (image_mem src m) src c
    in (\<forall>j < 2051. \<not> vs_done (vs_run c' j v)) \<and> vs_done (vs_run c' 2051 v)
      \<and> p_rams (vs_run c' 2051 v) = image_vram m \<and> vs_idle (vs_run c' 2052 v)"
proof -
  have c': "dma_engine (image_mem src m) src c = image_vram_c m" by (rule dma_engine_image [OF c])
  show ?thesis
    using vs_done_run [OF v(1)] vs_rest [OF v(1)] vs_run_rams [OF v, of "image_vram_c m" 2051] image_vram_c_ok
    by (simp add: c' image_vram_c_halves)
qed

definition demo_vs :: vram_sync_writer where
  "demo_vs = \<lparr>vs_sync = False, vs_dones = replicate 4 False,
     vs_copiers = map (\<lambda>n. \<lparr>cp_sw = \<lparr>sw_sync = False, sw_done = False, sw_from = 0, sw_to = 0, sw_to_buf = 0,
                                      sw_wren = False\<rparr>,
                             cp_port = \<lparr>rp_addr = 0, rp_q = 0\<rparr>, cp_dest = replicate n 7\<rparr>)
                    [2048, 4096, 512, 40]\<rparr>"

definition demo_c :: vram_c where
  "demo_c = \<lparr>c_tilram = replicate 1024 5, c_patram = replicate 2048 5, c_palram = replicate 256 5,
     c_sprram = replicate 20 5\<rparr>"

theorem vram_transfer_exact_witness:
  "p_rams (vs_run (dma_engine (image_mem 0x2000 (zeros VRAM_SIZE)) 0x2000 demo_c) 2051 demo_vs)
     = image_vram (zeros VRAM_SIZE)"
proof -
  have "vs_idle demo_vs" by (simp add: vs_idle_def demo_vs_def less_Suc_eq numeral_eq_Suc)
  moreover have "vram_p_ok (p_rams demo_vs)" by (simp add: vram_p_ok_def p_rams_def demo_vs_def)
  moreover have "vram_c_ok demo_c" by (simp add: vram_c_ok_def demo_c_def)
  ultimately show ?thesis
    using vram_transfer_exact [of demo_vs demo_c "0x2000" "zeros VRAM_SIZE"] by (simp add: Let_def)
qed

end
