(* ===== verification/TileEngine.thy ===== *)
theory TileEngine
  imports HwRam
begin

text \<open>
  The tile engine of the drawing circuits, \<^verbatim>\<open>tile_engine.sv\<close>: its scroll
  arithmetic, the two row buffers it fills before a line is drawn, and the pixel it answers
  with.  The last section states what the pixel should be, in terms of the layer, the
  patterns and the scroll register, and proves that it is.
\<close>

section \<open>Scrolling\<close>

definition scroll_x :: "nat \<Rightarrow> nat" where
  "scroll_x scroll = bits 8 0 scroll"

definition scroll_y :: "nat \<Rightarrow> nat" where
  "scroll_y scroll = bits 24 16 scroll"

definition pixelrow :: "nat \<Rightarrow> nat \<Rightarrow> nat" where
  "pixelrow scroll next_row = (scroll_y scroll + next_row) mod 2 ^ 9"

section \<open>The tile row buffer\<close>

text \<open>\<open>{FG, tilerow, tilechunk}\<close>, where the chunk counter overflows.\<close>

definition tilram_addr :: "nat \<Rightarrow> nat \<Rightarrow> nat \<Rightarrow> nat \<Rightarrow> nat" where
  "tilram_addr FG scroll next_row partaddr =
     FG * 2 ^ 10 + bits 8 3 (pixelrow scroll next_row) * 2 ^ 4
       + (bits 5 2 (bits 8 3 (scroll_x scroll)) + partaddr) mod 2 ^ 4"

text \<open>Eleven words of 64 bits, read as 44 entries of 16.\<close>

definition tilram_rbuf :: "nat \<Rightarrow> nat \<Rightarrow> nat \<Rightarrow> vram_p \<Rightarrow> nat list" where
  "tilram_rbuf FG scroll next_row ram =
     wide_read 4 16 (map (\<lambda>p. p_tilram ram ! tilram_addr FG scroll next_row p) [0..<11])"

section \<open>The pattern row buffer\<close>

definition patram_addr :: "nat \<Rightarrow> nat \<Rightarrow> nat" where
  "patram_addr pxr entry =
     bits 15 6 entry * 2 ^ 2
       + (if bits 1 1 entry = 1 then 2 ^ 2 - 1 - bits 2 1 pxr else bits 2 1 pxr)"

text \<open>The sixteen pixels of two rows, lowest bits first, after mirroring.\<close>

definition mirrored :: "nat \<Rightarrow> nat list \<Rightarrow> nat list" where
  "mirrored entry px =
     (if bits 1 1 entry = 1
      then (if bits 0 0 entry = 1 then map ((!) px) [15, 14, 13, 12, 11, 10, 9, 8, 7, 6, 5, 4, 3, 2, 1, 0]
            else map ((!) px) [8, 9, 10, 11, 12, 13, 14, 15, 0, 1, 2, 3, 4, 5, 6, 7])
      else (if bits 0 0 entry = 1 then map ((!) px) [7, 6, 5, 4, 3, 2, 1, 0, 15, 14, 13, 12, 11, 10, 9, 8]
            else px))"

definition patram_slice :: "nat \<Rightarrow> vram_p \<Rightarrow> nat \<Rightarrow> nat list" where
  "patram_slice pxr ram entry = mirrored entry (parts 16 4 (p_patram ram ! patram_addr pxr entry))"

definition patram_rbuf :: "nat \<Rightarrow> nat \<Rightarrow> nat \<Rightarrow> vram_p \<Rightarrow> nat list" where
  "patram_rbuf FG scroll next_row ram =
     concat (map (patram_slice (pixelrow scroll next_row) ram) (tilram_rbuf FG scroll next_row ram))"

section \<open>The pixel\<close>

text \<open>The addresses the pixel mixer's column reads in the two buffers, and the answer.\<close>

definition pmxr_rdaddr :: "nat \<Rightarrow> nat \<Rightarrow> nat \<Rightarrow> nat" where
  "pmxr_rdaddr scroll pxr pmxr_pixel_addr =
     (let sx = scroll_x scroll;
          pixel_addr = (pmxr_pixel_addr + bits 2 0 sx) mod 2 ^ 9;
          tile_addr = (bits 1 0 (bits 8 3 sx) + bits 8 3 pixel_addr) mod 2 ^ 6
      in tile_addr * 2 ^ 4 + bits 0 0 pxr * 2 ^ 3 + bits 2 0 pixel_addr)"

definition pmxr_tile_addr :: "nat \<Rightarrow> nat \<Rightarrow> nat" where
  "pmxr_tile_addr scroll pmxr_pixel_addr =
     bits 8 3 ((pmxr_pixel_addr + scroll_x scroll mod 2 ^ 5) mod 2 ^ 9)"

definition pmxr_pixel_data :: "bool \<Rightarrow> nat \<Rightarrow> nat \<Rightarrow> nat" where
  "pmxr_pixel_data enable entry color = (if enable then bits 5 2 entry * 2 ^ 4 + color else 0)"

text \<open>\<open>trb\<close> and \<open>prb\<close> are the buffers.  The answer is the palette and the colour in it.\<close>

definition te_pixel :: "nat \<Rightarrow> bool \<Rightarrow> nat \<Rightarrow> nat list \<Rightarrow> nat list \<Rightarrow> nat \<Rightarrow> nat" where
  "te_pixel scroll enable pxr trb prb col =
     pmxr_pixel_data enable (trb ! pmxr_tile_addr scroll col) (prb ! pmxr_rdaddr scroll pxr col)"

definition tile_engine :: "nat \<Rightarrow> nat \<Rightarrow> bool \<Rightarrow> vram_p \<Rightarrow> nat \<Rightarrow> nat \<Rightarrow> nat" where
  "tile_engine FG scroll enable ram next_row col =
     te_pixel scroll enable (pixelrow scroll next_row) (tilram_rbuf FG scroll next_row ram)
       (patram_rbuf FG scroll next_row ram) col"

section \<open>What a tile layer looks like\<close>

text \<open>The fields of a tile, and the pixels of a pattern cell.\<close>

definition tile_pattern :: "tile_t \<Rightarrow> nat" where
  "tile_pattern t = unat t div 64"

definition tile_palette :: "tile_t \<Rightarrow> nat" where
  "tile_palette t = unat t div 4 mod 16"

definition tile_mirror_x :: "tile_t \<Rightarrow> bool" where
  "tile_mirror_x t \<longleftrightarrow> unat t mod 2 = 1"

definition tile_mirror_y :: "tile_t \<Rightarrow> bool" where
  "tile_mirror_y t \<longleftrightarrow> unat t div 2 mod 2 = 1"

definition pattern_pixel :: "nat \<Rightarrow> nat \<Rightarrow> nat \<Rightarrow> u8 list \<Rightarrow> nat" where
  "pattern_pixel p x y m = nib (pattern_at (p mod 32) (p div 32) m) (8 * y + x)"

definition flip :: "bool \<Rightarrow> nat \<Rightarrow> nat \<Rightarrow> nat" where
  "flip b n x = (if b then n - 1 - x else x)"

text \<open>
  The layer is a picture of 512 by 512 pixels that repeats in both directions; \<open>x\<close> and \<open>y\<close>
  are coordinates in it.
\<close>

definition layer_pixel :: "layer_e \<Rightarrow> u8 list \<Rightarrow> nat \<Rightarrow> nat \<Rightarrow> nat \<times> nat" where
  "layer_pixel layer m x y =
     (let t = tile_at layer (x div 8) (y div 8) m
      in (tile_palette t, pattern_pixel (tile_pattern t) (flip (tile_mirror_x t) 8 (x mod 8))
            (flip (tile_mirror_y t) 8 (y mod 8)) m))"

lemma mod_quarter: "8 * (2 * (t mod 4)) \<le> (48 :: nat)"
proof -
  have "t mod 4 < 4" by simp
  then show ?thesis by linarith
qed

lemma mod_quad: "r < 4 \<Longrightarrow> (4 * n + r) mod 64 = 4 * (n mod 16) + (r :: nat)"
  using mod_mult2_eq [of "4 * n + r" 4 16] by simp

definition te_layer :: "nat \<Rightarrow> layer_e" where
  "te_layer FG = (if FG = 1 then LAYER_FG else LAYER_BG)"

lemma te_layer_base: "FG < 2 \<Longrightarrow> layer_base (te_layer FG) = FG * 0x2000"
  by (auto simp: te_layer_def layer_base_def less_2_cases_iff)

lemma entry_tile:
  assumes m: "length m = VRAM_SIZE" and t: "t < 44" and FG: "FG < 2"
  shows "tilram_rbuf FG scroll next_row (image_vram m) ! t
    = unat (tile_at (te_layer FG) ((4 * (scroll_x scroll div 32) + t) mod 64) (pixelrow scroll next_row div 8) m)"
proof -
  let ?c = "(scroll_x scroll div 32 + t div 4) mod 16" and ?y = "pixelrow scroll next_row div 8"
  have y: "?y < 64" by (simp add: pixelrow_def less_mult_imp_div_less)
  have sx: "bits 5 2 (bits 8 3 (scroll_x scroll)) = scroll_x scroll div 32"
    by (simp add: bits_def scroll_x_def div_mult2_eq [symmetric] less_mult_imp_div_less)
  have a: "tilram_addr FG scroll next_row (t div 4) = FG * 1024 + ?y * 16 + ?c"
    using y by (simp add: tilram_addr_def sx) (simp add: bits_def)
  have a_less: "FG * 1024 + ?y * 16 + ?c < 2048" using y FG by linarith
  have x: "(4 * (scroll_x scroll div 32) + t) mod 64 = 4 * ?c + t mod 4"
  proof -
    have "4 * (scroll_x scroll div 32) + t = 4 * (scroll_x scroll div 32 + t div 4) + t mod 4" by simp
    also have "\<dots> mod 64 = 4 * ?c + t mod 4" by (rule mod_quad) simp
    finally show ?thesis .
  qed
  have "tilram_rbuf FG scroll next_row (image_vram m) ! t
      = ram64 0 (FG * 1024 + ?y * 16 + ?c) m div 2 ^ (8 * (2 * (t mod 4))) mod 2 ^ (8 * 2)"
    using t a_less less_mult_imp_div_less [of t 11 4] by (simp add: tilram_rbuf_def nth_wide_read nth_parts a image_vram_nth mult.assoc)
  also have "\<dots> = word_num (segment (8 * (FG * 1024 + ?y * 16 + ?c) + 2 * (t mod 4)) 2 m)"
    by (subst ram64_part) (simp_all add: mod_quarter)
  also have "8 * (FG * 1024 + ?y * 16 + ?c) + 2 * (t mod 4)
      = layer_base (te_layer FG) + 2 * (64 * ?y + (4 * ?c + t mod 4))"
    by (simp add: te_layer_base [OF FG])
  also have "word_num (segment (layer_base (te_layer FG) + 2 * (64 * ?y + (4 * ?c + t mod 4))) 2 m)
      = unat (tile_at (te_layer FG) (4 * ?c + t mod 4) ?y m)"
  proof -
    have "?c < 16" "t mod 4 < 4" by simp_all
    then have "64 * ?y + (4 * ?c + t mod 4) < 4096" using y by linarith
    moreover have "layer_base (te_layer FG) + 2 * k + 2 \<le> length m" if "k < 4096" for k
      using m layer_base_le [of "te_layer FG"] that by linarith
    ultimately show ?thesis unfolding tile_at_def by (intro word_num_un16 length_segment) blast
  qed
  finally show ?thesis unfolding x .
qed

lemma flip_less: "x < n \<Longrightarrow> flip b n x < n"
  by (auto simp: flip_def)

lemma unat_tile_less: "unat (t :: tile_t) < 65536"
  using unsigned_less [of t, where 'a = nat] by simp

lemma nth_mirrored:
  assumes "b < 2" and "i < 8"
  shows "mirrored e px ! (8 * b + i)
    = px ! ((if e div 2 mod 2 = 1 then 8 - 8 * b else 8 * b) + flip (e mod 2 = 1) 8 i)"
proof -
  have b: "b = 0 \<or> b = 1" using assms(1) by auto
  have i: "i = 0 \<or> i = 1 \<or> i = 2 \<or> i = 3 \<or> i = 4 \<or> i = 5 \<or> i = 6 \<or> i = 7" using assms(2) by auto
  show ?thesis
    using b i by (elim disjE) (simp_all add: mirrored_def flip_def bits_def numeral_2_eq_2)
qed

lemma slice_pixel:
  assumes m: "length m = VRAM_SIZE" and px: "px < 8"
  shows "patram_slice pxr (image_vram m) (unat t) ! (8 * (pxr mod 2) + px)
    = pattern_pixel (tile_pattern t) (flip (tile_mirror_x t) 8 px) (flip (tile_mirror_y t) 8 (pxr mod 8)) m"
proof -
  let ?o = "pxr div 2 mod 4" and ?p = "tile_pattern t"
  define o' where "o' = (if tile_mirror_y t then 3 - ?o else ?o)"
  have "?o < 4" by simp
  then have o': "o' < 4" unfolding o'_def by (simp add: less_imp_diff_less)
  have p: "?p < 1024" using unat_tile_less [of t] by (simp add: tile_pattern_def less_mult_imp_div_less)
  have a: "patram_addr pxr (unat t) = ?p * 4 + o'"
    using p by (simp add: patram_addr_def bits_def o'_def tile_pattern_def tile_mirror_y_def)
  have nibs: "parts 16 4 (p_patram (image_vram m) ! patram_addr pxr (unat t)) ! i
      = nib (pattern_at (?p mod 32) (?p div 32) m) (16 * o' + i)" if i: "i < 16" for i
  proof -
    have "parts 16 4 (p_patram (image_vram m) ! patram_addr pxr (unat t)) ! i
        = word_num (segment (0x4000 + 8 * (?p * 4 + o')) 8 m) div 2 ^ (4 * i) mod 16"
      using i o' p by (simp add: nth_parts a image_vram_nth ram64_def)
    also have "segment (0x4000 + 8 * (?p * 4 + o')) 8 m = segment (8 * o') 8 (pattern_at (?p mod 32) (?p div 32) m)"
      using o' by (simp add: pattern_at_def segment_segment algebra_simps)
    also have "word_num \<dots> div 2 ^ (4 * i) mod 16 = nib \<dots> i"
      using i o' p m by (intro word_num_nib) (simp add: pattern_at_def)
    also have "\<dots> = nib (pattern_at (?p mod 32) (?p div 32) m) (16 * o' + i)"
    proof -
      have h: "(16 * o' + i) div 2 = 8 * o' + i div 2" "(16 * o' + i) mod 2 = i mod 2" by presburger+
      show ?thesis using i o' p m by (simp only: nib_def h) (simp add: nth_segment pattern_at_def)
    qed
    finally show ?thesis .
  qed
  have "pxr mod 8 = 2 * ?o + pxr mod 2" using mod_mult2_eq [of pxr 2 4] by simp
  moreover have "pxr mod 2 = 0 \<or> pxr mod 2 = 1" by presburger
  ultimately have idx: "16 * o' + (if tile_mirror_y t then 8 - 8 * (pxr mod 2) else 8 * (pxr mod 2))
      = 8 * flip (tile_mirror_y t) 8 (pxr mod 8)"
    using \<open>?o < 4\<close> by (auto simp: o'_def flip_def diff_mult_distrib2)
  have px': "flip (tile_mirror_x t) 8 px < 8" using px by (rule flip_less)
  have "patram_slice pxr (image_vram m) (unat t) ! (8 * (pxr mod 2) + px)
      = parts 16 4 (p_patram (image_vram m) ! patram_addr pxr (unat t))
          ! ((if tile_mirror_y t then 8 - 8 * (pxr mod 2) else 8 * (pxr mod 2)) + flip (tile_mirror_x t) 8 px)"
    using px by (simp add: patram_slice_def nth_mirrored tile_mirror_x_def tile_mirror_y_def)
  also have "\<dots> = nib (pattern_at (?p mod 32) (?p div 32) m)
      (8 * flip (tile_mirror_y t) 8 (pxr mod 8) + flip (tile_mirror_x t) 8 px)"
    using px' unfolding idx [symmetric] by (subst nibs) (auto simp: add.assoc)
  finally show ?thesis by (simp add: pattern_pixel_def)
qed

lemma mod_div_swap: "(a :: nat) mod (b * c) div b = a div b mod c"
  by (cases "b = 0") (simp_all add: mod_mult2_eq)

text \<open>Adding a number of whole groups to the left of a column.\<close>

lemma add_groups: "s = g * 8 + r \<Longrightarrow> (c + s) div 8 = g + (c + r) div (8 :: nat)"
  using div_mult_self1 [of 8 "c + r" g] by (simp add: ac_simps)

lemma length_slice: "length (patram_slice pxr ram e) = 16"
  by (simp add: patram_slice_def mirrored_def)

lemma length_tilram_rbuf [simp]: "length (tilram_rbuf FG scroll next_row ram) = 44"
  by (simp add: tilram_rbuf_def)

lemma nth_patram_rbuf:
  assumes "t < 44" and "k < 16"
  shows "patram_rbuf FG scroll next_row ram ! (t * 16 + k)
    = patram_slice (pixelrow scroll next_row) ram (tilram_rbuf FG scroll next_row ram ! t) ! k"
proof -
  have "(t * 16 + k) div 16 = t" "(t * 16 + k) mod 16 = k" using assms(2) by simp_all
  then show ?thesis
    using assms by (simp add: patram_rbuf_def nth_concat_uniform [where n = 16] length_slice)
qed

theorem tile_engine_draws_layer:
  assumes m: "length m = VRAM_SIZE" and FG: "FG < 2" and col: "col < 320"
  shows "tile_engine FG scroll enable (image_vram m) next_row col =
    (if enable
     then (let (p, c) = layer_pixel (te_layer FG) m
                 ((col + scroll_x scroll) mod 512) ((next_row + scroll_y scroll) mod 512)
           in p * 16 + c)
     else 0)"
proof -
  let ?sx = "scroll_x scroll" and ?Y = "pixelrow scroll next_row" and ?l = "te_layer FG"
  let ?X = "(col + ?sx) mod 512" and ?t = "(col + ?sx mod 32) div 8" and ?k = "8 * (?Y mod 2) + (col + ?sx) mod 8"
  have t: "?t < 44" using col by (simp add: less_mult_imp_div_less)
  have k: "?k < 16"
  proof -
    have "?Y mod 2 < 2" "(col + ?sx) mod 8 < 8" by simp_all
    then show ?thesis by linarith
  qed
  let ?e = "tile_at ?l (?X div 8) (?Y div 8) m"
  have trb: "tilram_rbuf FG scroll next_row (image_vram m) ! ?t = unat ?e"
  proof -
    have "?sx = (4 * (?sx div 32)) * 8 + ?sx mod 32" by simp
    then have "(col + ?sx) div 8 = 4 * (?sx div 32) + ?t" by (rule add_groups)
    then have "(4 * (?sx div 32) + ?t) mod 64 = ?X div 8" by (simp add: mod_div_swap [of _ 8 64, simplified])
    then show ?thesis using entry_tile [OF m t FG, of scroll next_row] by simp
  qed
  have tile: "te_pixel scroll enable ?Y trb prb col
      = (if enable then bits 5 2 (trb ! ?t) * 16 + prb ! (?t * 16 + ?k) else 0)" for trb prb
  proof -
    have sx: "?sx < 512" by (simp add: scroll_x_def bits_def)
    have addr: "(col + ?sx mod 8) mod 512 = col + ?sx mod 8" "(col + ?sx mod 32) mod 512 = col + ?sx mod 32"
      using col by simp_all
    have "?sx mod 32 = (?sx div 8 mod 4) * 8 + ?sx mod 8" using mod_mult2_eq [of ?sx 8 4] by simp
    from add_groups [OF this, of col]
    have ta: "?sx div 8 mod 4 + (col + ?sx mod 8) div 8 = ?t" by simp
    have px: "(col + ?sx mod 8) mod 8 = (col + ?sx) mod 8" by (simp add: mod_simps)
    have b: "bits 2 0 ?sx = ?sx mod 8" "bits (Suc 0) 0 (bits 8 3 ?sx) = ?sx div 8 mod 4"
      "bits 8 3 (col + ?sx mod 8) = (col + ?sx mod 8) div 8" "bits 8 3 (col + ?sx mod 32) = ?t"
      using sx col t by (simp_all add: bits_def mod_mod_cancel)
    show ?thesis
      using t by (simp add: te_pixel_def pmxr_pixel_data_def pmxr_tile_addr_def pmxr_rdaddr_def Let_def addr b ta px) (simp add: bits_def px ac_simps numeral_2_eq_2)
  qed
  have y: "(next_row + scroll_y scroll) mod 512 = ?Y" by (simp add: pixelrow_def add.commute)
  have x: "?X mod 8 = (col + ?sx) mod 8" by (simp add: mod_mod_cancel)
  have pal: "bits 5 2 (unat ?e) = tile_palette ?e" by (simp add: bits_def tile_palette_def)
  show ?thesis
    using slice_pixel [OF m, of "(col + ?sx) mod 8" ?Y ?e]
    by (simp add: tile_engine_def tile trb nth_patram_rbuf [OF t k] layer_pixel_def Let_def y x pal)
qed

end
