(* ===== verification/SpriteEngine.thy ===== *)
theory SpriteEngine
  imports TileEngine
begin

text \<open>
  The sprite engine, \<^verbatim>\<open>sprite_engine\<close>: which sprites of the line are taken from
  Sprite RAM, the row of pixels fetched for each, and the sprite that wins a pixel.  The last
  section proves that the winner is the sprite it should be.
\<close>

section \<open>Configurations\<close>

record sprite_conf =
  conf_tile :: nat
  conf_palette :: nat
  conf_y :: nat
  conf_x :: nat
  conf_y_mirror :: bool
  conf_x_mirror :: bool
  conf_h :: nat
  conf_w :: nat
  conf_fg_prio :: bool
  conf_bg_prio :: bool

text \<open>The packed structure: a 32-bit word followed by a byte.\<close>

definition sprite_conf_t :: "nat \<Rightarrow> nat \<Rightarrow> sprite_conf" where
  "sprite_conf_t main ext =
     \<lparr>conf_tile = bits 31 22 main, conf_palette = bits 21 17 main, conf_y = bits 16 9 main,
      conf_x = bits 8 0 main, conf_y_mirror = bits 7 7 ext = 1, conf_x_mirror = bits 6 6 ext = 1,
      conf_h = bits 5 4 ext, conf_w = bits 3 2 ext, conf_fg_prio = bits 1 1 ext = 1,
      conf_bg_prio = bits 0 0 ext = 1\<rparr>"

definition oam_data :: "vram_p \<Rightarrow> nat \<Rightarrow> sprite_conf" where
  "oam_data ram oam_addr =
     (let ext_addr = 64 * 4 + oam_addr
      in sprite_conf_t (parts 2 32 (p_sprram ram ! (oam_addr div 2)) ! (oam_addr mod 2))
           (parts 8 8 (p_sprram ram ! (ext_addr div 8)) ! (ext_addr mod 8)))"

section \<open>The scan\<close>

definition in_range :: "nat \<Rightarrow> sprite_conf \<Rightarrow> bool" where
  "in_range row c \<longleftrightarrow> conf_y c \<le> row \<and> row < (conf_y c + (conf_h c + 1) * 8) mod 2 ^ 9"

text \<open>
  The scanner offers the sprites in order; the manager asks for one as long as it has fewer
  than sixteen.
\<close>

fun oam_scan :: "nat \<Rightarrow> nat \<Rightarrow> sprite_conf list \<Rightarrow> sprite_conf list" where
  "oam_scan row sprite_count [] = []"
| "oam_scan row sprite_count (c # cs) =
     (if sprite_count < 16
      then if in_range row c then c # oam_scan row (sprite_count + 1) cs
           else oam_scan row sprite_count cs
      else [])"

section \<open>Pattern rows\<close>

definition sprite_addr_gen :: "sprite_conf \<Rightarrow> nat \<Rightarrow> nat \<Rightarrow> nat" where
  "sprite_addr_gen c index row =
     (let row_offset = (row + 2 ^ 8 - conf_y c) mod 2 ^ 5;
          h_offset = conf_h c + 1;
          mirror_limit = h_offset * 8 - 1;
          row_index = (if conf_y_mirror c then (mirror_limit + 2 ^ 5 - row_offset) mod 2 ^ 5 else row_offset);
          tile_y = (bits 9 5 (conf_tile c) + bits 4 3 row_index) mod 2 ^ 5;
          tile_x = (bits 4 0 (conf_tile c) + index) mod 2 ^ 5
      in tile_y * 2 ^ 8 + tile_x * 2 ^ 3 + bits 2 0 row_index)"

definition pattern_data :: "vram_p \<Rightarrow> nat \<Rightarrow> nat list" where
  "pattern_data ram pattern_addr =
     parts 8 4 (parts 2 32 (p_patram ram ! (pattern_addr div 2)) ! (pattern_addr mod 2))"

text \<open>A sprite as a sprite unit keeps it: its stripped configuration and 32 pixels.\<close>

record sprite_reg =
  pat :: "nat list"
  reg_palette :: nat
  reg_x :: nat
  reg_w :: nat
  reg_x_mirror :: bool
  reg_fg_prio :: bool
  reg_bg_prio :: bool

text \<open>
  The manager reads as many patterns as the sprite is wide into a buffer of four; the others
  keep what an earlier sprite left there.
\<close>

definition pat_read :: "vram_p \<Rightarrow> nat \<Rightarrow> sprite_conf \<Rightarrow> nat list list \<Rightarrow> nat list list" where
  "pat_read ram row c pat_buf =
     map (\<lambda>i. pattern_data ram (sprite_addr_gen c i row)) [0..<conf_w c + 1] @ drop (conf_w c + 1) pat_buf"

definition send_sprite :: "sprite_conf \<Rightarrow> nat list list \<Rightarrow> sprite_reg" where
  "send_sprite c pat_buf =
     \<lparr>pat = concat pat_buf, reg_palette = conf_palette c, reg_x = conf_x c, reg_w = conf_w c,
      reg_x_mirror = conf_x_mirror c, reg_fg_prio = conf_fg_prio c, reg_bg_prio = conf_bg_prio c\<rparr>"

fun sprite_manager :: "vram_p \<Rightarrow> nat \<Rightarrow> sprite_conf list \<Rightarrow> nat list list \<Rightarrow> sprite_reg list" where
  "sprite_manager ram row [] pat_buf = []"
| "sprite_manager ram row (c # cs) pat_buf =
     (let pat_buf = pat_read ram row c pat_buf
      in send_sprite c pat_buf # sprite_manager ram row cs pat_buf)"

section \<open>The pixel\<close>

record sprite_pixel =
  pix_palette :: nat
  pix_pixel :: nat
  pix_fg :: bool
  pix_bg :: bool
  pix_visible :: bool

definition sprite_unit :: "nat \<Rightarrow> sprite_reg \<Rightarrow> sprite_pixel" where
  "sprite_unit col r =
     (let w_offset = reg_w r + 1;
          width_limit = (reg_x r + w_offset * 8) mod 2 ^ 10;
          pat_offset = (col + 2 ^ 9 - reg_x r) mod 2 ^ 5;
          mirror_limit = w_offset * 8 - 1;
          pat_index = (if reg_x_mirror r then (mirror_limit + 2 ^ 5 - pat_offset) mod 2 ^ 5 else pat_offset);
          pixel = pat r ! pat_index
      in \<lparr>pix_palette = reg_palette r, pix_pixel = pixel, pix_fg = reg_fg_prio r,
          pix_bg = reg_bg_prio r, pix_visible = pixel \<noteq> 0 \<and> reg_x r \<le> col \<and> col < width_limit\<rparr>)"

text \<open>
  The tournament: the units in front of both layers first, then those in front of the
  background, then all, and of those the first.
\<close>

definition sprite_tournament :: "sprite_pixel list \<Rightarrow> nat \<times> nat" where
  "sprite_tournament ps =
     (let visible = filter pix_visible ps;
          fg = filter pix_fg visible;
          bg = filter pix_bg visible;
          sel = (if fg \<noteq> [] then fg else if bg \<noteq> [] then bg else visible)
      in case sel of [] \<Rightarrow> (0, 0)
         | p # _ \<Rightarrow> (pix_palette p * 2 ^ 4 + pix_pixel p, of_bool (pix_fg p) * 2 + of_bool (pix_bg p)))"

definition sprite_engine :: "bool \<Rightarrow> vram_p \<Rightarrow> nat list list \<Rightarrow> nat \<Rightarrow> nat \<Rightarrow> nat \<times> nat" where
  "sprite_engine enable ram pat_buf row col =
     (let confs = oam_scan row 0 (map (oam_data ram) [0..<64]);
          (addr, prio) = sprite_tournament (map (sprite_unit col) (sprite_manager ram row confs pat_buf))
      in (if enable then addr else 0, prio))"

section \<open>The sprite that should win\<close>

definition conf_ok :: "sprite_conf \<Rightarrow> bool" where
  "conf_ok c \<longleftrightarrow> conf_tile c < 1024 \<and> conf_palette c < 32 \<and> conf_y c < 256 \<and> conf_x c < 512
     \<and> conf_h c < 4 \<and> conf_w c < 4"

definition in_row :: "nat \<Rightarrow> sprite_conf \<Rightarrow> bool" where
  "in_row row c \<longleftrightarrow> conf_y c \<le> row \<and> row < conf_y c + 8 * (conf_h c + 1)"

definition in_col :: "nat \<Rightarrow> sprite_conf \<Rightarrow> bool" where
  "in_col col c \<longleftrightarrow> conf_x c \<le> col \<and> col < conf_x c + 8 * (conf_w c + 1)"

text \<open>
  The colour of a sprite at a pixel it covers: it is a rectangle of pattern cells that wraps
  around Pattern RAM and is mirrored as a whole.
\<close>

definition conf_pixel :: "u8 list \<Rightarrow> nat \<Rightarrow> nat \<Rightarrow> sprite_conf \<Rightarrow> nat" where
  "conf_pixel m row col c =
     (let dx = flip (conf_x_mirror c) (8 * (conf_w c + 1)) (col - conf_x c);
          dy = flip (conf_y_mirror c) (8 * (conf_h c + 1)) (row - conf_y c)
      in nib (pattern_at ((conf_tile c mod 32 + dx div 8) mod 32) ((conf_tile c div 32 + dy div 8) mod 32) m)
           (8 * (dy mod 8) + dx mod 8))"

definition drawn :: "u8 list \<Rightarrow> nat \<Rightarrow> nat \<Rightarrow> sprite_conf \<Rightarrow> bool" where
  "drawn m row col c \<longleftrightarrow> in_col col c \<and> conf_pixel m row col c \<noteq> 0"

definition level :: "sprite_conf \<Rightarrow> nat" where
  "level c = (if conf_fg_prio c then 2 else if conf_bg_prio c then 1 else 0)"

definition line_sprites :: "u8 list \<Rightarrow> nat \<Rightarrow> sprite_conf list" where
  "line_sprites m row = take 16 (filter (in_row row) (map (oam_data (image_vram m)) [0..<64]))"

text \<open>The first of the sprites of the highest level.\<close>

definition top_sprite :: "sprite_conf list \<Rightarrow> sprite_conf option" where
  "top_sprite cs = find (\<lambda>c. \<forall>d \<in> set cs. level d \<le> level c) cs"

lemma oam_data_ok: "conf_ok (oam_data ram i)"
  by (simp add: conf_ok_def oam_data_def sprite_conf_t_def Let_def bits_def)

lemma in_range_row: "conf_ok c \<Longrightarrow> in_range row c \<longleftrightarrow> in_row row c"
  by (auto simp: in_range_def in_row_def conf_ok_def)

lemma oam_scan_take:
  "\<forall>c \<in> set cs. conf_ok c \<Longrightarrow> n \<le> 16 \<Longrightarrow> oam_scan row n cs = take (16 - n) (filter (in_row row) cs)"
proof (induction cs arbitrary: n)
  case (Cons c cs)
  show ?case
  proof (cases "n < 16")
    case True
    then have "16 - n = Suc (16 - (n + 1))" by simp
    then show ?thesis using Cons True by (simp add: in_range_row)
  qed (use Cons.prems in simp)
qed simp

text \<open>The five-bit offsets, with their wrap-around, are the mirrored coordinates.\<close>

lemma mirror_index:
  assumes "y \<le> r" and "r < y + 8 * (h + 1)" and "h < 4" and "N mod 32 = 0"
  shows "(if b then ((h + 1) * 8 - 1 + 2 ^ 5 - (r + N - y) mod 2 ^ 5) mod 2 ^ 5
      else (r + N - y) mod 2 ^ 5) = flip b (8 * (h + 1)) (r - y)"
proof -
  define d where "d = r - y"
  have d: "d < 8 * (h + 1)" "d < 32" using assms by (simp_all add: d_def)
  have "r + N - y = d + N" using assms(1) by (simp add: d_def)
  moreover have "(d + N) mod 32 = d" using d(2) assms(4) by (metis add_0_right mod_add_right_eq mod_less)
  ultimately have r: "(r + N - y) mod 2 ^ 5 = d" by simp
  have "(h + 1) * 8 - 1 + 2 ^ 5 - d = (8 * (h + 1) - 1 - d) + 32" using d by simp
  moreover have "((8 * (h + 1) - 1 - d) + 32) mod 32 = 8 * (h + 1) - 1 - d" using assms(3) by simp
  ultimately have "((h + 1) * 8 - 1 + 2 ^ 5 - d) mod 2 ^ 5 = 8 * (h + 1) - 1 - d" by simp
  then show ?thesis unfolding r by (simp add: flip_def d_def)
qed

lemma nib_segment: "off + n \<le> length bs \<Longrightarrow> k < 2 * n \<Longrightarrow> nib (segment off n bs) k = nib bs (2 * off + k)"
  by (simp add: nib_def nth_segment)

lemma length_pattern_data [simp]: "length (pattern_data ram a) = 8"
  by (simp add: pattern_data_def)

lemma fetched_pixel:
  assumes m: "length m = VRAM_SIZE" and c: "conf_ok c" "in_row row c" and i: "i < 4" and k: "k < 8"
  shows "pattern_data (image_vram m) (sprite_addr_gen c i row) ! k =
    (let dy = flip (conf_y_mirror c) (8 * (conf_h c + 1)) (row - conf_y c)
     in nib (pattern_at ((conf_tile c mod 32 + i) mod 32) ((conf_tile c div 32 + dy div 8) mod 32) m)
          (8 * (dy mod 8) + k))"
proof -
  define dy where "dy = flip (conf_y_mirror c) (8 * (conf_h c + 1)) (row - conf_y c)"
  define tx where "tx = (conf_tile c mod 32 + i) mod 32"
  define ty where "ty = (conf_tile c div 32 + dy div 8) mod 32"
  define r where "r = dy mod 8"
  have b: "tx < 32" "ty < 32" "r < 8" by (simp_all add: tx_def ty_def r_def)
  have "dy < 8 * (conf_h c + 1)" unfolding dy_def by (rule flip_less) (use c in \<open>auto simp: in_row_def\<close>)
  also have "\<dots> \<le> 32" using c by (simp add: conf_ok_def)
  finally have "dy < 32" .
  have a: "sprite_addr_gen c i row = ty * 2 ^ 8 + tx * 2 ^ 3 + r"
  proof -
    have idx: "(if conf_y_mirror c then ((conf_h c + 1) * 8 - 1 + 2 ^ 5 - (row + 2 ^ 8 - conf_y c) mod 2 ^ 5) mod 2 ^ 5
        else (row + 2 ^ 8 - conf_y c) mod 2 ^ 5) = dy"
      unfolding dy_def by (rule mirror_index) (use c in \<open>simp_all add: in_row_def conf_ok_def\<close>)
    show ?thesis
      using \<open>dy < 32\<close> c unfolding sprite_addr_gen_def Let_def idx
      by (simp add: bits_def tx_def ty_def r_def conf_ok_def less_mult_imp_div_less mod_simps)
  qed
  define w where "w = ty * 128 + tx * 4 + r div 2"
  have "r div 2 < 4" using b(3) by (simp add: less_mult_imp_div_less)
  then have w1: "w < 4096" using b unfolding w_def by linarith
  have e: "ty * 2 ^ 8 + tx * 2 ^ 3 + r = r + (ty * 128 + tx * 4) * 2" by simp
  have w: "w < 4096" "(ty * 2 ^ 8 + tx * 2 ^ 3 + r) div 2 = w" "(ty * 2 ^ 8 + tx * 2 ^ 3 + r) mod 2 = r mod 2"
    unfolding e by (rule w1, simp add: w_def, rule mod_mult_self1)
  have pos: "0x4000 + 8 * w + 4 * (r mod 2) = 0x4000 + 32 * (32 * ty + tx) + 4 * r"
  proof -
    have "r = 2 * (r div 2) + r mod 2" by simp
    then have "8 * (r div 2) + 4 * (r mod 2) = 4 * r" by linarith
    moreover have "0x4000 + 8 * (ty * 128 + tx * 4 + a) + 4 * b = 0x4000 + 32 * (32 * ty + tx) + 4 * r"
      if "8 * a + 4 * b = 4 * r" for a b using that by simp
    ultimately show ?thesis unfolding w_def by blast
  qed
  have "parts 2 32 (p_patram (image_vram m) ! w) ! (r mod 2) = ram64 0x4000 w m div 2 ^ (8 * (4 * (r mod 2))) mod 2 ^ (8 * 4)"
    using w(1) by (simp add: nth_parts image_vram_nth mult.assoc)
  also have "\<dots> = word_num (segment (0x4000 + 32 * (32 * ty + tx) + 4 * r) 4 m)"
    unfolding pos [symmetric]
    using less_2_cases_iff [of "r mod 2"] by (subst ram64_part) auto
  also have "segment (0x4000 + 32 * (32 * ty + tx) + 4 * r) 4 m = segment (4 * r) 4 (pattern_at tx ty m)"
    using b by (simp add: pattern_at_def segment_segment)
  finally have word: "parts 2 32 (p_patram (image_vram m) ! w) ! (r mod 2) = word_num (segment (4 * r) 4 (pattern_at tx ty m))" .
  have len: "length (pattern_at tx ty m) = 32"
    using b m by (simp add: pattern_at_def)
  have "pattern_data (image_vram m) (sprite_addr_gen c i row) ! k
      = word_num (segment (4 * r) 4 (pattern_at tx ty m)) div 2 ^ (4 * k) mod 16"
    using k unfolding pattern_data_def a w(2,3) word by (simp add: nth_parts)
  also have "\<dots> = nib (segment (4 * r) 4 (pattern_at tx ty m)) k"
    using k b len by (intro word_num_nib) simp
  also have "\<dots> = nib (pattern_at tx ty m) (8 * r + k)"
    using k b len by (simp add: nib_segment)
  finally show ?thesis by (simp add: dy_def tx_def ty_def r_def Let_def)
qed

text \<open>What a unit answers, for a sprite it draws.\<close>

definition conf_pix :: "u8 list \<Rightarrow> nat \<Rightarrow> nat \<Rightarrow> sprite_conf \<Rightarrow> sprite_pixel" where
  "conf_pix m row col c = \<lparr>pix_palette = conf_palette c, pix_pixel = conf_pixel m row col c,
     pix_fg = conf_fg_prio c, pix_bg = conf_bg_prio c, pix_visible = True\<rparr>"

lemma sprite_pat:
  assumes m: "length m = VRAM_SIZE" and c: "conf_ok c" "in_row row c" and d: "d < 8 * (conf_w c + 1)"
  shows "concat (pat_read (image_vram m) row c buf) ! d =
    (let dy = flip (conf_y_mirror c) (8 * (conf_h c + 1)) (row - conf_y c)
     in nib (pattern_at ((conf_tile c mod 32 + d div 8) mod 32) ((conf_tile c div 32 + dy div 8) mod 32) m)
          (8 * (dy mod 8) + d mod 8))"
proof -
  let ?f = "\<lambda>i. pattern_data (image_vram m) (sprite_addr_gen c i row)"
  have "8 * (conf_w c + 1) \<le> 8 * 4" using c by (intro mult_le_mono) (simp_all add: conf_ok_def)
  then have d8: "d div 8 < conf_w c + 1" "d div 8 < 4" using d by (simp_all add: less_mult_imp_div_less)
  have len: "length (concat (map ?f [0..<conf_w c + 1])) = 8 * (conf_w c + 1)"
    by (simp add: length_concat comp_def sum_list_triv del: upt_Suc)
  have "concat (pat_read (image_vram m) row c buf) ! d = concat (map ?f [0..<conf_w c + 1]) ! d"
    using d len by (simp add: pat_read_def nth_append del: upt_Suc)
  also have "\<dots> = map ?f [0..<conf_w c + 1] ! (d div 8) ! (d mod 8)"
    using d by (intro nth_concat_uniform) auto
  also have "\<dots> = ?f (d div 8) ! (d mod 8)"
    using d8 by (simp del: upt_Suc)
  finally show ?thesis using fetched_pixel [OF m c d8(2), of "d mod 8"] by simp
qed

lemma sprite_unit_draws:
  assumes m: "length m = VRAM_SIZE" and c: "conf_ok c" "in_row row c" and col: "col < 512"
    and p_def: "p = sprite_unit col (send_sprite c (pat_read (image_vram m) row c buf))"
  shows "pix_visible p \<longleftrightarrow> drawn m row col c"
    and "drawn m row col c \<Longrightarrow> p = conf_pix m row col c"
proof -
  let ?pat = "concat (pat_read (image_vram m) row c buf)"
  define i where "i = (if conf_x_mirror c then ((conf_w c + 1) * 8 - 1 + 2 ^ 5 - (col + 2 ^ 9 - conf_x c) mod 2 ^ 5) mod 2 ^ 5
      else (col + 2 ^ 9 - conf_x c) mod 2 ^ 5)"
  have w: "(conf_x c + (conf_w c + 1) * 8) mod 2 ^ 10 = conf_x c + 8 * (conf_w c + 1)"
    using c(1) by (simp add: conf_ok_def)
  have p: "p = \<lparr>pix_palette = conf_palette c, pix_pixel = ?pat ! i, pix_fg = conf_fg_prio c, pix_bg = conf_bg_prio c,
      pix_visible = ?pat ! i \<noteq> 0 \<and> in_col col c\<rparr>"
    by (simp only: p_def sprite_unit_def send_sprite_def Let_def sprite_reg.simps w in_col_def i_def [symmetric])
  have px: "?pat ! i = conf_pixel m row col c" if "in_col col c"
  proof -
    have i: "i = flip (conf_x_mirror c) (8 * (conf_w c + 1)) (col - conf_x c)"
      unfolding i_def by (rule mirror_index) (use that c in \<open>simp_all add: in_col_def conf_ok_def\<close>)
    have "i < 8 * (conf_w c + 1)"
      unfolding i by (rule flip_less) (use that in \<open>auto simp: in_col_def\<close>)
    from sprite_pat [OF m c this, of buf] show ?thesis
      unfolding conf_pixel_def Let_def i [symmetric] .
  qed
  show "pix_visible p \<longleftrightarrow> drawn m row col c" "drawn m row col c \<Longrightarrow> p = conf_pix m row col c"
    using px by (auto simp: p drawn_def conf_pix_def)
qed

lemma visible_sprites:
  assumes "length m = VRAM_SIZE" and "col < 512"
  shows "\<forall>c \<in> set cs. conf_ok c \<and> in_row row c \<Longrightarrow>
    filter pix_visible (map (sprite_unit col) (sprite_manager (image_vram m) row cs buf))
      = map (conf_pix m row col) (filter (drawn m row col) cs)"
  by (induction cs arbitrary: buf) (auto simp: Let_def sprite_unit_draws [OF assms(1) _ _ assms(2) refl])

section \<open>The winner\<close>

lemma line_sprites_ok: "c \<in> set (line_sprites m row) \<Longrightarrow> conf_ok c \<and> in_row row c"
  using oam_data_ok by (auto simp: line_sprites_def dest!: in_set_takeD)

lemma scan_line: "oam_scan row 0 (map (oam_data (image_vram m)) [0..<64]) = line_sprites m row"
  using oam_data_ok by (subst oam_scan_take) (auto simp: line_sprites_def)

lemma find_filter: "find P xs = (case filter P xs of [] \<Rightarrow> None | x # _ \<Rightarrow> Some x)"
  by (induction xs) auto

lemma top_sprite_level:
  "top_sprite cs = (let fg = filter conf_fg_prio cs; bg = filter conf_bg_prio cs
    in case (if fg \<noteq> [] then fg else if bg \<noteq> [] then bg else cs) of [] \<Rightarrow> None | c # _ \<Rightarrow> Some c)"
proof -
  consider (fg) "\<exists>c \<in> set cs. conf_fg_prio c"
    | (bg) "\<forall>c \<in> set cs. \<not> conf_fg_prio c" "\<exists>c \<in> set cs. conf_bg_prio c"
    | (all) "\<forall>c \<in> set cs. \<not> conf_fg_prio c" "\<forall>c \<in> set cs. \<not> conf_bg_prio c" by blast
  then show ?thesis
  proof cases
    case fg
    then have "filter (\<lambda>c. \<forall>d \<in> set cs. level d \<le> level c) cs = filter conf_fg_prio cs"
      by (intro filter_cong) (auto simp: level_def split: if_splits)
    with fg show ?thesis
      by (simp add: top_sprite_def find_filter Let_def filter_empty_conv)
  next
    case bg
    then have "filter (\<lambda>c. \<forall>d \<in> set cs. level d \<le> level c) cs = filter conf_bg_prio cs"
      by (intro filter_cong) (auto simp: level_def split: if_splits)
    with bg show ?thesis
      by (simp add: top_sprite_def find_filter Let_def filter_empty_conv)
  next
    case all
    then have "filter (\<lambda>c. \<forall>d \<in> set cs. level d \<le> level c) cs = cs"
      by (intro filter_True) (auto simp: level_def)
    with all show ?thesis
      by (simp add: top_sprite_def find_filter Let_def filter_empty_conv)
  qed
qed

lemma num_pow_16: "(2 :: nat) ^ 4 = 16"
  by simp

theorem sprite_engine_winner:
  assumes "length m = VRAM_SIZE" and "col < 512"
  shows "sprite_engine enable (image_vram m) pat_buf row col =
    (case top_sprite (filter (drawn m row col) (line_sprites m row)) of
       None \<Rightarrow> (0, 0)
     | Some c \<Rightarrow> (if enable then conf_palette c * 16 + conf_pixel m row col c else 0,
                  of_bool (conf_fg_prio c) * 2 + of_bool (conf_bg_prio c)))"
proof -
  let ?cs = "filter (drawn m row col) (line_sprites m row)"
  let ?ps = "map (sprite_unit col) (sprite_manager (image_vram m) row (line_sprites m row) pat_buf)"
  have v: "filter pix_visible ?ps = map (conf_pix m row col) ?cs"
    using line_sprites_ok by (intro visible_sprites [OF assms]) blast
  have f: "filter pix_fg (map (conf_pix m row col) cs) = map (conf_pix m row col) (filter conf_fg_prio cs)"
    "filter pix_bg (map (conf_pix m row col) cs) = map (conf_pix m row col) (filter conf_bg_prio cs)" for cs
    by (simp_all add: filter_map comp_def conf_pix_def)
  have "sprite_tournament ?ps = (case top_sprite ?cs of None \<Rightarrow> (0, 0)
     | Some c \<Rightarrow> (conf_palette c * 16 + conf_pixel m row col c,
                  of_bool (conf_fg_prio c) * 2 + of_bool (conf_bg_prio c)))"
    unfolding sprite_tournament_def v Let_def f top_sprite_level
    by (cases "filter conf_fg_prio ?cs"; cases "filter conf_bg_prio ?cs"; cases ?cs)
      (simp_all only: list.map list.case option.case if_True if_False HOL.simp_thms list.distinct conf_pix_def
        sprite_pixel.simps num_pow_16)
  then show ?thesis
    by (simp add: sprite_engine_def scan_line Let_def split: option.split)
qed

end
