(* ===== verification/Screen.thy ===== *)
theory Screen
  imports SpriteEngine
begin

text \<open>
  From the engines to the colour on the screen: the pixel mixer (\<^verbatim>\<open>pixel_mixer.sv\<close>), the
  palette lookup of \<^verbatim>\<open>ppu_logic.sv\<close>, and the proof that together they paint the layers and
  sprites over each other as the library's header describes.
\<close>

section \<open>The pixel mixer\<close>

definition pixel_mixer :: "nat \<Rightarrow> nat \<Rightarrow> nat \<times> nat \<Rightarrow> nat" where
  "pixel_mixer fg_pixel_data bg_pixel_data sp =
     (let (sp_pixel_data, sp_pixel_prio) = sp;
          fg_color = bits 3 0 fg_pixel_data; fg_palette = bits 7 4 fg_pixel_data;
          bg_color = bits 3 0 bg_pixel_data; bg_palette = bits 7 4 bg_pixel_data;
          sp_color = bits 3 0 sp_pixel_data; sp_palette = bits 8 4 sp_pixel_data;
          SRC_BG = 0; SRC_FG = 1; SRC_SP = 2;
          final_source =
            (if sp_color = 0 then (if fg_color \<noteq> 0 then SRC_FG else SRC_BG)
             else if bits 1 1 sp_pixel_prio = 1 then SRC_SP
             else if sp_pixel_prio = 1 then (if fg_color = 0 then SRC_SP else SRC_FG)
             else if sp_pixel_prio = 0
                  then (if fg_color = 0 then (if bg_color = 0 then SRC_SP else SRC_BG) else SRC_FG)
             else SRC_BG) :: nat
      in if final_source = SRC_BG
         then (if bg_color = 0 then 0 else SRC_BG * 2 ^ 8 + bg_palette * 2 ^ 4 + bg_color)
         else if final_source = SRC_FG then SRC_FG * 2 ^ 8 + fg_palette * 2 ^ 4 + fg_color
         else 1 * 2 ^ 9 + sp_palette * 2 ^ 4 + sp_color)"

section \<open>The colour\<close>

definition hdmi_color :: "vram_p \<Rightarrow> nat \<Rightarrow> nat \<Rightarrow> nat" where
  "hdmi_color ram bgcolor rdaddr =
     (if rdaddr = 0 then bgcolor
      else if bits 0 0 rdaddr = 1 then bits 55 32 (p_palram ram ! bits 9 1 rdaddr)
      else bits 23 0 (p_palram ram ! bits 9 1 rdaddr))"

text \<open>The registers as \<^verbatim>\<open>dbuf_ppu_ctrl_regs.sv\<close> keeps them for the frame.\<close>

record dbuf_regs =
  dbuf_bgscroll :: nat
  dbuf_fgscroll :: nat
  dbuf_enable :: nat
  dbuf_bgcolor :: nat

text \<open>
  A tile engine answers two cycles after the column is asked for, and so does the mixer's
  write address; the sprite engine answers after one, so its answer belongs to the next
  column.  \<open>LineFill\<close> has the cycles.
\<close>

definition sprite_col :: "nat \<Rightarrow> nat" where
  "sprite_col col = min (col + 1) 319"

definition row_pixels :: "dbuf_regs \<Rightarrow> vram_p \<Rightarrow> nat list list \<Rightarrow> nat \<Rightarrow> nat \<Rightarrow> nat" where
  "row_pixels r ram pat_buf next_row col =
     pixel_mixer
       (tile_engine 1 (dbuf_fgscroll r) (bits 1 1 (dbuf_enable r) = 1) ram next_row col)
       (tile_engine 0 (dbuf_bgscroll r) (bits 0 0 (dbuf_enable r) = 1) ram next_row col)
       (sprite_engine (bits 2 2 (dbuf_enable r) = 1) ram pat_buf next_row (sprite_col col))"

definition ppu_logic :: "dbuf_regs \<Rightarrow> vram_p \<Rightarrow> nat list list \<Rightarrow> nat \<Rightarrow> nat \<Rightarrow> nat" where
  "ppu_logic r ram pat_buf next_row col = hdmi_color ram (dbuf_bgcolor r) (row_pixels r ram pat_buf next_row col)"

section \<open>The picture\<close>

text \<open>
  Colour \<open>c\<close> of palette \<open>p\<close> of a layer; colours count from one, zero is transparent.
\<close>

definition palette_color :: "u8 list \<Rightarrow> layer_e \<Rightarrow> nat \<Rightarrow> nat \<Rightarrow> nat" where
  "palette_color m layer p c = unat (un32 (segment (palette_base layer p + 4 * (c - 1)) 4 m)) mod 2 ^ 24"

definition tile_surface :: "u8 list \<Rightarrow> layer_e \<Rightarrow> bool \<Rightarrow> nat \<Rightarrow> nat \<Rightarrow> nat \<Rightarrow> layer_e \<times> nat \<times> nat" where
  "tile_surface m layer enable scroll row col =
     (layer, if enable then layer_pixel layer m ((col + scroll_x scroll) mod 512) ((row + scroll_y scroll) mod 512)
             else (0, 0))"

definition sprite_surface :: "u8 list \<Rightarrow> bool \<Rightarrow> nat \<Rightarrow> nat \<Rightarrow> nat \<Rightarrow> layer_e \<times> nat \<times> nat" where
  "sprite_surface m enable l row col =
     (LAYER_SPR, case filter (\<lambda>c. drawn m row col c \<and> level c = l) (line_sprites m row) of
        [] \<Rightarrow> (0, 0)
      | c # _ \<Rightarrow> if enable then (conf_palette c, conf_pixel m row col c) else (0, 0))"

text \<open>
  The surfaces from front to back; the first that is not transparent is seen.  The sprites
  are one column further to the left than they should be.
\<close>

definition surfaces :: "u8 list \<Rightarrow> dbuf_regs \<Rightarrow> nat \<Rightarrow> nat \<Rightarrow> (layer_e \<times> nat \<times> nat) list" where
  "surfaces m r row col =
     (let spr = sprite_surface m (bits 2 2 (dbuf_enable r) = 1)
      in [spr 2 row (sprite_col col),
          tile_surface m LAYER_FG (bits 1 1 (dbuf_enable r) = 1) (dbuf_fgscroll r) row col,
          spr 1 row (sprite_col col),
          tile_surface m LAYER_BG (bits 0 0 (dbuf_enable r) = 1) (dbuf_bgscroll r) row col,
          spr 0 row (sprite_col col)])"

definition painted :: "u8 list \<Rightarrow> dbuf_regs \<Rightarrow> nat \<Rightarrow> nat \<Rightarrow> nat" where
  "painted m r row col =
     (case find (\<lambda>(layer, p, c). c \<noteq> 0) (surfaces m r row col) of
        None \<Rightarrow> dbuf_bgcolor r
      | Some (layer, p, c) \<Rightarrow> palette_color m layer p c)"

section \<open>Palette addresses\<close>

lemma word_num_un32: "length bs = 4 \<Longrightarrow> word_num bs = unat (un32 bs)"
proof -
  assume "length bs = 4"
  then obtain a b c d where bs: "bs = [a, b, c, d]" by (auto simp: length_Suc_conv numeral_eq_Suc)
  have lt: "unat x < 256" for x :: u8 using unsigned_less [of x, where 'a = nat] by simp
  have "unat (un32 bs) = unat (push_bit 24 (ucast d) OR push_bit 16 (ucast c) OR push_bit 8 (ucast b) OR ucast a :: u32)"
    by (simp add: bs un32_def ac_simps)
  also have "\<dots> = unat d * 2 ^ 24 + (unat c * 2 ^ 16 + (unat b * 2 ^ 8 + unat a))"
  proof -
    have 1: "unat (push_bit 8 (ucast b) OR ucast a :: u32) = unat b * 2 ^ 8 + unat a"
      using lt [of a] lt [of b] by (subst unat_or_push) (simp_all add: unat_u32_u8)
    have 2: "unat (push_bit 16 (ucast c) OR push_bit 8 (ucast b) OR ucast a :: u32)
        = unat c * 2 ^ 16 + (unat b * 2 ^ 8 + unat a)"
      using lt [of a] lt [of b] lt [of c] by (subst unat_or_push) (simp_all add: unat_u32_u8 1)
    show ?thesis
      using lt [of a] lt [of b] lt [of c] lt [of d] by (subst unat_or_push) (simp_all add: unat_u32_u8 2)
  qed
  finally show ?thesis by (simp add: bs)
qed

definition color_addr :: "layer_e \<Rightarrow> nat \<Rightarrow> nat \<Rightarrow> nat" where
  "color_addr layer p c = (if layer = LAYER_SPR then 512 else if layer = LAYER_FG then 256 else 0) + p * 16 + c"

lemma hdmi_color_addr:
  assumes m: "length m = VRAM_SIZE" and c: "0 < c" "c < 16" and p: "p < palettes_of layer"
  shows "hdmi_color (image_vram m) bgcolor (color_addr layer p c) = palette_color m layer p c"
proof -
  define a where "a = color_addr layer p c"
  have a: "0 < a" "a < 1024" using c p by (auto simp: a_def color_addr_def palettes_of_def split: if_splits)
  have a2: "a div 2 < 512" "bits 9 1 a = a div 2" using a by (simp_all add: bits_def less_mult_imp_div_less)
  let ?s = "segment (0xC000 + 4 * a) 4 m"
  have pos: "0xC000 + 4 * a = palette_base layer p + 4 * (c - 1)"
    using c by (auto simp: a_def color_addr_def palette_base_def)
  have "hdmi_color (image_vram m) bgcolor a = ram64 0xC000 (a div 2) m div 2 ^ (8 * (4 * (a mod 2))) mod 2 ^ (8 * 3)"
    using a a2 mod2_eq_if [of a] by (auto simp: hdmi_color_def image_vram_nth) (simp_all add: bits_def)
  also have "\<dots> = word_num (segment (0xC000 + 8 * (a div 2) + 4 * (a mod 2)) 3 m)"
    using mod2_eq_if [of a] by (subst ram64_part) auto
  also have "0xC000 + 8 * (a div 2) + 4 * (a mod 2) = 0xC000 + 4 * a" by presburger
  also have "segment (0xC000 + 4 * a) 3 m = take 3 ?s" by (simp add: segment_def)
  also have "word_num (take 3 ?s) = word_num ?s mod 2 ^ (8 * 3)" by (rule word_num_take [symmetric])
  also have "word_num ?s = unat (un32 ?s)"
    using m a by (intro word_num_un32) simp
  finally show ?thesis unfolding a_def [symmetric] by (simp add: palette_color_def pos)
qed

section \<open>The mixer takes the first surface\<close>

lemma top_levels:
  "top_sprite cs = (case filter (\<lambda>c. level c = 2) cs @ filter (\<lambda>c. level c = 1) cs @ filter (\<lambda>c. level c = 0) cs
     of [] \<Rightarrow> None | c # _ \<Rightarrow> Some c)"
proof -
  have fg: "filter (\<lambda>c. level c = 2) cs = filter conf_fg_prio cs" by (rule filter_cong) (auto simp: level_def)
  have bg: "filter (\<lambda>c. level c = 1) cs = filter conf_bg_prio cs" if "filter conf_fg_prio cs = []"
    using that by (intro filter_cong) (auto simp: level_def filter_empty_conv)
  have rest: "filter (\<lambda>c. level c = 0) cs = cs" if "filter conf_fg_prio cs = []" "filter conf_bg_prio cs = []"
    using that by (intro filter_True) (auto simp: level_def filter_empty_conv)
  show ?thesis
    unfolding top_sprite_level Let_def fg
    by (cases "filter conf_fg_prio cs"; cases "filter conf_bg_prio cs"; simp add: bg [unfolded One_nat_def] rest)
qed

definition first_surface :: "(layer_e \<times> nat \<times> nat) list \<Rightarrow> nat" where
  "first_surface ss = (case find (\<lambda>(layer, p, c). c \<noteq> 0) ss of None \<Rightarrow> 0 | Some (layer, p, c) \<Rightarrow> color_addr layer p c)"

lemma fields: "c < 16 \<Longrightarrow> bits 3 0 (p * 16 + c) = c" "c < 16 \<Longrightarrow> p < 16 \<Longrightarrow> bits 7 4 (p * 16 + c) = p"
  "c < 16 \<Longrightarrow> p < 32 \<Longrightarrow> bits 8 4 (p * 16 + c) = p"
  by (simp_all add: bits_def)

lemma mixer_first:
  assumes "fc < 16" "fp < 16" "bc < 16" "bp < 16" "sc < 16" "sp < 32"
  shows "pixel_mixer (fp * 16 + fc) (bp * 16 + bc) (sp * 16 + sc, of_bool f * 2 + of_bool b) =
    (let s = (\<lambda>l. if l = (if f then 2 else if b then 1 else 0 :: nat) then (LAYER_SPR, sp, sc) else (LAYER_SPR, 0, 0))
     in first_surface [s 2, (LAYER_FG, fp, fc), s 1, (LAYER_BG, bp, bc), s 0])"
proof -
  have "bits (Suc 0) (Suc 0) (of_bool f * 2 + of_bool b) = of_bool f" by (cases f; cases b) (simp_all add: bits_def)
  then show ?thesis
    using assms by (cases f; cases b) (simp_all add: pixel_mixer_def fields first_surface_def color_addr_def)
qed

section \<open>The screen\<close>

definition surface_ok :: "layer_e \<times> nat \<times> nat \<Rightarrow> bool" where
  "surface_ok s \<longleftrightarrow> (case s of (layer, p, c) \<Rightarrow> p < palettes_of layer \<and> c < 16)"

lemma tile_surface_ok: "surface_ok (tile_surface m layer enable scroll row col)"
  by (auto simp: surface_ok_def tile_surface_def layer_pixel_def Let_def tile_palette_def pattern_pixel_def
      palettes_of_def)

lemma head_filter: "filter P xs = x # ys \<Longrightarrow> x \<in> set xs \<and> P x"
proof -
  assume "filter P xs = x # ys"
  then have "x \<in> set (filter P xs)" by simp
  then show ?thesis by simp
qed

lemma find_SomeD: "find P xs = Some x \<Longrightarrow> x \<in> set xs \<and> P x"
  by (induction xs) (auto split: if_splits)

lemma sprite_surface_ok: "surface_ok (sprite_surface m enable l row col)"
proof -
  have "conf_ok c" if "filter P (line_sprites m row) = c # cs" for P c cs
    using head_filter [OF that] line_sprites_ok by blast
  then show ?thesis
    by (auto simp: surface_ok_def sprite_surface_def palettes_of_def conf_ok_def conf_pixel_def Let_def
        split: list.split)
qed

lemma hdmi_first_surface:
  assumes "length m = VRAM_SIZE" and "\<forall>s \<in> set ss. surface_ok s"
  shows "hdmi_color (image_vram m) bgcolor (first_surface ss) =
    (case find (\<lambda>(layer, p, c). c \<noteq> 0) ss of None \<Rightarrow> bgcolor | Some (layer, p, c) \<Rightarrow> palette_color m layer p c)"
proof (cases "find (\<lambda>(layer, p, c). c \<noteq> 0) ss")
  case None
  then show ?thesis by (simp add: first_surface_def hdmi_color_def)
next
  case (Some s)
  obtain layer p c where s: "s = (layer, p, c)" by (cases s)
  with find_SomeD [OF Some] have "c \<noteq> 0" "s \<in> set ss" by simp_all
  with assms(2) have "p < palettes_of layer" "c < 16" "0 < c" by (auto simp: surface_ok_def s)
  with hdmi_color_addr [OF assms(1)] show ?thesis unfolding first_surface_def Some s by simp
qed

lemma tile_engine_surface:
  assumes "length m = VRAM_SIZE" and "FG < 2" and "col < 320"
  shows "\<exists>p c. tile_surface m (te_layer FG) enable scroll row col = (te_layer FG, p, c) \<and> p < 16 \<and> c < 16
    \<and> tile_engine FG scroll enable (image_vram m) row col = p * 16 + c"
  using tile_surface_ok [of m "te_layer FG" enable scroll row col]
  by (auto simp: tile_engine_draws_layer [OF assms] tile_surface_def surface_ok_def palettes_of_def te_layer_def
      split: prod.splits)

text \<open>The winner of the tournament in place of the sprites of every level.\<close>

definition head_surface :: "(sprite_conf \<Rightarrow> nat \<times> nat) \<Rightarrow> sprite_conf list \<Rightarrow> layer_e \<times> nat \<times> nat" where
  "head_surface g cs = (LAYER_SPR, case cs of [] \<Rightarrow> (0, 0) | c # _ \<Rightarrow> g c)"

lemma head_surface_simps [simp]:
  "head_surface g [] = (LAYER_SPR, 0, 0)" "head_surface g (c # cs) = (LAYER_SPR, g c)"
  by (simp_all add: head_surface_def)

lemma first_of_levels:
  assumes "(\<forall>c \<in> set (A @ B @ C). snd (g c) \<noteq> 0) \<or> (\<forall>c. g c = (0, 0))" and "A @ B @ C = c # rest"
    and "l = (if A \<noteq> [] then 2 else if B \<noteq> [] then 1 else (0 :: nat))"
  shows "first_surface [head_surface g A, fg, head_surface g B, bg, head_surface g C]
    = (let s = (\<lambda>k. if k = l then (LAYER_SPR, g c) else (LAYER_SPR, 0, 0)) in first_surface [s 2, fg, s 1, bg, s 0])"
proof (cases "\<forall>c. g c = (0, 0)")
  case True
  then have "head_surface g cs = (LAYER_SPR, 0, 0)" for cs by (cases cs) simp_all
  with True show ?thesis by simp
next
  case False
  with assms(1) have "\<forall>c \<in> set (A @ B @ C). snd (g c) \<noteq> 0" by blast
  with assms(2,3) show ?thesis
    by (cases A; cases B; cases "g c") (auto simp: first_surface_def)
qed

lemma winner_surface:
  fixes row :: nat and enable :: bool
  assumes m: "length m = VRAM_SIZE" and col: "col < 512"
  defines "S \<equiv> \<lambda>l. sprite_surface m enable l row col"
  shows "\<exists>sp sc f b. sprite_engine enable (image_vram m) buf row col = (sp * 16 + sc, of_bool f * 2 + of_bool b)
    \<and> sp < 32 \<and> sc < 16
    \<and> (\<forall>fg bg. first_surface [S 2, fg, S 1, bg, S 0] =
        (let s = (\<lambda>l. if l = (if f then 2 else if b then 1 else 0 :: nat) then (LAYER_SPR, sp, sc) else (LAYER_SPR, 0, 0))
         in first_surface [s 2, fg, s 1, bg, s 0]))"
proof -
  define L where "L l = filter (\<lambda>c. drawn m row col c \<and> level c = l) (line_sprites m row)" for l
  define g where "g c = (if enable then (conf_palette c, conf_pixel m row col c) else (0, 0))" for c
  have S: "S l = head_surface g (L l)" for l
    by (simp add: S_def sprite_surface_def head_surface_def L_def g_def split: list.split)
  have top: "top_sprite (filter (drawn m row col) (line_sprites m row))
      = (case L 2 @ L 1 @ L 0 of [] \<Rightarrow> None | c # _ \<Rightarrow> Some c)"
    by (simp add: top_levels L_def conj_commute)
  note engine = sprite_engine_winner [OF m col, of enable buf row, unfolded top]
  have in_L: "c \<in> set (L l) \<Longrightarrow> conf_ok c \<and> conf_pixel m row col c \<noteq> 0 \<and> level c = l" for c l
    using line_sprites_ok by (auto simp: L_def drawn_def)
  show ?thesis
  proof (cases "L 2 @ L 1 @ L 0")
    case Nil
    then show ?thesis
      unfolding engine S by (intro exI [of _ 0] exI [of _ False]) simp
  next
    case (Cons c rest)
    then have "c \<in> set (L 2 @ L 1 @ L 0)" by simp
    then have c: "conf_ok c" "conf_pixel m row col c < 16"
      using in_L by (auto simp: conf_pixel_def Let_def)
    have lv: "(if L 2 \<noteq> [] then 2 else if L 1 \<noteq> [] then 1 else 0) = level c"
      using Cons in_L [of c 2] in_L [of c 1] in_L [of c 0] by (cases "L 2"; cases "L 1"; cases "L 0") auto
    have nz: "(\<forall>c \<in> set (L 2 @ L 1 @ L 0). snd (g c) \<noteq> 0) \<or> (\<forall>c. g c = (0, 0))"
    proof (cases enable)
      case True
      then show ?thesis using in_L [THEN conjunct2, THEN conjunct1] by (simp add: g_def) blast
    qed (simp add: g_def)
    note f = first_of_levels [OF nz Cons lv [symmetric]]
    obtain sp sc where gc: "g c = (sp, sc)" by (cases "g c")
    then have "sprite_engine enable (image_vram m) buf row col
        = (sp * 16 + sc, of_bool (conf_fg_prio c) * 2 + of_bool (conf_bg_prio c))"
      unfolding engine Cons by (auto simp: g_def split: if_splits)
    moreover have "sp < 32" "sc < 16" using c gc by (auto simp: g_def conf_ok_def split: if_splits)
    moreover note f [unfolded level_def gc, folded S]
    ultimately show ?thesis by blast
  qed
qed

lemma paints:
  assumes m: "length m = VRAM_SIZE" and col: "col < 320"
  shows "ppu_logic r (image_vram m) pat_buf row col = painted m r row col"
proof -
  let ?en = "\<lambda>k. bits k k (dbuf_enable r) = 1"
  obtain fp fc where fg: "tile_surface m LAYER_FG (?en 1) (dbuf_fgscroll r) row col = (LAYER_FG, fp, fc)"
      "fp < 16" "fc < 16" "tile_engine 1 (dbuf_fgscroll r) (?en 1) (image_vram m) row col = fp * 16 + fc"
    using tile_engine_surface [OF m _ col, of 1 "?en 1" "dbuf_fgscroll r" row] by (auto simp: te_layer_def)
  obtain bp bc where bg: "tile_surface m LAYER_BG (?en 0) (dbuf_bgscroll r) row col = (LAYER_BG, bp, bc)"
      "bp < 16" "bc < 16" "tile_engine 0 (dbuf_bgscroll r) (?en 0) (image_vram m) row col = bp * 16 + bc"
    using tile_engine_surface [OF m _ col, of 0 "?en 0" "dbuf_bgscroll r" row] by (auto simp: te_layer_def)
  have col512: "sprite_col col < 512" by (simp add: sprite_col_def)
  obtain sp sc f b where s: "sprite_engine (?en 2) (image_vram m) pat_buf row (sprite_col col) = (sp * 16 + sc, of_bool f * 2 + of_bool b)"
      "sp < 32" "sc < 16"
    and all: "\<forall>fg bg. first_surface [sprite_surface m (?en 2) 2 row (sprite_col col), fg, sprite_surface m (?en 2) 1 row (sprite_col col), bg,
          sprite_surface m (?en 2) 0 row (sprite_col col)] =
        (let s = (\<lambda>l. if l = (if f then 2 else if b then 1 else 0 :: nat) then (LAYER_SPR, sp, sc) else (LAYER_SPR, 0, 0))
         in first_surface [s 2, fg, s 1, bg, s 0])"
    using winner_surface [OF m col512, of "?en 2" pat_buf row] by blast
  have first: "first_surface (surfaces m r row col) =
        (let s = (\<lambda>l. if l = (if f then 2 else if b then 1 else 0 :: nat) then (LAYER_SPR, sp, sc) else (LAYER_SPR, 0, 0))
         in first_surface [s 2, (LAYER_FG, fp, fc), s 1, (LAYER_BG, bp, bc), s 0])"
    unfolding surfaces_def Let_def fg(1) bg(1) using all [unfolded Let_def] by blast
  have "ppu_logic r (image_vram m) pat_buf row col
      = hdmi_color (image_vram m) (dbuf_bgcolor r) (first_surface (surfaces m r row col))"
    unfolding ppu_logic_def row_pixels_def fg(4) bg(4) s(1) first
    by (subst mixer_first) (use fg bg s in auto)
  also have "\<dots> = painted m r row col"
    unfolding painted_def
    by (rule hdmi_first_surface [OF m]) (simp add: surfaces_def Let_def tile_surface_ok sprite_surface_ok)
  finally show ?thesis .
qed

end
