(* ===== verification/PpuFsm.thy ===== *)
theory PpuFsm
  imports HwTransfer Screen
begin

text \<open>
  The pixel processing unit as one circuit (\<^verbatim>\<open>ppu.sv\<close>): its state machine, the register
  the processor writes an address to, the DMA engine, the two sides of the video memory with
  the sync writer between them, the double-buffered control registers, and the counters of
  the video output that time the blanking.  One step is one cycle of the 50 MHz clock.
\<close>

section \<open>The parts\<close>

text \<open>The address register (\<^verbatim>\<open>pio_write_w_avail.sv\<close>); a write beats the acknowledgement.\<close>

record pio =
  pio_update_avail :: bool
  pio_rddata :: nat

definition pio_step :: "nat option \<Rightarrow> bool \<Rightarrow> pio \<Rightarrow> pio" where
  "pio_step write read_rst p =
     (case write of
        Some a \<Rightarrow> \<lparr>pio_update_avail = True, pio_rddata = a\<rparr>
      | None \<Rightarrow> if read_rst then p\<lparr>pio_update_avail := False\<rparr> else p)"

text \<open>The position in the video frame.\<close>

record video =
  h_count :: nat
  v_count :: nat

definition video_step :: "video \<Rightarrow> video" where
  "video_step v =
     \<lparr>h_count = if h_count v = 799 then 0 else (h_count v + 1) mod 2 ^ 10,
      v_count = if h_count v = 799 then (if v_count v = 524 then 0 else (v_count v + 1) mod 2 ^ 10) else v_count v\<rparr>"

definition vblank_start :: "video \<Rightarrow> bool" where
  "vblank_start v \<longleftrightarrow> v_count v = 525 - 10 \<and> h_count v = 0"

definition vblank_end_soon :: "video \<Rightarrow> bool" where
  "vblank_end_soon v \<longleftrightarrow> v_count v = 2 + 33 - 2 \<and> h_count v = 0"

text \<open>
  The control of the DMA engine.  A word counts as moved in the cycle in which the bus takes
  the write (\<open>grant\<close>); the words that wait between the two buses do so in order, in a memory
  that nobody writes.
\<close>

record dma_regs =
  de_started :: bool
  de_done_write :: bool
  de_done :: bool
  de_readaddress :: nat
  de_writeaddress :: nat
  de_writelength :: nat

definition dma_inc :: "bool \<Rightarrow> dma_regs \<Rightarrow> bool" where
  "dma_inc grant d \<longleftrightarrow> grant \<and> de_started d \<and> de_writelength d \<noteq> 0"

definition dma_engine_step :: "bool \<Rightarrow> nat \<Rightarrow> bool \<Rightarrow> dma_regs \<Rightarrow> dma_regs" where
  "dma_engine_step start src_addr grant d =
     (let go = (start \<and> \<not> de_started d);
          inc = dma_inc grant d;
          p1_writelength = (if go then 0xD140 else if inc then de_writelength d - 16 else de_writelength d)
      in \<lparr>de_started = (if de_started d then \<not> de_done_write d else start),
          de_done_write = (\<not> go \<and> p1_writelength = 0),
          de_done = (de_started d \<and> de_done_write d),
          de_readaddress = (if go then src_addr else if inc then (de_readaddress d + 16) mod 2 ^ 32
                            else de_readaddress d),
          de_writeaddress = (if p1_writelength = 0 \<or> go then 0
                             else if inc then (de_writeaddress d + 16) mod 2 ^ 16 else de_writeaddress d),
          de_writelength = p1_writelength\<rparr>)"

section \<open>The state machine\<close>

datatype ppu_state = PPU_IDLE | PPU_DISP | PPU_SYNC

record ppu_fsm =
  fsm_state :: ppu_state
  vram_sync :: bool
  dma_rdy_for_sync :: bool
  dma_engine_src_addr :: nat
  dma_engine_start :: bool
  ppu_dma_rdy_irq :: bool

record ppu_fsm_in =
  i_vblank_start :: bool
  i_vblank_end_soon :: bool
  i_vram_sync_done :: bool
  i_dma_engine_finish :: bool
  i_update_avail :: bool
  i_rddata :: nat

definition vramsrcaddrpio_read_rst :: "ppu_fsm_in \<Rightarrow> ppu_fsm \<Rightarrow> bool" where
  "vramsrcaddrpio_read_rst i s \<longleftrightarrow> i_update_avail i \<and> \<not> dma_rdy_for_sync s"

definition ppu_fsm_step :: "ppu_fsm_in \<Rightarrow> ppu_fsm \<Rightarrow> ppu_fsm" where
  "ppu_fsm_step i s =
     \<lparr>fsm_state =
        (case fsm_state s of
           PPU_IDLE \<Rightarrow> if i_vblank_end_soon i then PPU_DISP else PPU_IDLE
         | PPU_DISP \<Rightarrow> if i_vblank_start i then (if dma_rdy_for_sync s then PPU_SYNC else PPU_IDLE) else PPU_DISP
         | PPU_SYNC \<Rightarrow> if i_vblank_end_soon i then PPU_DISP else PPU_SYNC),
      vram_sync = (fsm_state s = PPU_DISP \<and> i_vblank_start i \<and> dma_rdy_for_sync s),
      dma_rdy_for_sync =
        (if i_dma_engine_finish i then True
         else if fsm_state s = PPU_SYNC \<and> i_vram_sync_done i then False
         else dma_rdy_for_sync s),
      dma_engine_src_addr = (if vramsrcaddrpio_read_rst i s then i_rddata i else dma_engine_src_addr s),
      dma_engine_start = vramsrcaddrpio_read_rst i s,
      ppu_dma_rdy_irq = (fsm_state s = PPU_SYNC \<and> i_vram_sync_done i)\<rparr>"

section \<open>The circuit\<close>

record ppu_hw =
  hw_pio :: pio
  hw_fsm :: ppu_fsm
  hw_dma :: dma_regs
  hw_c :: vram_c
  hw_vs :: vram_sync_writer
  hw_ctrl :: dbuf_regs
  hw_video :: video

text \<open>
  What comes from outside in a cycle: a write of the processor to the address register, the
  control registers it has set, its memory, whether the bus takes a word, and whether the
  video clock ticks.
\<close>

record hw_in =
  in_write :: "nat option"
  in_ctrl :: dbuf_regs
  in_mem :: "nat \<Rightarrow> nat"
  in_grant :: bool
  in_vclk :: bool

text \<open>The interconnect gives the ports of the video memory to the sync writer in \<open>PPU_SYNC\<close> only.\<close>

definition sync_routed :: "bool \<Rightarrow> vram_sync_writer \<Rightarrow> vram_sync_writer \<Rightarrow> vram_sync_writer" where
  "sync_routed sync_active v v' =
     (if sync_active then v'
      else v'\<lparr>vs_copiers := map2 (\<lambda>old new. new\<lparr>cp_dest := cp_dest old\<rparr>) (vs_copiers v) (vs_copiers v')\<rparr>)"

definition fsm_inputs :: "ppu_hw \<Rightarrow> ppu_fsm_in" where
  "fsm_inputs s =
     \<lparr>i_vblank_start = vblank_start (hw_video s), i_vblank_end_soon = vblank_end_soon (hw_video s),
      i_vram_sync_done = vs_done (hw_vs s), i_dma_engine_finish = de_done (hw_dma s),
      i_update_avail = pio_update_avail (hw_pio s), i_rddata = pio_rddata (hw_pio s)\<rparr>"

definition dbuf_step :: "bool \<Rightarrow> dbuf_regs \<Rightarrow> dbuf_regs \<Rightarrow> dbuf_regs" where
  "dbuf_step sync ppu_ctrl d = (if sync then ppu_ctrl else d)"

definition hw_step :: "hw_in \<Rightarrow> ppu_hw \<Rightarrow> ppu_hw" where
  "hw_step inp s =
     (let f = hw_fsm s; d = hw_dma s; i = fsm_inputs s
      in \<lparr>hw_pio = pio_step (in_write inp) (vramsrcaddrpio_read_rst i f) (hw_pio s),
          hw_fsm = ppu_fsm_step i f,
          hw_dma = dma_engine_step (dma_engine_start f) (dma_engine_src_addr f) (in_grant inp) d,
          hw_c = (if dma_inc (in_grant inp) d
                  then h2f_write (de_writeaddress d div 16) (in_mem inp (de_readaddress d)) (hw_c s) else hw_c s),
          hw_vs = sync_routed (fsm_state f = PPU_SYNC) (hw_vs s) (vram_sync_writer_step (hw_c s) (vram_sync f) (hw_vs s)),
          hw_ctrl = dbuf_step (vram_sync f) (in_ctrl inp) (hw_ctrl s),
          hw_video = (if in_vclk inp then video_step (hw_video s) else hw_video s)\<rparr>)"

text \<open>The state after a reset, with RAMs of any contents of the right sizes.\<close>

definition hw_reset :: "vram_c \<Rightarrow> vram_p \<Rightarrow> ppu_hw" where
  "hw_reset c p =
     \<lparr>hw_pio = \<lparr>pio_update_avail = False, pio_rddata = 0\<rparr>,
      hw_fsm = \<lparr>fsm_state = PPU_IDLE, vram_sync = False, dma_rdy_for_sync = False, dma_engine_src_addr = 0,
                dma_engine_start = False, ppu_dma_rdy_irq = False\<rparr>,
      hw_dma = \<lparr>de_started = False, de_done_write = True, de_done = False, de_readaddress = 0,
                de_writeaddress = 0, de_writelength = 0\<rparr>,
      hw_c = c,
      hw_vs = \<lparr>vs_sync = False, vs_dones = replicate 4 False,
               vs_copiers = map (\<lambda>d. \<lparr>cp_sw = \<lparr>sw_sync = False, sw_done = False, sw_from = 0, sw_to = 0,
                                               sw_to_buf = 0, sw_wren = False\<rparr>,
                                      cp_port = \<lparr>rp_addr = 0, rp_q = 0\<rparr>, cp_dest = d\<rparr>)
                            [p_tilram p, p_patram p, p_palram p, p_sprram p]\<rparr>,
      hw_ctrl = \<lparr>dbuf_bgscroll = 0, dbuf_fgscroll = 0, dbuf_enable = 0, dbuf_bgcolor = 0\<rparr>,
      hw_video = \<lparr>h_count = 0, v_count = 0\<rparr>\<rparr>"

primrec hw_run :: "(nat \<Rightarrow> hw_in) \<Rightarrow> nat \<Rightarrow> ppu_hw \<Rightarrow> ppu_hw" where
  "hw_run inp 0 s = s"
| "hw_run inp (Suc n) s = hw_step (inp n) (hw_run inp n s)"

text \<open>The memory and the registers that the drawing circuits read.\<close>

definition shown :: "ppu_hw \<Rightarrow> vram_p \<times> dbuf_regs" where
  "shown s = (p_rams (hw_vs s), hw_ctrl s)"

section \<open>The video counters\<close>

definition video_ok :: "video \<Rightarrow> bool" where
  "video_ok v \<longleftrightarrow> h_count v < 800 \<and> v_count v < 525"

text \<open>Ticks of the video clock since the last start of the blanking.\<close>

definition since :: "video \<Rightarrow> nat" where
  "since v = (800 * v_count v + h_count v + 8000) mod 420000"

lemma video_step_ok: "video_ok v \<Longrightarrow> video_ok (video_step v)"
  by (auto simp: video_ok_def video_step_def)

lemma since_step:
  assumes "video_ok v"
  shows "since (video_step v) = (since v + 1) mod 420000"
proof -
  have "(800 * v_count (video_step v) + h_count (video_step v) + 8000) mod 420000
      = (800 * v_count v + h_count v + 8000 + 1) mod 420000"
    using assms by (auto simp: video_ok_def video_step_def mod_if)
  then show ?thesis unfolding since_def by (simp add: mod_Suc_eq)
qed

lemma since_less: "since v < 420000"
  by (simp add: since_def)

lemma since_blank:
  assumes "video_ok v"
  shows "vblank_start v \<longleftrightarrow> since v = 0" and "vblank_end_soon v \<longleftrightarrow> since v = 34400"
proof -
  define x where "x = 800 * v_count v + h_count v"
  have x: "x < 420000" "x div 800 = v_count v" "x mod 800 = h_count v"
    using assms by (simp_all add: video_ok_def x_def)
  have s: "since v = (if x < 412000 then x + 8000 else x - 412000)"
    using x(1) by (simp add: since_def x_def [symmetric] mod_if)
  have "vblank_start v \<longleftrightarrow> x = 412000"
    using x mult_div_mod_eq [of 800 x] by (auto simp: vblank_start_def x(2,3) [symmetric] simp del: mult_div_mod_eq)
  then show "vblank_start v \<longleftrightarrow> since v = 0" using s x(1) by auto
  have "vblank_end_soon v \<longleftrightarrow> x = 26400"
    using x mult_div_mod_eq [of 800 x] by (auto simp: vblank_end_soon_def x(2,3) [symmetric] simp del: mult_div_mod_eq)
  then show "vblank_end_soon v \<longleftrightarrow> since v = 34400" using s x(1) by auto
qed

end
