(* ===== verification/PpuUpdate.thy ===== *)
theory PpuUpdate
  imports PpuFsm
begin

text \<open>
  What an update goes through between the write of its address and the interrupt: the
  phases as an invariant of the circuit.  From it: the drawing circuits never see a part of
  an update, the interrupt comes after the update is on display and not before, and it does
  come.
\<close>

section \<open>Phases\<close>

datatype phase =
    is_Free: Free
  | is_Written: Written nat
  | is_Starting: Starting nat
  | is_Moving: Moving
  | is_Landed: Landed
  | is_Waiting: Waiting
  | is_Copying: Copying nat

fun next_phase :: "hw_in \<Rightarrow> ppu_hw \<Rightarrow> phase \<Rightarrow> phase" where
  "next_phase inp s Free = (case in_write inp of None \<Rightarrow> Free | Some a \<Rightarrow> Written a)"
| "next_phase inp s (Written a) = Starting a"
| "next_phase inp s (Starting a) = Moving"
| "next_phase inp s Moving = (if de_done_write (hw_dma s) then Landed else Moving)"
| "next_phase inp s Landed = Waiting"
| "next_phase inp s Waiting =
     (if fsm_state (hw_fsm s) = PPU_DISP \<and> vblank_start (hw_video s) then Copying 0 else Waiting)"
| "next_phase inp s (Copying j) = (if j = 2052 then Free else Copying (Suc j))"

text \<open>The sync writer in the middle of a copy.\<close>

fun vs_at :: "phase \<Rightarrow> vram_c \<Rightarrow> vram_sync_writer \<Rightarrow> bool" where
  "vs_at (Copying (Suc j)) c v \<longleftrightarrow>
     j \<le> 2051 \<and> (\<exists>v0. vs_idle v0 \<and> vram_p_ok (p_rams v0) \<and> length (vs_copiers v0) = 4 \<and> v = vs_run c j v0)"
| "vs_at ph c v \<longleftrightarrow> vs_idle v \<and> vram_p_ok (p_rams v) \<and> length (vs_copiers v) = 4"

definition in_phase :: "phase \<Rightarrow> ppu_hw \<Rightarrow> bool" where
  "in_phase ph s \<longleftrightarrow>
     (pio_update_avail (hw_pio s) \<longleftrightarrow> is_Written ph)
     \<and> (dma_engine_start (hw_fsm s) \<longleftrightarrow> is_Starting ph)
     \<and> (de_started (hw_dma s) \<longleftrightarrow> is_Moving ph)
     \<and> (de_done (hw_dma s) \<longleftrightarrow> is_Landed ph)
     \<and> (dma_rdy_for_sync (hw_fsm s) \<longleftrightarrow> is_Waiting ph \<or> is_Copying ph)
     \<and> (vram_sync (hw_fsm s) \<longleftrightarrow> ph = Copying 0)
     \<and> (ppu_dma_rdy_irq (hw_fsm s) \<longrightarrow> is_Free ph)
     \<and> (\<forall>a. ph = Written a \<longrightarrow> pio_rddata (hw_pio s) = a)
     \<and> (\<forall>a. ph = Starting a \<longrightarrow> dma_engine_src_addr (hw_fsm s) = a)
     \<and> (is_Moving ph \<and> de_done_write (hw_dma s) \<longrightarrow> de_writelength (hw_dma s) = 0)
     \<and> (\<forall>j. ph = Copying j \<longrightarrow> fsm_state (hw_fsm s) = PPU_SYNC \<and> since (hw_video s) \<le> j + 1)
     \<and> vs_at ph (hw_c s) (hw_vs s) \<and> vram_c_ok (hw_c s) \<and> video_ok (hw_video s)"

section \<open>The sync writer when nothing is copied\<close>

lemma upt_4: "[0..<4] = [0, Suc 0, 2, 3]"
  by (simp add: upt_rec)

lemma length4: "length xs = 4 \<Longrightarrow> xs = [xs ! 0, xs ! 1, xs ! 2, xs ! 3]"
  by (auto simp: length_Suc_conv numeral_eq_Suc)

lemma vs_rests:
  assumes v: "vs_idle v" "length (vs_copiers v) = 4"
  shows "vs_idle (vram_sync_writer_step c False v) \<and> p_rams (vram_sync_writer_step c False v) = p_rams v
    \<and> length (vs_copiers (vram_sync_writer_step c False v)) = 4"
  using v by (simp add: vram_sync_writer_step_def vs_idle_def p_rams_def copier_step_def sync_writer_step_def
    numeral_2_eq_2)

lemma sync_routed_simps:
  "sync_routed True v v' = v'"
  "length (vs_copiers v) = 4 \<Longrightarrow> length (vs_copiers v') = 4 \<Longrightarrow>
   p_rams (sync_routed False v v') = p_rams v \<and> vs_idle (sync_routed False v v') = vs_idle v'
   \<and> length (vs_copiers (sync_routed b v v')) = 4"
  by (auto simp: sync_routed_def p_rams_def vs_idle_def)

lemma vs_rests_routed:
  assumes v: "vs_idle v" "length (vs_copiers v) = 4" "vram_p_ok (p_rams v)"
  shows "vs_idle (sync_routed b v (vram_sync_writer_step c False v))
    \<and> p_rams (sync_routed b v (vram_sync_writer_step c False v)) = p_rams v
    \<and> length (vs_copiers (sync_routed b v (vram_sync_writer_step c False v))) = 4"
  using vs_rests [OF v(1,2), of c] v sync_routed_simps(2) [of v "vram_sync_writer_step c False v"]
  by (cases b) (simp_all add: sync_routed_simps(1))

lemma vs_done_idle: "vs_idle v \<Longrightarrow> \<not> vs_done v"
  by (simp add: vs_idle_def vs_done_def numeral_eq_Suc)

lemma vs_run_length: "length (vs_copiers (vs_run c j v)) = 4"
  by (simp add: vs_copiers_run)

lemma vram_p_ok_run:
  assumes "vs_idle v" "vram_p_ok (p_rams v)" "vram_c_ok c" "2050 \<le> j"
  shows "vram_p_ok (p_rams (vs_run c j v))"
  using assms vs_run_rams [OF assms] by (simp add: vram_p_ok_def vram_c_ok_def)

lemma vs_at_not_copying: "\<not> is_Copying ph \<Longrightarrow>
  vs_at ph c v \<longleftrightarrow> vs_idle v \<and> vram_p_ok (p_rams v) \<and> length (vs_copiers v) = 4"
  by (cases ph) simp_all

section \<open>Each cycle keeps the phase\<close>

lemma vs_at_step:
  assumes s: "in_phase ph s"
  shows "vs_at (next_phase inp s ph) (hw_c (hw_step inp s)) (hw_vs (hw_step inp s))"
proof (cases "is_Copying ph")
  case False
  then have "\<not> vram_sync (hw_fsm s)" and v: "vs_idle (hw_vs s)" "length (vs_copiers (hw_vs s)) = 4" "vram_p_ok (p_rams (hw_vs s))"
    using s by (auto simp: in_phase_def vs_at_not_copying)
  with vs_rests_routed [OF v, of "fsm_state (hw_fsm s) = PPU_SYNC" "hw_c s"] False show ?thesis
    by (cases ph) (auto simp: hw_step_def Let_def split: option.split)
next
  case True
  then obtain j where ph: "ph = Copying j" by (cases ph) auto
  have sync: "fsm_state (hw_fsm s) = PPU_SYNC" and c: "vram_c_ok (hw_c s)" and vs: "vs_at ph (hw_c s) (hw_vs s)"
    and same: "hw_c (hw_step inp s) = hw_c s"
    using s by (auto simp: in_phase_def ph hw_step_def Let_def dma_inc_def)
  have step: "hw_vs (hw_step inp s) = vram_sync_writer_step (hw_c s) (vram_sync (hw_fsm s)) (hw_vs s)"
    using sync by (simp add: hw_step_def Let_def sync_routed_simps)
  show ?thesis
  proof (cases j)
    case 0
    then have "vram_sync (hw_fsm s)" using s by (simp add: in_phase_def ph)
    then have "hw_vs (hw_step inp s) = vs_run (hw_c s) 0 (hw_vs s)" by (simp add: step vs_run_def)
    then show ?thesis using vs by (auto simp: ph 0 same)
  next
    case (Suc i)
    then obtain v0 where v0: "vs_idle v0" "vram_p_ok (p_rams v0)" "length (vs_copiers v0) = 4" "i \<le> 2051"
        "hw_vs s = vs_run (hw_c s) i v0"
      using vs by (auto simp: ph)
    have "\<not> vram_sync (hw_fsm s)" using s by (simp add: in_phase_def ph Suc)
    then have run: "hw_vs (hw_step inp s) = vs_run (hw_c s) (Suc i) v0" by (simp add: step v0(5) vs_run_Suc)
    show ?thesis
    proof (cases "i = 2051")
      case True
      then show ?thesis
        using run vs_rest [OF v0(1)] vram_p_ok_run [OF v0(1,2) c, of 2052] by (simp add: ph Suc vs_run_length)
    next
      case False
      then show ?thesis using v0 run by (auto simp: ph Suc same)
    qed
  qed
qed

lemma phase_done:
  assumes s: "in_phase ph s"
  shows "vs_done (hw_vs s) \<longleftrightarrow> ph = Copying 2052"
proof (cases "\<exists>j. ph = Copying (Suc j)")
  case True
  then obtain j where ph: "ph = Copying (Suc j)" by blast
  have "vs_at ph (hw_c s) (hw_vs s)" using s by (simp add: in_phase_def)
  then obtain v0 where "vs_idle v0" "j \<le> 2051" "hw_vs s = vs_run (hw_c s) j v0" unfolding ph by auto
  then show ?thesis using vs_done_run [of v0 j "hw_c s"] by (simp add: ph)
next
  case False
  have "vs_at ph (hw_c s) (hw_vs s)" using s by (simp add: in_phase_def)
  moreover have "\<not> is_Copying ph \<or> ph = Copying 0" using False by (metis is_Copying_def not0_implies_Suc)
  ultimately have "vs_idle (hw_vs s)" by (auto simp: vs_at_not_copying)
  moreover have "ph \<noteq> Copying 2052"
  proof -
    have "(2052 :: nat) = Suc 2051" by simp
    then show ?thesis using False by metis
  qed
  ultimately show ?thesis using vs_done_idle by blast
qed

lemma hw_c_step_ok: "vram_c_ok (hw_c s) \<Longrightarrow> vram_c_ok (hw_c (hw_step inp s))"
  by (simp add: hw_step_def Let_def h2f_write_ok)

lemma since_hw_step:
  assumes "video_ok (hw_video s)"
  shows "video_ok (hw_video (hw_step inp s)) \<and> since (hw_video (hw_step inp s)) \<le> since (hw_video s) + 1"
proof -
  have "since (video_step (hw_video s)) \<le> since (hw_video s) + 1"
    using since_step [OF assms] by (metis mod_less_eq_dividend)
  then show ?thesis using assms by (simp add: hw_step_def Let_def video_step_ok)
qed

lemmas hw_step_defs = hw_step_def fsm_inputs_def ppu_fsm_step_def vramsrcaddrpio_read_rst_def
  dma_engine_step_def dma_inc_def pio_step_def Let_def

lemma phase_step:
  assumes s: "in_phase ph s" and w: "in_write inp \<noteq> None \<Longrightarrow> is_Free ph"
  shows "in_phase (next_phase inp s ph) (hw_step inp s)"
proof -
  have v: "video_ok (hw_video s)" and c: "vram_c_ok (hw_c s)" using s by (simp_all add: in_phase_def)
  note keep = vs_at_step [OF s, of inp] hw_c_step_ok [OF c, of inp] since_hw_step [OF v, of inp] since_blank [OF v] phase_done [OF s]
  have none: "in_write inp = None" if "\<not> is_Free ph" using w that by blast
  show ?thesis
  proof (cases ph)
    case Free
    with s keep show ?thesis unfolding in_phase_def
      by (auto simp: hw_step_defs split: option.split)
  next
    case (Written a)
    with s none keep show ?thesis unfolding in_phase_def by (simp add: hw_step_defs)
  next
    case (Starting a)
    with s none keep show ?thesis unfolding in_phase_def by (simp add: hw_step_defs)
  next
    case Moving
    with s none keep show ?thesis unfolding in_phase_def by (auto simp: hw_step_defs)
  next
    case Landed
    with s none keep show ?thesis unfolding in_phase_def by (simp add: hw_step_defs)
  next
    case Waiting
    with s none keep show ?thesis unfolding in_phase_def by (auto simp: hw_step_defs)
  next
    case (Copying j)
    with s none keep show ?thesis unfolding in_phase_def by (auto simp: hw_step_defs)
  qed
qed

section \<open>The contents\<close>

text \<open>The memory holds the image \<open>m\<close> at \<open>src\<close>, read in words of sixteen bytes.\<close>

definition mem_holds :: "(nat \<Rightarrow> nat) \<Rightarrow> nat \<Rightarrow> u8 list \<Rightarrow> bool" where
  "mem_holds mem src m \<longleftrightarrow> (\<forall>i < 0xD14. mem (src + 16 * i) = word_num (segment (16 * i) 16 m))"

definition moved :: "u8 list \<Rightarrow> nat \<Rightarrow> vram_c \<Rightarrow> vram_c" where
  "moved m k c = fold (\<lambda>i. h2f_write i (word_num (segment (16 * i) 16 m))) [0..<k] c"

lemma moved_Suc: "moved m (Suc k) c = h2f_write k (word_num (segment (16 * k) 16 m)) (moved m k c)"
  by (simp add: moved_def)

lemma moved_all: "vram_c_ok c \<Longrightarrow> moved m 0xD14 c = image_vram_c m"
  using dma_engine_image [of c 0 m] dma_run_fold [of "image_mem 0 m" 0 0 "0xD14" c]
  by (simp add: dma_engine_def moved_def image_mem_def)

definition content_ok :: "nat \<Rightarrow> u8 list \<Rightarrow> phase \<Rightarrow> ppu_hw \<Rightarrow> bool" where
  "content_ok src m ph s \<longleftrightarrow>
     (\<forall>a. ph = Written a \<or> ph = Starting a \<longrightarrow> a = src)
     \<and> (is_Moving ph \<longrightarrow> (\<exists>k c0. k \<le> 0xD14 \<and> vram_c_ok c0 \<and> hw_c s = moved m k c0
           \<and> de_writelength (hw_dma s) = 16 * (0xD14 - k)
           \<and> (k < 0xD14 \<longrightarrow> de_readaddress (hw_dma s) = src + 16 * k \<and> de_writeaddress (hw_dma s) = 16 * k)))
     \<and> (is_Landed ph \<or> is_Waiting ph \<or> is_Copying ph \<longrightarrow> hw_c s = image_vram_c m)"

lemma content_start:
  assumes s: "in_phase (Starting src) s"
  shows "content_ok src m Moving (hw_step inp s)"
proof -
  have "hw_c (hw_step inp s) = moved m 0 (hw_c s)" "de_writelength (hw_dma (hw_step inp s)) = 16 * (0xD14 - 0)"
    "de_readaddress (hw_dma (hw_step inp s)) = src + 16 * 0" "de_writeaddress (hw_dma (hw_step inp s)) = 16 * 0"
    "vram_c_ok (hw_c s)"
    using s by (simp_all add: in_phase_def hw_step_defs moved_def)
  then show ?thesis unfolding content_ok_def by fastforce
qed

lemma content_move:
  assumes s: "in_phase Moving s" "content_ok src m Moving s" and src: "src + 0xD140 < 2 ^ 32"
    and mem: "mem_holds (in_mem inp) src m"
  shows "content_ok src m (next_phase inp s Moving) (hw_step inp s)"
proof -
  obtain k c0 where k: "k \<le> 0xD14" "vram_c_ok c0" "hw_c s = moved m k c0"
      "de_writelength (hw_dma s) = 16 * (0xD14 - k)"
      and addr: "k < 0xD14 \<Longrightarrow> de_readaddress (hw_dma s) = src + 16 * k \<and> de_writeaddress (hw_dma s) = 16 * k"
    using s(2) by (auto simp: content_ok_def)
  have st: "de_started (hw_dma s)" and dw: "de_done_write (hw_dma s) \<Longrightarrow> de_writelength (hw_dma s) = 0"
    using s(1) by (auto simp: in_phase_def)
  show ?thesis
  proof (cases "k = 0xD14")
    case True
    then have c: "hw_c (hw_step inp s) = image_vram_c m" "de_writelength (hw_dma (hw_step inp s)) = 0"
      using k st moved_all [OF k(2), of m] by (simp_all add: hw_step_defs)
    have "\<exists>k c0. k \<le> 0xD14 \<and> vram_c_ok c0 \<and> hw_c (hw_step inp s) = moved m k c0
        \<and> de_writelength (hw_dma (hw_step inp s)) = 16 * (0xD14 - k) \<and> (k < 0xD14 \<longrightarrow> P k)" for P
      using c moved_all [OF k(2), of m] k(2) by (intro exI [of _ "0xD14"] exI [of _ c0]) simp
    then show ?thesis using c(1) by (simp add: content_ok_def)
  next
    case False
    then have lt: "k < 0xD14" and nd: "\<not> de_done_write (hw_dma s)" using k dw by auto
    note a = addr [OF lt]
    define k' where "k' = (if in_grant inp then Suc k else k)"
    have m: "in_mem inp (src + 16 * k) = word_num (segment (16 * k) 16 m)" using mem lt by (simp add: mem_holds_def)
    have "hw_c (hw_step inp s) = moved m k' c0" "de_writelength (hw_dma (hw_step inp s)) = 16 * (0xD14 - k')" "k' \<le> 0xD14"
      "k' < 0xD14 \<longrightarrow> de_readaddress (hw_dma (hw_step inp s)) = src + 16 * k' \<and> de_writeaddress (hw_dma (hw_step inp s)) = 16 * k'"
      using k a lt st nd m src by (auto simp: k'_def hw_step_defs moved_Suc)
    then show ?thesis using k(2) nd unfolding content_ok_def by auto
  qed
qed

lemma content_step:
  assumes s: "in_phase ph s" "content_ok src m ph s" and src: "src + 0xD140 < 2 ^ 32" and ph: "\<not> is_Free ph"
    and mem: "mem_holds (in_mem inp) src m"
  shows "content_ok src m (next_phase inp s ph) (hw_step inp s)"
proof (cases ph)
  case Free
  with ph show ?thesis by simp
next
  case (Written a)
  with s(2) show ?thesis by (simp add: content_ok_def)
next
  case (Starting a)
  with s show ?thesis using content_start [of src s m inp] by (simp add: content_ok_def)
next
  case Moving
  with s show ?thesis using content_move [OF _ _ src mem] by simp
qed (use s in \<open>auto simp: content_ok_def in_phase_def hw_step_defs\<close>)

section \<open>What is shown\<close>

text \<open>The phases in which the memory on display is the one before the update.\<close>

definition untouched :: "phase \<Rightarrow> bool" where
  "untouched ph \<longleftrightarrow> \<not> is_Free ph \<and> (is_Copying ph \<longrightarrow> ph = Copying 0)"

lemma rams_step:
  assumes s: "in_phase ph s" and ph: "\<not> is_Copying ph"
  shows "p_rams (hw_vs (hw_step inp s)) = p_rams (hw_vs s)" "hw_ctrl (hw_step inp s) = hw_ctrl s"
proof -
  have v: "vs_idle (hw_vs s)" "length (vs_copiers (hw_vs s)) = 4" "vram_p_ok (p_rams (hw_vs s))" "\<not> vram_sync (hw_fsm s)"
    using s ph by (auto simp: in_phase_def vs_at_not_copying)
  from vs_rests_routed [OF v(1-3), of "fsm_state (hw_fsm s) = PPU_SYNC" "hw_c s"] v(4)
  show "p_rams (hw_vs (hw_step inp s)) = p_rams (hw_vs s)" "hw_ctrl (hw_step inp s) = hw_ctrl s"
    by (simp_all add: hw_step_def dbuf_step_def Let_def)
qed

lemma ctrl_step:
  assumes "in_phase ph s"
  shows "hw_ctrl (hw_step inp s) = (if ph = Copying 0 then in_ctrl inp else hw_ctrl s)"
  using assms by (simp add: in_phase_def hw_step_def dbuf_step_def Let_def)

lemma rams_copied:
  assumes s: "in_phase (Copying 2052) s" and c: "hw_c s = image_vram_c m"
  shows "p_rams (hw_vs (hw_step inp s)) = image_vram m"
proof -
  have "vs_at (Copying (Suc 2051)) (hw_c s) (hw_vs s)" and ok: "vram_c_ok (hw_c s)"
    using s by (simp_all add: in_phase_def)
  then obtain v0 where v0: "vs_idle v0" "vram_p_ok (p_rams v0)" "hw_vs s = vs_run (hw_c s) 2051 v0"
    unfolding vs_at.simps by blast
  have "hw_vs (hw_step inp s) = vs_run (hw_c s) 2052 v0"
    using s vs_run_Suc [of "hw_c s" 2051 v0] by (simp add: in_phase_def hw_step_def Let_def sync_routed_simps v0(3))
  then show ?thesis using vs_run_rams [OF v0(1,2) ok, of 2052] by (simp add: c image_vram_c_halves)
qed

text \<open>\<open>old\<close> is on display before the update; \<open>R\<close> are the registers it may have latched.\<close>

definition view_ok :: "u8 list \<Rightarrow> vram_p \<times> dbuf_regs \<Rightarrow> dbuf_regs set \<Rightarrow> phase \<Rightarrow> ppu_hw \<Rightarrow> bool" where
  "view_ok m old R ph s \<longleftrightarrow>
     (if untouched ph then shown s = old
      else snd (shown s) \<in> R \<and> (is_Free ph \<longrightarrow> fst (shown s) = image_vram m))"

lemma view_step:
  assumes s: "in_phase ph s" "view_ok m old R ph s" "content_ok src m ph s"
    and w: "in_write inp = None" and R: "R \<subseteq> R'" "vram_sync (hw_fsm s) \<Longrightarrow> in_ctrl inp \<in> R'"
  shows "view_ok m old R' (next_phase inp s ph) (hw_step inp s)"
proof (cases "is_Copying ph")
  case False
  note same = rams_step [OF s(1) False, of inp]
  have "shown (hw_step inp s) = shown s" by (simp add: shown_def same)
  moreover have "untouched (next_phase inp s ph) \<longleftrightarrow> untouched ph" "is_Free (next_phase inp s ph) \<longleftrightarrow> is_Free ph"
    using False w by (cases ph; simp add: untouched_def)+
  ultimately show ?thesis using s(2) R(1) by (auto simp: view_ok_def)
next
  case True
  then obtain j where ph: "ph = Copying j" by (cases ph) auto
  note ctrl = ctrl_step [OF s(1), of inp]
  have "hw_ctrl (hw_step inp s) \<in> R'"
  proof (cases "j = 0")
    case True
    then have "vram_sync (hw_fsm s)" using s(1) by (simp add: in_phase_def ph)
    then show ?thesis using R(2) ctrl True by (simp add: ph)
  next
    case False
    then show ?thesis using R(1) s(2) ctrl by (auto simp: ph view_ok_def untouched_def shown_def)
  qed
  moreover have "p_rams (hw_vs (hw_step inp s)) = image_vram m" if "j = 2052"
    using rams_copied [of s m inp] s that by (simp add: ph content_ok_def)
  ultimately show ?thesis by (auto simp: ph view_ok_def untouched_def shown_def)
qed

section \<open>One update\<close>

text \<open>The processor writes one address in the first cycle, where its memory holds the image.\<close>

definition one_update :: "(nat \<Rightarrow> hw_in) \<Rightarrow> nat \<Rightarrow> u8 list \<Rightarrow> bool" where
  "one_update inp src m \<longleftrightarrow>
     in_write (inp 0) = Some src \<and> (\<forall>k > 0. in_write (inp k) = None)
     \<and> (\<forall>k. mem_holds (in_mem (inp k)) src m) \<and> src + 0xD140 < 2 ^ 32"

primrec phase_run :: "(nat \<Rightarrow> hw_in) \<Rightarrow> nat \<Rightarrow> ppu_hw \<Rightarrow> phase" where
  "phase_run inp 0 s = Free"
| "phase_run inp (Suc n) s = next_phase (inp n) (hw_run inp n s) (phase_run inp n s)"

text \<open>The registers latched in the first \<open>n\<close> cycles.\<close>

definition latched :: "(nat \<Rightarrow> hw_in) \<Rightarrow> nat \<Rightarrow> ppu_hw \<Rightarrow> dbuf_regs set" where
  "latched inp n s = {in_ctrl (inp k) | k. k < n \<and> vram_sync (hw_fsm (hw_run inp k s))}"

lemma one_update_phase:
  assumes s: "in_phase Free s" and inp: "one_update inp src m"
  shows "in_phase (phase_run inp n s) (hw_run inp n s)"
proof (induction n)
  case (Suc n)
  have "in_write (inp n) \<noteq> None \<Longrightarrow> is_Free (phase_run inp n s)"
    using inp by (cases n) (auto simp: one_update_def)
  from phase_step [OF Suc this] show ?case by simp
qed (simp add: s)

lemma phase_run_1: "one_update inp src m \<Longrightarrow> phase_run inp (Suc 0) s = Written src"
  by (simp add: one_update_def)

lemma free_stays: "is_Free ph \<Longrightarrow> in_write inp = None \<Longrightarrow> next_phase inp s ph = Free"
  by (cases ph) simp_all

lemma one_update_content:
  assumes s: "in_phase Free s" and inp: "one_update inp src m"
  shows "is_Free (phase_run inp n s) \<and> 0 < n \<or> content_ok src m (phase_run inp n s) (hw_run inp n s)"
proof (induction n)
  case (Suc n)
  show ?case
  proof (cases "n = 0 \<or> is_Free (phase_run inp n s)")
    case True
    then show ?thesis
    proof
      assume "n = 0"
      then show ?thesis using phase_run_1 [OF inp, of s] by (simp add: content_ok_def)
    next
      assume f: "is_Free (phase_run inp n s)"
      show ?thesis
      proof (cases n)
        case 0
        then show ?thesis using phase_run_1 [OF inp, of s] by (simp add: content_ok_def)
      next
        case (Suc k)
        then show ?thesis using free_stays [OF f] inp by (simp add: one_update_def)
      qed
    qed
  next
    case False
    then show ?thesis
      using Suc content_step [OF one_update_phase [OF s inp, of n]] inp by (simp add: one_update_def)
  qed
qed (simp add: content_ok_def)

lemma one_update_view:
  assumes s: "in_phase Free s" and inp: "one_update inp src m"
  shows "0 < n \<Longrightarrow> view_ok m (shown s) (latched inp n s) (phase_run inp n s) (hw_run inp n s)"
proof (induction n)
  case (Suc n)
  have mono: "latched inp n s \<subseteq> latched inp (Suc n) s" by (auto simp: latched_def)
  show ?case
  proof (cases "n = 0")
    case True
    have "shown (hw_run inp (Suc 0) s) = shown s"
      using rams_step [OF s, of "inp 0"] by (simp add: shown_def)
    then show ?thesis using phase_run_1 [OF inp, of s] by (simp add: True view_ok_def untouched_def)
  next
    case False
    note ok = one_update_phase [OF s inp, of n]
    have w: "in_write (inp n) = None" using inp False by (simp add: one_update_def)
    have v: "view_ok m (shown s) (latched inp n s) (phase_run inp n s) (hw_run inp n s)" using Suc False by simp
    show ?thesis
    proof (cases "is_Free (phase_run inp n s)")
      case True
      then have "shown (hw_run inp (Suc n) s) = shown (hw_run inp n s)"
        using rams_step [OF ok, of "inp n"] by (cases "phase_run inp n s") (simp_all add: shown_def)
      then show ?thesis using True v free_stays [OF True w] mono by (auto simp: view_ok_def untouched_def)
    next
      case False
      then have "content_ok src m (phase_run inp n s) (hw_run inp n s)"
        using one_update_content [OF s inp, of n] by simp
      from view_step [OF ok v this w mono] show ?thesis by (auto simp: latched_def)
    qed
  qed
qed simp

lemma irq_shows:
  assumes s: "in_phase Free s" and inp: "one_update inp src m" and n: "0 < n"
    and irq: "ppu_dma_rdy_irq (hw_fsm (hw_run inp n s))"
  shows "in_phase Free (hw_run inp n s) \<and> p_rams (hw_vs (hw_run inp n s)) = image_vram m
    \<and> (\<exists>k < n. hw_ctrl (hw_run inp n s) = in_ctrl (inp k))"
proof -
  note ok = one_update_phase [OF s inp, of n]
  then have "phase_run inp n s = Free" using irq by (cases "phase_run inp n s") (auto simp: in_phase_def)
  then show ?thesis
    using one_update_view [OF s inp n] ok by (auto simp: view_ok_def untouched_def latched_def shown_def)
qed

text \<open>C7. Whenever the ports of the video memory belong to the drawing circuits, all of
  it and all registers are as they were before the update, or all are as the update wants
  them; at the interrupt they are the latter.  No frame shows a part of an update.\<close>

theorem update_atomic:
  assumes s: "in_phase Free s" and inp: "one_update inp src m" and n: "0 < n"
  defines "t \<equiv> hw_run inp n s"
  defines "new \<equiv> fst (shown t) = image_vram m
      \<and> (\<exists>k < n. vram_sync (hw_fsm (hw_run inp k s)) \<and> snd (shown t) = in_ctrl (inp k))"
  shows "(fsm_state (hw_fsm t) \<noteq> PPU_SYNC \<longrightarrow> shown t = shown s \<or> new) \<and> (ppu_dma_rdy_irq (hw_fsm t) \<longrightarrow> new)"
proof -
  note ok = one_update_phase [OF s inp, of n] and v = one_update_view [OF s inp n]
  have new: "new" if "is_Free (phase_run inp n s)"
    using v that by (auto simp: new_def t_def view_ok_def untouched_def latched_def)
  have "fsm_state (hw_fsm t) = PPU_SYNC" if "is_Copying (phase_run inp n s)"
    using that ok by (cases "phase_run inp n s") (auto simp: t_def in_phase_def)
  moreover have "ppu_dma_rdy_irq (hw_fsm t) \<longrightarrow> is_Free (phase_run inp n s)"
    using ok by (simp add: t_def in_phase_def)
  moreover have "shown t = shown s" if "\<not> is_Free (phase_run inp n s)" "\<not> is_Copying (phase_run inp n s)"
    using that v by (simp add: t_def view_ok_def untouched_def)
  ultimately show ?thesis using new by blast
qed

section \<open>The interrupt comes\<close>

definition to_display :: "ppu_hw \<Rightarrow> nat" where
  "to_display s =
     (if fsm_state (hw_fsm s) = PPU_DISP then (420000 - since (hw_video s)) mod 420000
      else 420001 + (420000 + 34400 - since (hw_video s)) mod 420000)"

text \<open>An upper bound of the useful cycles that are left.\<close>

fun left :: "phase \<Rightarrow> ppu_hw \<Rightarrow> nat" where
  "left Free s = 0"
| "left (Copying j) s = 2053 - j"
| "left Waiting s = 2054 + to_display s"
| "left Landed s = 842055"
| "left Moving s = 842056 + de_writelength (hw_dma s) + (if de_done_write (hw_dma s) then 0 else 1)"
| "left (Starting a) s = 895675"
| "left (Written a) s = 895676"

text \<open>A cycle is useful unless the bus or the video clock must move and does not.\<close>

fun useful :: "phase \<Rightarrow> hw_in \<Rightarrow> bool" where
  "useful Moving inp = in_grant inp"
| "useful Waiting inp = in_vclk inp"
| "useful ph inp = True"

lemma mod_dist:
  assumes "s < (N :: nat)" "x < N" "s \<noteq> x"
  shows "(N + x - (s + 1) mod N) mod N + 1 = (N + x - s) mod N"
  using assms by (auto simp: mod_if)

lemma to_display_le: "to_display s \<le> 840000"
  using mod_less_divisor [of 420000 "420000 + 34400 - since (hw_video s)"]
    mod_less_divisor [of 420000 "420000 - since (hw_video s)"] by (simp add: to_display_def) linarith

lemma to_display_step:
  assumes s: "in_phase Waiting s" and ph: "next_phase inp s Waiting = Waiting"
  shows "to_display (hw_step inp s) \<le> to_display s \<and> (in_vclk inp \<longrightarrow> to_display (hw_step inp s) < to_display s)"
proof -
  have v: "video_ok (hw_video s)" and rdy: "dma_rdy_for_sync (hw_fsm s)" using s by (simp_all add: in_phase_def)
  let ?v = "hw_video s" and ?v' = "hw_video (hw_step inp s)"
  have since': "since ?v' = (if in_vclk inp then (since ?v + 1) mod 420000 else since ?v)"
    using since_step [OF v] by (simp add: hw_step_def Let_def)
  note lt = since_less [of ?v]
  have st: "fsm_state (hw_fsm (hw_step inp s)) =
      (if fsm_state (hw_fsm s) = PPU_DISP \<or> since ?v = 34400 then PPU_DISP else fsm_state (hw_fsm s))"
    using ph since_blank [OF v] rdy by (cases "fsm_state (hw_fsm s)") (auto simp: hw_step_defs)
  show ?thesis
  proof (cases "fsm_state (hw_fsm s) = PPU_DISP")
    case True
    then have "since ?v \<noteq> 0" using ph since_blank [OF v] by auto
    then have "(420000 - (since ?v + 1) mod 420000) mod 420000 + 1 = (420000 - since ?v) mod 420000"
      using mod_dist [OF lt, of 0] by simp
    then show ?thesis using True st by (simp add: to_display_def since')
  next
    case False
    show ?thesis
    proof (cases "since ?v = 34400")
      case True
      then have "to_display (hw_step inp s) < 420001" "420001 \<le> to_display s"
        using False st by (simp_all add: to_display_def)
      then show ?thesis by simp
    next
      case far: False
      then show ?thesis using False st mod_dist [OF lt _ far] by (simp add: to_display_def since')
    qed
  qed
qed

lemma left_step:
  fixes inp :: hw_in
  assumes s: "in_phase ph s" and ph: "\<not> is_Free ph"
  defines "ph' \<equiv> next_phase inp s ph"
  shows "left ph' (hw_step inp s) \<le> left ph s \<and> (useful ph inp \<longrightarrow> left ph' (hw_step inp s) < left ph s)
    \<and> (ph' = ph \<or> left ph' (hw_step inp s) < left ph s)"
proof (cases ph)
  case Waiting
  show ?thesis
  proof (cases "ph' = Waiting")
    case True
    then show ?thesis using to_display_step [of s inp] s by (simp add: Waiting ph'_def)
  next
    case False
    then show ?thesis by (auto simp: Waiting ph'_def)
  qed
next
  case Moving
  have st: "de_started (hw_dma s)" and dw: "de_done_write (hw_dma s) \<Longrightarrow> de_writelength (hw_dma s) = 0"
    using s by (auto simp: in_phase_def Moving)
  then show ?thesis by (auto simp: Moving ph'_def hw_step_defs)
next
  case Landed
  then show ?thesis using to_display_le [of "hw_step inp s"] by (simp add: ph'_def)
next
  case (Starting a)
  then show ?thesis using s by (simp add: ph'_def in_phase_def hw_step_defs)
next
  case (Copying j)
  have "vs_at ph (hw_c s) (hw_vs s)" using s by (simp add: in_phase_def)
  then have "j \<le> 2052" by (cases j) (auto simp: Copying)
  then show ?thesis by (auto simp: Copying ph'_def)
qed (use ph in \<open>simp_all add: ph'_def\<close>)

text \<open>The bus takes a word and the video clock ticks at least once in any \<open>B\<close> cycles.\<close>

definition fair :: "nat \<Rightarrow> (nat \<Rightarrow> hw_in) \<Rightarrow> bool" where
  "fair B inp \<longleftrightarrow> (\<forall>n. (\<exists>i < B. in_grant (inp (n + i))) \<and> (\<exists>i < B. in_vclk (inp (n + i))))"

lemma fair_useful: "fair B inp \<Longrightarrow> \<exists>i < B. useful ph (inp (n + i))"
proof -
  assume f: "fair B inp"
  then have "0 < B" by (auto simp: fair_def)
  then show ?thesis using f by (cases ph) (auto simp: fair_def)
qed

lemma left_window:
  assumes s: "in_phase Free s" and inp: "one_update inp src m" and f: "fair B inp"
    and busy: "\<And>i. i \<le> B \<Longrightarrow> \<not> is_Free (phase_run inp (n + i) s)"
  shows "left (phase_run inp (n + B) s) (hw_run inp (n + B) s) < left (phase_run inp n s) (hw_run inp n s)"
proof -
  define ph where "ph i = phase_run inp (n + i) s" for i
  define l where "l i = left (ph i) (hw_run inp (n + i) s)" for i
  have step: "l (Suc i) \<le> l i \<and> (useful (ph i) (inp (n + i)) \<longrightarrow> l (Suc i) < l i) \<and> (ph (Suc i) = ph i \<or> l (Suc i) < l i)"
    if "i \<le> B" for i
    using left_step [OF one_update_phase [OF s inp, of "n + i"] busy [OF that], of "inp (n + i)"]
    by (simp add: l_def ph_def)
  have mono: "l i \<le> l 0 \<and> (ph i = ph 0 \<or> l i < l 0)" if "i \<le> B" for i
    using that
  proof (induction i)
    case (Suc i)
    then show ?case using step [of i] by auto
  qed simp
  obtain u where u: "u < B" "useful (ph 0) (inp (n + u))" using fair_useful [OF f] by blast
  have "l (Suc u) < l 0" using mono [of u] step [of u] u by auto
  moreover have "l (Suc u + i) \<le> l (Suc u)" if "Suc u + i \<le> B" for i
    using that
  proof (induction i)
    case (Suc i)
    then show ?case using step [of "Suc u + i"] by auto
  qed simp
  then have "l B \<le> l (Suc u)" using u(1) by (metis Suc_leI le_add_diff_inverse order_refl)
  ultimately show ?thesis by (simp add: l_def ph_def)
qed

lemma left_bound:
  assumes s: "in_phase Free s" and inp: "one_update inp src m" and f: "fair B inp"
    and busy: "\<And>i. i \<le> 1 + B * k \<Longrightarrow> 0 < i \<Longrightarrow> \<not> is_Free (phase_run inp i s)"
  shows "left (phase_run inp (1 + B * k) s) (hw_run inp (1 + B * k) s) + k \<le> 895676"
  using busy
proof (induction k)
  case 0
  then show ?case using phase_run_1 [OF inp, of s] by simp
next
  case (Suc k)
  have "left (phase_run inp (1 + B * k) s) (hw_run inp (1 + B * k) s) + k \<le> 895676"
    by (rule Suc.IH) (use Suc.prems in auto)
  moreover have "left (phase_run inp (1 + B * k + B) s) (hw_run inp (1 + B * k + B) s)
      < left (phase_run inp (1 + B * k) s) (hw_run inp (1 + B * k) s)"
    by (rule left_window [OF s inp f], rule Suc.prems) simp_all
  moreover have "1 + B * Suc k = 1 + B * k + B" by simp
  ultimately show ?case by (simp only: add_Suc_right [symmetric])
qed

lemma irq_when_free:
  assumes "in_phase ph s"
  shows "ppu_dma_rdy_irq (hw_fsm (hw_step inp s)) \<longleftrightarrow> ph = Copying 2052"
proof -
  have "ph = Copying 2052 \<Longrightarrow> fsm_state (hw_fsm s) = PPU_SYNC" using assms by (simp add: in_phase_def)
  then show ?thesis using phase_done [OF assms] by (auto simp: hw_step_defs)
qed

text \<open>One interrupt for one address, after at most \<open>1 + 895676 * B\<close> cycles.\<close>

lemma update_answered:
  assumes s: "in_phase Free s" and inp: "one_update inp src m" and f: "fair B inp"
  shows "\<exists>N \<le> 1 + B * 895676. 0 < N \<and> (\<forall>n > 0. ppu_dma_rdy_irq (hw_fsm (hw_run inp n s)) \<longleftrightarrow> n = N)"
proof -
  let ?free = "\<lambda>n. 0 < n \<and> is_Free (phase_run inp n s)"
  have "\<exists>n \<le> 1 + B * 895676. ?free n"
  proof (rule ccontr)
    assume no: "\<not> ?thesis"
    let ?n = "1 + B * 895676"
    have "left (phase_run inp ?n s) (hw_run inp ?n s) + 895676 \<le> 895676"
      by (rule left_bound [OF s inp f]) (use no in blast)
    then have "left (phase_run inp ?n s) (hw_run inp ?n s) = 0" by (simp only: add_le_same_cancel2 le_zero_eq)
    moreover have "in_phase (phase_run inp ?n s) (hw_run inp ?n s)" by (rule one_update_phase [OF s inp])
    moreover have "\<not> is_Free (phase_run inp ?n s)" using no by auto
    ultimately show False
      using left_step [of "phase_run inp ?n s" "hw_run inp ?n s" "\<lparr>in_write = None, in_ctrl = undefined,
        in_mem = undefined, in_grant = True, in_vclk = True\<rparr>"]
      by (cases "phase_run inp ?n s") auto
  qed
  then obtain n0 where n0: "n0 \<le> 1 + B * 895676" "?free n0" by blast
  define N where "N = (LEAST n. ?free n)"
  have N: "?free N" "N \<le> n0" unfolding N_def using n0(2) by (rule LeastI, rule Least_le)
  have before: "\<not> ?free n" if "n < N" for n using not_less_Least [of n ?free] that by (simp add: N_def)
  have after: "phase_run inp n s = Free" if "N \<le> n" for n
    using that
  proof (induction n rule: dec_induct)
    case base
    show ?case using N(1) by (cases "phase_run inp N s") auto
  next
    case (step n)
    then show ?case using N(1) inp by (simp add: one_update_def)
  qed
  have irq: "ppu_dma_rdy_irq (hw_fsm (hw_run inp (Suc n) s)) \<longleftrightarrow> phase_run inp n s = Copying 2052" for n
    using irq_when_free [OF one_update_phase [OF s inp, of n]] by simp
  have "ppu_dma_rdy_irq (hw_fsm (hw_run inp (Suc n) s)) \<longleftrightarrow> Suc n = N" for n
  proof -
    consider "Suc n < N" | "Suc n = N" | "N \<le> n" by linarith
    then show ?thesis
    proof cases
      case 1
      then have "phase_run inp (Suc n) s \<noteq> Free" using before [of "Suc n"] by auto
      then show ?thesis unfolding irq using 1 by auto
    next
      case 2
      have "n \<noteq> 0" using 2 N(1) phase_run_1 [OF inp, of s] by (cases n) auto
      then have "\<not> is_Free (phase_run inp n s)" using before [of n] 2 by simp
      moreover have "phase_run inp (Suc n) s = Free" using after [of "Suc n"] 2 by simp
      ultimately have "phase_run inp n s = Copying 2052"
        by (cases "phase_run inp n s") (auto split: if_splits)
      then show ?thesis unfolding irq using 2 by simp
    next
      case 3
      then show ?thesis using irq [of n] after [of n] by simp
    qed
  qed
  then have "\<forall>n > 0. ppu_dma_rdy_irq (hw_fsm (hw_run inp n s)) \<longleftrightarrow> n = N"
    by (metis gr0_implies_Suc)
  then show ?thesis using N n0(1) by (meson le_trans)
qed

section \<open>The device the kernel module relies on\<close>

text \<open>
  What the processor sees of the circuit: the addresses it writes and the interrupts, newest
  first.
\<close>

definition irq_events :: "ppu_hw \<Rightarrow> bus_event list" where
  "irq_events s = (if ppu_dma_rdy_irq (hw_fsm s) then [DmaIrq] else [])"

primrec hw_log :: "(nat \<Rightarrow> hw_in) \<Rightarrow> nat \<Rightarrow> ppu_hw \<Rightarrow> bus_event list" where
  "hw_log inp 0 s = []"
| "hw_log inp (Suc n) s =
     (case in_write (inp n) of Some a \<Rightarrow> [DmaStart (of_nat a)] | None \<Rightarrow> [])
     @ irq_events (hw_run inp n s) @ hw_log inp n s"

fun last_answered :: "bus_event list \<Rightarrow> bool" where
  "last_answered (DmaStart a # l) = False"
| "last_answered l = True"

text \<open>The kernel module writes an address only after the interrupt for the one before.\<close>

definition polite :: "(nat \<Rightarrow> hw_in) \<Rightarrow> ppu_hw \<Rightarrow> bool" where
  "polite inp s \<longleftrightarrow>
     (\<forall>n. in_write (inp n) \<noteq> None \<longrightarrow> last_answered (irq_events (hw_run inp n s) @ hw_log inp n s))"

lemma hw_log_phase:
  assumes s: "in_phase Free s" "\<not> ppu_dma_rdy_irq (hw_fsm s)" and p: "polite inp s"
  shows "in_phase (phase_run inp n s) (hw_run inp n s)
    \<and> (is_Free (phase_run inp n s) \<longleftrightarrow> last_answered (irq_events (hw_run inp n s) @ hw_log inp n s))
    \<and> dma_log_ok (\<not> last_answered (hw_log inp n s)) (hw_log inp n s)
    \<and> (ppu_dma_rdy_irq (hw_fsm (hw_run inp n s)) \<longrightarrow> \<not> last_answered (hw_log inp n s))"
proof (induction n)
  case 0
  then show ?case using s by (simp add: irq_events_def)
next
  case (Suc n)
  let ?s = "hw_run inp n s" and ?ph = "phase_run inp n s"
  have ok: "in_phase ?ph ?s" and free: "is_Free ?ph \<longleftrightarrow> last_answered (irq_events ?s @ hw_log inp n s)"
    using Suc by blast+
  have w: "in_write (inp n) \<noteq> None \<Longrightarrow> is_Free ?ph" using p free unfolding polite_def by blast
  have ok': "in_phase (phase_run inp (Suc n) s) (hw_run inp (Suc n) s)" using phase_step [OF ok w] by simp
  have irq: "ppu_dma_rdy_irq (hw_fsm (hw_run inp (Suc n) s)) \<longleftrightarrow> ?ph = Copying 2052"
    using irq_when_free [OF ok] by simp
  have rest: "dma_log_ok (\<not> last_answered (irq_events ?s @ hw_log inp n s)) (irq_events ?s @ hw_log inp n s)"
    using Suc by (auto simp: irq_events_def)
  show ?case
  proof (cases "in_write (inp n)")
    case None
    have log: "hw_log inp (Suc n) s = irq_events ?s @ hw_log inp n s" by (simp add: None)
    have "is_Free (phase_run inp (Suc n) s) \<longleftrightarrow> is_Free ?ph \<or> ?ph = Copying 2052"
      using None by (cases ?ph) (auto split: if_splits)
    then show ?thesis
      using ok' irq free rest unfolding log by (auto simp: irq_events_def)
  next
    case (Some a)
    then have f: "?ph = Free" using w by (cases ?ph) auto
    have log: "hw_log inp (Suc n) s = DmaStart (of_nat a) # irq_events ?s @ hw_log inp n s" by (simp add: Some)
    have "\<not> is_Free (phase_run inp (Suc n) s)" using Some f by simp
    then show ?thesis
      using ok' irq free rest f unfolding log by (auto simp: irq_events_def)
  qed
qed

text \<open>C17. Seen from a processor that writes an address only after the interrupt for the
  one before, the events of the circuit are those of the device in the model of the kernel module:
  in its log, as \<open>ppu_inv\<close> requires it of the module's, every interrupt answers one address and
  no address is answered twice.\<close>

theorem hw_refines_device:
  assumes "in_phase Free s" "\<not> ppu_dma_rdy_irq (hw_fsm s)" "polite inp s"
  shows "dma_log_ok (\<not> last_answered (hw_log inp n s)) (hw_log inp n s)"
  using hw_log_phase [OF assms, of n] by blast

lemma hw_reset_free:
  assumes "vram_c_ok c" "vram_p_ok p"
  shows "in_phase Free (hw_reset c p)"
  using assms
  by (simp add: in_phase_def hw_reset_def vs_idle_def p_rams_def vram_p_ok_def video_ok_def numeral_eq_Suc less_Suc_eq)

definition demo_hw :: ppu_hw where
  "demo_hw = hw_reset
     \<lparr>c_tilram = replicate 1024 0, c_patram = replicate 2048 0, c_palram = replicate 256 0, c_sprram = replicate 20 0\<rparr>
     \<lparr>p_tilram = replicate 2048 0, p_patram = replicate 4096 0, p_palram = replicate 512 0, p_sprram = replicate 40 0\<rparr>"

lemma demo_hw_free: "in_phase Free demo_hw"
  unfolding demo_hw_def by (rule hw_reset_free) (simp_all add: vram_c_ok_def vram_p_ok_def)

definition demo_once :: "nat \<Rightarrow> hw_in" where
  "demo_once k = \<lparr>in_write = if k = 0 then Some 0x2000 else None,
     in_ctrl = \<lparr>dbuf_bgscroll = 0, dbuf_fgscroll = 0, dbuf_enable = 7, dbuf_bgcolor = 0xFF\<rparr>,
     in_mem = image_mem 0x2000 (zeros VRAM_SIZE), in_grant = True, in_vclk = even k\<rparr>"

lemma demo_once_update: "one_update demo_once 0x2000 (zeros VRAM_SIZE)"
  by (simp add: one_update_def demo_once_def mem_holds_def image_mem_def)

theorem update_atomic_witness:
  "fsm_state (hw_fsm (hw_run demo_once 900000 demo_hw)) = PPU_SYNC
     \<or> shown (hw_run demo_once 900000 demo_hw) = shown demo_hw
     \<or> fst (shown (hw_run demo_once 900000 demo_hw)) = image_vram (zeros VRAM_SIZE)"
  using update_atomic [OF demo_hw_free demo_once_update, of 900000] by auto

theorem hw_refines_device_witness:
  "dma_log_ok True (hw_log demo_once 1 demo_hw) \<and> dma_log_ok (\<not> last_answered (hw_log demo_once 900000 demo_hw))
     (hw_log demo_once 900000 demo_hw)"
proof -
  have "\<not> ppu_dma_rdy_irq (hw_fsm demo_hw)" by (simp add: demo_hw_def hw_reset_def)
  moreover from this have "polite demo_once demo_hw"
    by (simp add: polite_def demo_once_def irq_events_def)
  ultimately show ?thesis
    using hw_refines_device [OF demo_hw_free, of demo_once 1] hw_refines_device [OF demo_hw_free, of demo_once 900000]
    by (simp add: demo_once_def irq_events_def)
qed

end
