(* ===== verification/PpuHost.thy ===== *)
theory PpuHost
  imports PpuView
begin

text \<open>
  What the graphics library relies on, as a locale: the laws of the system calls on the PPU
  device file for a process that holds it open, over an abstract view of the device.  The
  facts about the library's functions are proved once inside it.
\<close>

section \<open>The contract\<close>

text \<open>
  \<open>owns fd w\<close>: the process holds the device open as \<open>fd\<close>.  \<open>ready w\<close>: the device will not
  be transferring when the next call reaches the driver.
\<close>

locale ppu_host =
  fixes sys :: "'w ppu_sys" and owns :: "int \<Rightarrow> 'w \<Rightarrow> bool" and ready :: "'w \<Rightarrow> bool"
    and look :: "'w \<Rightarrow> ppu_view"
  assumes owns_fd: "owns fd w \<Longrightarrow> 0 \<le> fd \<and> length (v_vram (look w)) = VRAM_SIZE"
    and pwrite_in: "owns fd w \<Longrightarrow> user_readable buf bs \<Longrightarrow> length bs = unat n \<Longrightarrow>
      unat off + length bs \<le> VRAM_SIZE \<Longrightarrow> pwrite_fd sys fd buf n off w = ((r, e), w') \<Longrightarrow>
      owns fd w' \<and> (ready w \<longrightarrow> ready w') \<and>
      (if ready w then r = int (length bs) \<and> look w' = put_vram (unat off) bs (look w)
       else r = -1 \<and> e = EBUSY \<and> look w' = look w)"
    and pwrite_out: "owns fd w \<Longrightarrow> VRAM_SIZE < unat off + unat n \<Longrightarrow>
      pwrite_fd sys fd buf n off w = ((r, e), w') \<Longrightarrow>
      owns fd w' \<and> (ready w \<longrightarrow> ready w') \<and> r = -1 \<and> e = EINVAL \<and> look w' = look w"
    and ioctl_cmd: "owns fd w \<Longrightarrow> \<forall>k. c \<noteq> PPU_OTHER k \<Longrightarrow> ioctl_fd sys fd c a w = ((r, e), w') \<Longrightarrow>
      owns fd w' \<and> (ready w \<and> c \<noteq> IOCTL_PPU_UPDATE \<longrightarrow> ready w') \<and>
      (if ready w then r = 0 \<and> look w' = set_reg c a (look w)
       else r = -1 \<and> e = EBUSY \<and> look w' = look w)"
    and malloc_law: "owns fd w \<Longrightarrow> malloc_blk sys k w = (b, w') \<Longrightarrow>
      owns fd w' \<and> (ready w' \<longleftrightarrow> ready w) \<and>
      (case b of None \<Rightarrow> look w' = look w
       | Some blk \<Rightarrow> k \<le> length blk \<and> look w' = (look w)\<lparr>v_live := v_live (look w) + 1\<rparr>)"
    and free_law: "owns fd w \<Longrightarrow> owns fd (free_blk sys w) \<and> (ready (free_blk sys w) \<longleftrightarrow> ready w) \<and>
      look (free_blk sys w) = (look w)\<lparr>v_live := v_live (look w) - 1\<rparr>"
begin

text \<open>A process that holds the device open and sees \<open>v\<close>.\<close>

definition sees :: "ppu_view \<Rightarrow> 'w proc \<Rightarrow> bool" where
  "sees v p \<longleftrightarrow> owns (ppu_fd p) (os p) \<and> look (os p) = v"

lemma sees_fd: "sees v p \<Longrightarrow> ppu_fd p \<noteq> -1 \<and> \<not> ppu_fd p < 0 \<and> length (v_vram v) = VRAM_SIZE"
  using owns_fd by (force simp: sees_def)

lemma do_pwrite_ready:
  assumes "sees v p" and "ready (os p)" and "user_readable buf bs" and "length bs = unat n"
    and "unat off + length bs \<le> VRAM_SIZE"
  obtains e p' where "do_pwrite sys buf n off p = ((int (length bs), e), p')"
    and "ppu_fd p' = ppu_fd p" and "sees (put_vram (unat off) bs v) p'" and "ready (os p')"
proof -
  obtain r e w' where c: "pwrite_fd sys (ppu_fd p) buf n off (os p) = ((r, e), w')"
    by (metis prod.exhaust)
  from pwrite_in [OF _ assms(3-5) c] assms(1,2) show thesis
    by (intro that [of e "p\<lparr>os := w'\<rparr>"]) (auto simp: do_pwrite_def c sees_def)
qed

lemma do_pwrite_busy:
  assumes "sees v p" and "\<not> ready (os p)" and "user_readable buf bs" and "length bs = unat n"
    and "unat off + length bs \<le> VRAM_SIZE"
  obtains p' where "do_pwrite sys buf n off p = ((-1, EBUSY), p')"
    and "ppu_fd p' = ppu_fd p" and "sees v p'"
proof -
  obtain r e w' where c: "pwrite_fd sys (ppu_fd p) buf n off (os p) = ((r, e), w')"
    by (metis prod.exhaust)
  from pwrite_in [OF _ assms(3-5) c] assms(1,2) show thesis
    by (intro that [of "p\<lparr>os := w'\<rparr>"]) (auto simp: do_pwrite_def c sees_def)
qed

lemma do_ioctl_ready:
  assumes "sees v p" and "ready (os p)" and "\<forall>k. c \<noteq> PPU_OTHER k"
  obtains e p' where "do_ioctl sys c a p = ((0, e), p')"
    and "ppu_fd p' = ppu_fd p" and "sees (set_reg c a v) p'"
    and "c \<noteq> IOCTL_PPU_UPDATE \<longrightarrow> ready (os p')"
proof -
  obtain r e w' where k: "ioctl_fd sys (ppu_fd p) c a (os p) = ((r, e), w')"
    by (metis prod.exhaust)
  from ioctl_cmd [OF _ assms(3) k] assms(1,2) show thesis
    by (intro that [of e "p\<lparr>os := w'\<rparr>"]) (auto simp: do_ioctl_def k sees_def)
qed

lemma do_ioctl_busy:
  assumes "sees v p" and "\<not> ready (os p)" and "\<forall>k. c \<noteq> PPU_OTHER k"
  obtains p' where "do_ioctl sys c a p = ((-1, EBUSY), p')"
    and "ppu_fd p' = ppu_fd p" and "sees v p'"
proof -
  obtain r e w' where k: "ioctl_fd sys (ppu_fd p) c a (os p) = ((r, e), w')"
    by (metis prod.exhaust)
  from ioctl_cmd [OF _ assms(3) k] assms(1,2) show thesis
    by (intro that [of "p\<lparr>os := w'\<rparr>"]) (auto simp: do_ioctl_def k sees_def)
qed

lemma do_malloc_cases:
  assumes "sees v p"
  obtains (fails) p' where "do_malloc sys k p = (None, p')" and "sees v p'"
      and "ppu_fd p' = ppu_fd p" and "ready (os p') \<longleftrightarrow> ready (os p)"
  | (gives) blk p' where "do_malloc sys k p = (Some blk, p')" and "k \<le> length blk"
      and "sees (v\<lparr>v_live := v_live v + 1\<rparr>) p'"
      and "ppu_fd p' = ppu_fd p" and "ready (os p') \<longleftrightarrow> ready (os p)"
proof -
  obtain b w' where c: "malloc_blk sys k (os p) = (b, w')" by fastforce
  from malloc_law [OF _ c] assms show thesis
    by (cases b) (auto simp: do_malloc_def c sees_def intro: fails [of "p\<lparr>os := w'\<rparr>"]
        gives [of _ "p\<lparr>os := w'\<rparr>"])
qed

lemma sees_free:
  assumes "sees v p"
  shows "sees (v\<lparr>v_live := v_live v - 1\<rparr>) (do_free sys p) \<and> ppu_fd (do_free sys p) = ppu_fd p
    \<and> (ready (os (do_free sys p)) \<longleftrightarrow> ready (os p))"
  using free_law assms by (auto simp: do_free_def sees_def)

lemma write_tiles:
  assumes "sees v p" and "k \<le> length ts" and "unat b = 2 * k"
    and "unat a = layer_base layer + 2 * j" and "j + k \<le> 4096"
  shows write_tiles_ready: "ready (os p) \<Longrightarrow>
      \<exists>e p'. do_pwrite sys (user_mem (tile_bytes ts)) b a p = ((int (2 * k), e), p')
        \<and> ppu_fd p' = ppu_fd p \<and> sees (put_at layer j (take k ts) v) p' \<and> ready (os p')"
    and write_tiles_busy: "\<not> ready (os p) \<Longrightarrow>
      \<exists>p'. do_pwrite sys (user_mem (tile_bytes ts)) b a p = ((-1, EBUSY), p')
        \<and> ppu_fd p' = ppu_fd p \<and> sees v p'"
proof -
  have l: "length (tile_bytes (take k ts)) = 2 * k" using assms(2) by simp
  have fits: "unat a + length (tile_bytes (take k ts)) \<le> VRAM_SIZE"
    using layer_base_le [of layer] assms(4,5) unfolding l by linarith
  have b: "length (tile_bytes (take k ts)) = unat b" unfolding l assms(3) ..
  have v: "put_vram (unat a) (tile_bytes (take k ts)) v = put_at layer j (take k ts) v"
    by (simp add: put_vram_def put_at_def put_tiles_def assms(4))
  show "\<exists>e p'. do_pwrite sys (user_mem (tile_bytes ts)) b a p = ((int (2 * k), e), p')
      \<and> ppu_fd p' = ppu_fd p \<and> sees (put_at layer j (take k ts) v) p' \<and> ready (os p')"
    if "ready (os p)"
    using do_pwrite_ready [OF assms(1) that readable_tiles b fits] unfolding v l by metis
  show "\<exists>p'. do_pwrite sys (user_mem (tile_bytes ts)) b a p = ((-1, EBUSY), p')
      \<and> ppu_fd p' = ppu_fd p \<and> sees v p'" if "\<not> ready (os p)"
    using do_pwrite_busy [OF assms(1) that readable_tiles b fits] by metis
qed


lemma write_row:
  assumes s: "sees v p" and xy: "x_i < 64" "y_i < 64"
    and c: "length ts = unat c" "c \<le> 64"
  shows "ready (os p) \<Longrightarrow> \<exists>p'. write_row sys ts c layer x_i y_i p = Done (0, p')
      \<and> ppu_fd p' = ppu_fd p \<and> ready (os p')
      \<and> sees (put_row layer x_i y_i ts (v\<lparr>v_live := v_live v - 1\<rparr>)) p'"
    and "\<not> ready (os p) \<Longrightarrow> \<exists>p'. write_row sys ts c layer x_i y_i p = Done (-1, p')
      \<and> ppu_fd p' = ppu_fd p \<and> sees v p'"
proof -
  define off where "off = (if layer = LAYER_FG then TILERAM_FGOFFSET else 0)"
  define n where "n = unsigned_min (64 - x_i) c"
  define start where "start = off + (y_i * TILELAYER_HEIGHT + x_i) * TILEDATA_BSIZE"
  define start2 where "start2 = off + (y_i * TILELAYER_HEIGHT) * TILEDATA_BSIZE"
  have xy': "unat x_i < 64" "unat y_i < 64" "unat c \<le> 64"
    using xy c(2) by (simp_all add: word_less_nat_alt word_le_nat_alt)
  have off: "off \<le> 0x2000" "unat off = layer_base layer" by (auto simp: off_def layer_base_def)
  have n: "unat n = min (64 - unat x_i) (unat c)" unfolding n_def by (rule unat_min_row [OF xy(1)])
  have n64: "n \<le> 64" "n \<le> c" using n xy' by (simp_all add: word_le_nat_alt)
  have cn: "unat (c - n) = unat c - unat n" using n64(2) by (simp add: unat_sub)
  have cn64: "c - n \<le> 64" using cn xy' by (simp add: word_le_nat_alt)
  have start: "unat start = layer_base layer + 2 * (64 * unat y_i + unat x_i)"
    unfolding start_def by (simp only: tile_addr [OF xy off(1)] off(2))
  have start2: "unat start2 = layer_base layer + 2 * (64 * unat y_i)"
    using tile_addr [OF _ xy(2) off(1), of 0] by (simp add: start2_def off(2))
  have b1: "unat (n * TILEDATA_BSIZE) = 2 * unat n" by (rule unat_tile_bytes [OF n64(1)])
  have b2: "unat ((c - n) * TILEDATA_BSIZE) = 2 * unat (c - n)" by (rule unat_tile_bytes [OF cn64])
  have r1: "sint (n * TILEDATA_BSIZE) = int (2 * unat n)"
    using n xy' b1 by (subst sint_small) linarith+
  have r2: "sint ((c - n) * TILEDATA_BSIZE) = int (2 * unat (c - n))"
    using cn xy' b2 by (subst sint_small) linarith+
  have k1: "unat n \<le> length ts" "64 * unat y_i + unat x_i + unat n \<le> 4096" using n c xy' by auto
  have k2: "unat (c - n) \<le> length (drop (unat n) ts)" "64 * unat y_i + unat (c - n) \<le> 4096"
    using n c xy' cn by auto
  have rest: "take (unat (c - n)) (drop (unat n) ts) = drop (unat n) ts" using c cn by simp
  note unfold = write_row_def Let_def off_def [symmetric] n_def [symmetric] start_def [symmetric]
    start2_def [symmetric]
  show "\<exists>p'. write_row sys ts c layer x_i y_i p = Done (0, p') \<and> ppu_fd p' = ppu_fd p \<and> ready (os p')
      \<and> sees (put_row layer x_i y_i ts (v\<lparr>v_live := v_live v - 1\<rparr>)) p'" if rdy: "ready (os p)"
  proof -
    obtain e1 p1 where w1: "do_pwrite sys (user_mem (tile_bytes ts)) (n * TILEDATA_BSIZE) start p
        = ((int (2 * unat n), e1), p1)" and s1: "ppu_fd p1 = ppu_fd p"
        "sees (put_at layer (64 * unat y_i + unat x_i) (take (unat n) ts) v) p1" "ready (os p1)"
      using write_tiles_ready [OF s k1(1) b1 start k1(2) rdy] by blast
    obtain e2 p2 where w2: "do_pwrite sys (user_mem (tile_bytes (drop (unat n) ts)))
        ((c - n) * TILEDATA_BSIZE) start2 p1 = ((int (2 * unat (c - n)), e2), p2)"
      and s2: "ppu_fd p2 = ppu_fd p1" "ready (os p2)"
        "sees (put_at layer (64 * unat y_i) (drop (unat n) ts)
           (put_at layer (64 * unat y_i + unat x_i) (take (unat n) ts) v)) p2"
      using write_tiles_ready [OF s1(2) k2(1) b2 start2 k2(2) s1(3)] unfolding rest by blast
    have row: "put_row layer x_i y_i ts u = put_at layer (64 * unat y_i) (drop (unat n) ts)
        (put_at layer (64 * unat y_i + unat x_i) (take (unat n) ts) u)" for u
      by (simp only: put_row_at Let_def c(1) n)
    show ?thesis
    proof (cases "c - n = 0")
      case True
      then have "drop (unat n) ts = []" using cn c by simp
      then show ?thesis
        using s1 sees_free [OF s1(2)] True unfolding unfold w1 r1 prod.case row by auto
    next
      case False
      show ?thesis
        using s1 s2 sees_free [OF s2(3)] False unfolding unfold w1 r1 w2 r2 prod.case row by auto
    qed
  qed
  show "\<exists>p'. write_row sys ts c layer x_i y_i p = Done (-1, p') \<and> ppu_fd p' = ppu_fd p \<and> sees v p'"
    if busy: "\<not> ready (os p)"
  proof -
    obtain p1 where w1: "do_pwrite sys (user_mem (tile_bytes ts)) (n * TILEDATA_BSIZE) start p
        = ((-1, EBUSY), p1)" and s1: "ppu_fd p1 = ppu_fd p" "sees v p1"
      using write_tiles_busy [OF s k1(1) b1 start k1(2) busy] by blast
    have "(-1 :: int) \<noteq> int (2 * unat n)" by linarith
    then show ?thesis using s1 unfolding unfold w1 r1 prod.case by auto
  qed
qed

lemma malloc_given:
  assumes "sees v p" and "fst (do_malloc sys k p) \<noteq> None"
  shows "\<exists>blk p'. do_malloc sys k p = (Some blk, p') \<and> k \<le> length blk
    \<and> sees (v\<lparr>v_live := v_live v + 1\<rparr>) p' \<and> ppu_fd p' = ppu_fd p \<and> (ready (os p') \<longleftrightarrow> ready (os p))"
  using do_malloc_cases [OF assms(1), of k] assms(2) by (metis fst_conv)

lemma horizontal_run:
  assumes s: "sees v p" and xy: "x_i < 64" "y_i < 64"
    and layer: "layer = LAYER_BG \<or> layer = LAYER_FG" and some: "count \<noteq> 0" "len \<noteq> 0"
    and tiles: "min (clamp64 len) (clamp64 count) \<le> length tiles"
    and mem: "fst (do_malloc sys (2 * clamp64 count) p) \<noteq> None"
  shows "\<exists>p1. ppu_write_tiles_horizontal sys (Some tiles) len layer x_i y_i count p
      = write_row sys (repeated tiles len count) (if count > 64 then 64 else count) layer x_i y_i p1
    \<and> sees (v\<lparr>v_live := v_live v + 1\<rparr>) p1 \<and> ppu_fd p1 = ppu_fd p \<and> (ready (os p1) \<longleftrightarrow> ready (os p))"
proof -
  define c where "c = (if count > 64 then 64 else count)"
  define l where "l = (if len > 64 then 64 else len)"
  have c: "c \<le> 64" "unat c = clamp64 count"
    unfolding c_def by (rule clamp_word_le, rule clamp_word)
  have k: "unat (TILEDATA_BSIZE * c) = 2 * clamp64 count"
    using unat_tile_bytes [OF c(1)] by (simp add: c mult.commute)
  have fill: "fill_tiles tiles l (unat c) 0 = Some (repeated tiles len count)"
    unfolding c_def l_def by (rule fill_tiles_repeated [OF some(2) tiles])
  have args: "\<not> 64 \<le> x_i" "\<not> 64 \<le> y_i" using xy by auto
  obtain blk p1 where m: "do_malloc sys (unat (TILEDATA_BSIZE * c)) p = (Some blk, p1)"
    and s1: "sees (v\<lparr>v_live := v_live v + 1\<rparr>) p1" "ppu_fd p1 = ppu_fd p" "ready (os p1) \<longleftrightarrow> ready (os p)"
    unfolding k using malloc_given [OF s mem] by blast
  have "ppu_write_tiles_horizontal sys (Some tiles) len layer x_i y_i count p
      = write_row sys (repeated tiles len count) c layer x_i y_i p1"
    unfolding ppu_write_tiles_horizontal_def nowaymsg_if Let_def c_def [symmetric] l_def [symmetric]
    using sees_fd [OF s] args layer some by (auto simp: m fill)
  with s1 show ?thesis unfolding c_def by blast
qed

lemma horizontal:
  assumes s: "sees v p" and xy: "x_i < 64" "y_i < 64"
    and layer: "layer = LAYER_BG \<or> layer = LAYER_FG" and some: "count \<noteq> 0" "len \<noteq> 0"
    and tiles: "min (clamp64 len) (clamp64 count) \<le> length tiles"
    and mem: "fst (do_malloc sys (2 * clamp64 count) p) \<noteq> None"
  shows "ready (os p) \<Longrightarrow>
      \<exists>p'. ppu_write_tiles_horizontal sys (Some tiles) len layer x_i y_i count p = Done (0, p')
        \<and> ppu_fd p' = ppu_fd p \<and> ready (os p')
        \<and> sees (put_row layer x_i y_i (repeated tiles len count) v) p'"
    and "\<not> ready (os p) \<Longrightarrow>
      \<exists>p'. ppu_write_tiles_horizontal sys (Some tiles) len layer x_i y_i count p = Done (-1, p')
        \<and> ppu_fd p' = ppu_fd p \<and> sees (v\<lparr>v_live := v_live v + 1\<rparr>) p'"
proof -
  obtain p1 where run: "ppu_write_tiles_horizontal sys (Some tiles) len layer x_i y_i count p
      = write_row sys (repeated tiles len count) (if count > 64 then 64 else count) layer x_i y_i p1"
    and s1: "sees (v\<lparr>v_live := v_live v + 1\<rparr>) p1" "ppu_fd p1 = ppu_fd p" "ready (os p1) \<longleftrightarrow> ready (os p)"
    using horizontal_run [OF assms] by blast
  have len: "length (repeated tiles len count) = unat (if count > 64 then 64 else count)"
    by (simp only: length_repeated clamp_word)
  note w = write_row [OF s1(1) xy len clamp_word_le, of layer]
  show "\<exists>p'. ppu_write_tiles_horizontal sys (Some tiles) len layer x_i y_i count p = Done (0, p')
      \<and> ppu_fd p' = ppu_fd p \<and> ready (os p')
      \<and> sees (put_row layer x_i y_i (repeated tiles len count) v) p'" if "ready (os p)"
    using w(1) that unfolding run s1(2,3) by simp
  show "\<exists>p'. ppu_write_tiles_horizontal sys (Some tiles) len layer x_i y_i count p = Done (-1, p')
      \<and> ppu_fd p' = ppu_fd p \<and> sees (v\<lparr>v_live := v_live v + 1\<rparr>) p'" if "\<not> ready (os p)"
    using w(2) that unfolding run s1(2,3) by simp
qed

lemma write_column_ready:
  "sees v p \<Longrightarrow> ready (os p) \<Longrightarrow> length ts = unat c \<Longrightarrow> unat w + k \<le> unat c \<Longrightarrow> unat c \<le> 64 \<Longrightarrow>
   unat a = layer_base layer + 2 * j \<Longrightarrow> j + 64 * k < 4096 + 64 \<Longrightarrow>
   \<exists>p'. write_column sys ts c k w a p = VDone (w + of_nat k) p' \<and> ppu_fd p' = ppu_fd p \<and> ready (os p')
     \<and> sees (put_downv layer j (take k (drop (unat w) ts)) v) p'"
proof (induction k arbitrary: v p w a j)
  case 0
  then show ?case by simp
next
  case (Suc k)
  have wc: "unat w < unat c" using Suc.prems(4) by simp
  have w1: "unat (w + 1) = unat w + 1"
    using Suc.prems(4,5) by (intro unat_Suc_below) simp
  have base: "layer_base layer \<le> 0x2000" by (rule layer_base_le)
  have b: "unat (TILEDATA_BSIZE) = 2 * 1" by simp
  have room: "j + 1 \<le> 4096" "1 \<le> length (drop (unat w) ts)" using Suc.prems(3,7) wc by auto
  obtain e p1 where wr: "do_pwrite sys (user_mem (tile_bytes (drop (unat w) ts))) TILEDATA_BSIZE a p
      = ((int (2 * 1), e), p1)" and s1: "ppu_fd p1 = ppu_fd p" "ready (os p1)"
      "sees (put_at layer j (take 1 (drop (unat w) ts)) v) p1"
    using write_tiles_ready [OF Suc.prems(1) room(2) b Suc.prems(6) room(1) Suc.prems(2)] by blast
  have a: "unat (a + TILELAYER_WIDTH * TILEDATA_BSIZE) = layer_base layer + 2 * (j + 64)"
  proof -
    have "a + TILELAYER_WIDTH * TILEDATA_BSIZE = of_nat (unat a + 128)" by simp
    also have "unat \<dots> = unat a + 128"
      using Suc.prems(6,7) base by (intro unat_of_nat_u32) simp
    finally show ?thesis using Suc.prems(6) by simp
  qed
  have fits: "unat (w + 1) + k \<le> unat c" "j + 64 + 64 * k < 4096 + 64"
    using Suc.prems(4,7) w1 by simp_all
  obtain p2 where rest: "write_column sys ts c k (w + 1) (a + TILELAYER_WIDTH * TILEDATA_BSIZE) p1
      = VDone (w + 1 + of_nat k) p2" and s2: "ppu_fd p2 = ppu_fd p1" "ready (os p2)"
      "sees (put_downv layer (j + 64) (take k (drop (unat (w + 1)) ts))
         (put_at layer j (take 1 (drop (unat w) ts)) v)) p2"
    using Suc.IH [OF s1(3,2) Suc.prems(3) fits(1) Suc.prems(5) a fits(2)] by blast
  have d: "drop (unat w) ts = ts ! unat w # drop (unat (w + 1)) ts"
    using wc Suc.prems(3) by (simp add: w1 Cons_nth_drop_Suc)
  have "write_column sys ts c (Suc k) w a p = VDone (w + of_nat (Suc k)) p2"
    using wr rest wc by (simp add: word_less_nat_alt Let_def split_beta ac_simps)
  then show ?case using s1 s2 by (simp add: d)
qed

lemma write_column_busy:
  assumes "sees v p" and "\<not> ready (os p)" and "length ts = unat c" and "w < c" and "0 < k"
    and "unat a = layer_base layer + 2 * j" and "j < 4096"
  shows "\<exists>p'. write_column sys ts c k w a p = VBusy EBUSY p' \<and> ppu_fd p' = ppu_fd p \<and> sees v p'"
proof -
  have b: "unat (TILEDATA_BSIZE) = 2 * 1" by simp
  have room: "j + 1 \<le> 4096" "1 \<le> length (drop (unat w) ts)"
    using assms by (auto simp: word_less_nat_alt)
  obtain p1 where wr: "do_pwrite sys (user_mem (tile_bytes (drop (unat w) ts))) TILEDATA_BSIZE a p
      = ((-1, EBUSY), p1)" and s1: "ppu_fd p1 = ppu_fd p" "sees v p1"
    using write_tiles_busy [OF assms(1) room(2) b assms(6) room(1) assms(2)] by blast
  with assms(4,5) show ?thesis by (cases k) (simp_all add: Let_def)
qed

lemma write_columns:
  assumes s: "sees v p" and xy: "x_i < 64" "y_i < 64"
    and c: "length ts = unat c" "c \<le> 64" "c \<noteq> 0"
    and start: "unat a = layer_base layer + 2 * (64 * unat y_i + unat x_i)"
    and wrap: "unat b = layer_base layer + 2 * unat x_i"
  defines "run \<equiv> write_columns 2 sys ts c b (unsigned_min (64 - y_i) c) 0 a p"
  shows "ready (os p) \<Longrightarrow> \<exists>p'. run = Done (0, p') \<and> ppu_fd p' = ppu_fd p \<and> ready (os p')
      \<and> sees (put_col layer x_i y_i ts (v\<lparr>v_live := v_live v - 1\<rparr>)) p'"
    and "\<not> ready (os p) \<Longrightarrow> \<exists>p'. run = Done (-1, p') \<and> ppu_fd p' = ppu_fd p \<and> sees v p'"
proof -
  define n where "n = unsigned_min (64 - y_i) c"
  have xy': "unat x_i < 64" "unat y_i < 64" "unat c \<le> 64" "0 < unat c"
    using xy c by (simp_all add: word_less_nat_alt word_le_nat_alt unat_gt_0)
  have n: "unat n = min (64 - unat y_i) (unat c)" unfolding n_def by (rule unat_min_row [OF xy(2)])
  have cn: "unat (c - n) = unat c - unat n"
    using n by (simp add: unat_sub word_le_nat_alt)
  have two: "2 = Suc (Suc 0)" by simp
  show "\<exists>p'. run = Done (0, p') \<and> ppu_fd p' = ppu_fd p \<and> ready (os p')
      \<and> sees (put_col layer x_i y_i ts (v\<lparr>v_live := v_live v - 1\<rparr>)) p'" if rdy: "ready (os p)"
  proof -
    have f1: "unat (0 :: u32) + unat n \<le> unat c" "64 * unat y_i + unat x_i + 64 * unat n < 4096 + 64"
      using n xy' by auto
    obtain p1 where w1: "write_column sys ts c (unat n) 0 a p = VDone n p1"
      and s1: "ppu_fd p1 = ppu_fd p" "ready (os p1)"
        "sees (put_downv layer (64 * unat y_i + unat x_i) (take (unat n) ts) v) p1"
      using write_column_ready [OF s rdy c(1) f1(1) xy'(3) start f1(2)] by auto
    have f2: "unat n + unat (c - n) \<le> unat c" "unat x_i + 64 * unat (c - n) < 4096 + 64"
      using n xy' cn by auto
    have rest: "take (unat (c - n)) (drop (unat n) ts) = drop (unat n) ts" using c cn by simp
    obtain p2 where w2: "write_column sys ts c (unat (c - n)) n b p1 = VDone c p2"
      and s2: "ppu_fd p2 = ppu_fd p1" "ready (os p2)"
        "sees (put_downv layer (unat x_i) (drop (unat n) ts)
           (put_downv layer (64 * unat y_i + unat x_i) (take (unat n) ts) v)) p2"
      using write_column_ready [OF s1(3,2) c(1) f2(1) xy'(3) wrap f2(2)] unfolding rest by auto
    have col: "put_col layer x_i y_i ts u = put_downv layer (unat x_i) (drop (unat n) ts)
        (put_downv layer (64 * unat y_i + unat x_i) (take (unat n) ts) u)" for u
      by (simp only: put_col_down Let_def c(1) n)
    show ?thesis
    proof (cases "n < c")
      case False
      then have "drop (unat n) ts = []" using c by (simp add: word_less_nat_alt)
      then show ?thesis
        using s1 sees_free [OF s1(3)] False w1 c(3)
        by (simp add: run_def n_def [symmetric] two col word_gt_0 del: One_nat_def)
    next
      case True
      then show ?thesis
        using s1 s2 sees_free [OF s2(3)] w1 w2 c(3)
        by (simp add: run_def n_def [symmetric] two col word_gt_0)
    qed
  qed
  show "\<exists>p'. run = Done (-1, p') \<and> ppu_fd p' = ppu_fd p \<and> sees v p'" if busy: "\<not> ready (os p)"
  proof -
    have "0 < unat n" "64 * unat y_i + unat x_i < 4096" "0 < c" using n xy' c(3) by (auto simp: word_gt_0)
    then obtain p1 where "write_column sys ts c (unat n) 0 a p = VBusy EBUSY p1"
      "ppu_fd p1 = ppu_fd p" "sees v p1"
      using write_column_busy [OF s busy c(1) _ _ start] by blast
    with c(3) show ?thesis by (simp add: run_def n_def [symmetric] two word_gt_0)
  qed
qed

lemma vertical:
  assumes s: "sees v p" and xy: "x_i < 64" "y_i < 64" and some: "count \<noteq> 0" "len \<noteq> 0"
    and tiles: "min (clamp64 len) (clamp64 count) \<le> length tiles"
    and mem: "fst (do_malloc sys (2 * clamp64 count) p) \<noteq> None"
  shows "ready (os p) \<Longrightarrow>
      \<exists>p'. ppu_write_tiles_vertical sys (Some tiles) len layer x_i y_i count p = Done (0, p')
        \<and> ppu_fd p' = ppu_fd p \<and> ready (os p')
        \<and> sees (put_col layer x_i y_i (repeated tiles len count) v) p'"
    and "\<not> ready (os p) \<Longrightarrow>
      \<exists>p'. ppu_write_tiles_vertical sys (Some tiles) len layer x_i y_i count p = Done (-1, p')
        \<and> ppu_fd p' = ppu_fd p \<and> sees (v\<lparr>v_live := v_live v + 1\<rparr>) p'"
proof -
  define c where "c = (if count > 64 then 64 else count)"
  define l where "l = (if len > 64 then 64 else len)"
  define off where "off = (if layer = LAYER_FG then TILERAM_FGOFFSET else 0)"
  have c: "c \<le> 64" "unat c = clamp64 count"
    unfolding c_def by (rule clamp_word_le, rule clamp_word)
  have c0: "c \<noteq> 0" using some(1) by (simp add: c_def)
  have k: "unat (TILEDATA_BSIZE * c) = 2 * clamp64 count"
    using unat_tile_bytes [OF c(1)] by (simp add: c mult.commute)
  have fill: "fill_tiles tiles l (unat c) 0 = Some (repeated tiles len count)"
    unfolding c_def l_def by (rule fill_tiles_repeated [OF some(2) tiles])
  have lenw: "length (repeated tiles len count) = unat c" by (simp add: c)
  have args: "\<not> 64 \<le> x_i" "\<not> 64 \<le> y_i" using xy by auto
  have off: "off \<le> 0x2000" "unat off = layer_base layer" by (auto simp: off_def layer_base_def)
  have start: "unat (off + (push_bit 6 y_i + x_i) * TILEDATA_BSIZE)
      = layer_base layer + 2 * (64 * unat y_i + unat x_i)"
    using tile_addr [OF xy off(1)] by (simp add: push_bit_eq_mult off(2))
  have wrap: "unat (off + x_i * TILEDATA_BSIZE) = layer_base layer + 2 * unat x_i"
    using tile_addr [OF xy(1) _ off(1), of 0] by (simp add: off(2))
  obtain blk p1 where m: "do_malloc sys (unat (TILEDATA_BSIZE * c)) p = (Some blk, p1)"
    and s1: "sees (v\<lparr>v_live := v_live v + 1\<rparr>) p1" "ppu_fd p1 = ppu_fd p" "ready (os p1) \<longleftrightarrow> ready (os p)"
    unfolding k using malloc_given [OF s mem] by blast
  have run: "ppu_write_tiles_vertical sys (Some tiles) len layer x_i y_i count p
      = write_columns 2 sys (repeated tiles len count) c (off + x_i * TILEDATA_BSIZE)
          (unsigned_min (64 - y_i) c) 0 (off + (push_bit 6 y_i + x_i) * TILEDATA_BSIZE) p1"
    unfolding ppu_write_tiles_vertical_def nowaymsg_if Let_def c_def [symmetric] l_def [symmetric]
      off_def [symmetric]
    using sees_fd [OF s] args some by (simp add: m fill)
  note w = write_columns [OF s1(1) xy lenw c(1) c0 start wrap]
  show "\<exists>p'. ppu_write_tiles_vertical sys (Some tiles) len layer x_i y_i count p = Done (0, p')
      \<and> ppu_fd p' = ppu_fd p \<and> ready (os p')
      \<and> sees (put_col layer x_i y_i (repeated tiles len count) v) p'" if "ready (os p)"
    using w(1) that unfolding run s1(2,3) by simp
  show "\<exists>p'. ppu_write_tiles_vertical sys (Some tiles) len layer x_i y_i count p = Done (-1, p')
      \<and> ppu_fd p' = ppu_fd p \<and> sees (v\<lparr>v_live := v_live v + 1\<rparr>) p'" if "\<not> ready (os p)"
    using w(2) that unfolding run s1(2,3) by simp
qed

lemma cell_step:
  assumes s: "sees v p" and ok: "cell_ok pts w (row, col)"
  obtains x y where "x = (unat x_i + col) mod 32" and "y = (unat y_i + row) mod 32"
    and "ready (os p) \<Longrightarrow> \<exists>e p'. \<forall>cells. write_cells sys pts w x_i y_i (cell_word (row, col) # cells) p
        = write_cells sys pts w x_i y_i cells p' \<and> ppu_fd p' = ppu_fd p \<and> ready (os p')
        \<and> sees (v\<lparr>v_vram := put_pattern x y (pts ! (col + unat w * row)) (v_vram v)\<rparr>) p'"
    and "\<not> ready (os p) \<Longrightarrow> \<exists>p'. \<forall>cells. write_cells sys pts w x_i y_i (cell_word (row, col) # cells) p
        = Done (-1, p') \<and> ppu_fd p' = ppu_fd p \<and> sees v p'"
proof -
  define x where "x = (unat x_i + col) mod 32"
  define y where "y = (unat y_i + row) mod 32"
  let ?i = "col + unat w * row"
  let ?xf = "(x_i + of_nat col) AND 0x1F" and ?yf = "(y_i + of_nat row) AND 0x1F"
  have xf: "unat ?xf = x" using and_1F [of "unat x_i + col"] by (simp add: x_def)
  have yf: "unat ?yf = y" using and_1F [of "unat y_i + row"] by (simp add: y_def)
  have xy: "x < 32" "y < 32" by (simp_all add: x_def y_def)
  obtain addr where addr: "ppu_pattern_addr ?xf ?yf = Done addr" "unat addr = 32 * y + x"
    using pattern_addr_value [of ?xf ?yf] xy unfolding xf yf by blast
  have wr: "unat (VRAM_PATTERNOFFSET + TILEPATTERN_BSIZE * addr) = 0x4000 + 32 * (32 * y + x)"
  proof -
    have "VRAM_PATTERNOFFSET + TILEPATTERN_BSIZE * addr = of_nat (0x4000 + 32 * unat addr)" by simp
    also have "unat \<dots> = 0x4000 + 32 * unat addr"
      using xy addr(2) by (intro unat_of_nat_u32) simp
    finally show ?thesis by (simp add: addr(2))
  qed
  have i: "unat (of_nat col + w * of_nat row :: u32) = ?i"
  proof -
    have "of_nat col + w * of_nat row = (of_nat ?i :: u32)" by simp
    also have "unat \<dots> = ?i" using ok by (intro unat_of_nat_u32) (simp add: cell_ok_def)
    finally show ?thesis .
  qed
  have okp: "?i < length pts" "pattern_ok (pts ! ?i)" using ok by (simp_all add: cell_ok_def)
  let ?bs = "pattern_bytes (pts ! ?i)"
  have l: "length ?bs = unat TILEPATTERN_BSIZE" "length ?bs = 32"
    using length_pattern_bytes [OF okp(2)] by simp_all
  have fits: "unat (VRAM_PATTERNOFFSET + TILEPATTERN_BSIZE * addr) + length ?bs \<le> VRAM_SIZE"
    unfolding wr l(2) using xy by simp
  show thesis
  proof (rule that [OF x_def y_def])
    assume rdy: "ready (os p)"
    obtain e p' where w: "do_pwrite sys (user_mem ?bs) TILEPATTERN_BSIZE
        (VRAM_PATTERNOFFSET + TILEPATTERN_BSIZE * addr) p = ((int (length ?bs), e), p')"
      "ppu_fd p' = ppu_fd p" "ready (os p')"
      "sees (put_vram (unat (VRAM_PATTERNOFFSET + TILEPATTERN_BSIZE * addr)) ?bs v) p'"
      using do_pwrite_ready [OF s rdy user_readable_user_mem l(1) fits] by metis
    from w(1) have "write_cells sys pts w x_i y_i (cell_word (row, col) # cells) p
        = write_cells sys pts w x_i y_i cells p'" for cells
      using okp by (simp add: cell_word_def addr i l Let_def)
    moreover have "sees (v\<lparr>v_vram := put_pattern x y (pts ! ?i) (v_vram v)\<rparr>) p'"
      using w(4) by (simp add: put_vram_def put_pattern_def wr)
    ultimately show "\<exists>e p'. \<forall>cells. write_cells sys pts w x_i y_i (cell_word (row, col) # cells) p
        = write_cells sys pts w x_i y_i cells p' \<and> ppu_fd p' = ppu_fd p \<and> ready (os p')
        \<and> sees (v\<lparr>v_vram := put_pattern x y (pts ! ?i) (v_vram v)\<rparr>) p'"
      using w(2,3) by blast
  next
    assume busy: "\<not> ready (os p)"
    obtain p' where w: "do_pwrite sys (user_mem ?bs) TILEPATTERN_BSIZE
        (VRAM_PATTERNOFFSET + TILEPATTERN_BSIZE * addr) p = ((-1, EBUSY), p')"
      "ppu_fd p' = ppu_fd p" "sees v p'"
      using do_pwrite_busy [OF s busy user_readable_user_mem l(1) fits] by metis
    from w(1) have "write_cells sys pts w x_i y_i (cell_word (row, col) # cells) p = Done (-1, p')" for cells
      using okp by (simp add: cell_word_def addr i l Let_def)
    then show "\<exists>p'. \<forall>cells. write_cells sys pts w x_i y_i (cell_word (row, col) # cells) p
        = Done (-1, p') \<and> ppu_fd p' = ppu_fd p \<and> sees v p'"
      using w(2,3) by blast
  qed
qed

lemma write_cells_ready:
  "sees v p \<Longrightarrow> ready (os p) \<Longrightarrow> list_all (cell_ok pts w) cs \<Longrightarrow>
   \<exists>p'. write_cells sys pts w x_i y_i (map cell_word cs) p = Done (0, p') \<and> ppu_fd p' = ppu_fd p
     \<and> ready (os p') \<and> sees (put_cellsv pts (unat w) (unat x_i) (unat y_i) cs v) p'"
proof (induction cs arbitrary: v p)
  case Nil
  then show ?case by (simp add: put_cellsv_def)
next
  case (Cons rc cs)
  obtain row col where rc: "rc = (row, col)" by fastforce
  with Cons.prems have ok: "cell_ok pts w (row, col)" "list_all (cell_ok pts w) cs" by simp_all
  obtain p1 where p1: "write_cells sys pts w x_i y_i (map cell_word (rc # cs)) p
      = write_cells sys pts w x_i y_i (map cell_word cs) p1" "ppu_fd p1 = ppu_fd p" "ready (os p1)"
    "sees (v\<lparr>v_vram := put_pattern ((unat x_i + col) mod 32) ((unat y_i + row) mod 32)
       (pts ! (col + unat w * row)) (v_vram v)\<rparr>) p1"
    using cell_step [OF Cons.prems(1) ok(1), of x_i y_i] Cons.prems(2) unfolding rc list.map by metis
  from Cons.IH [OF p1(4,3) ok(2)] show ?case
    unfolding p1(1,2) unfolding rc by (simp add: put_cellsv_def)
qed

lemma write_cells_busy:
  assumes "sees v p" and "\<not> ready (os p)" and "cell_ok pts w rc"
  shows "\<exists>p'. write_cells sys pts w x_i y_i (map cell_word (rc # cs)) p = Done (-1, p')
     \<and> ppu_fd p' = ppu_fd p \<and> sees v p'"
  using cell_step [OF assms(1), of pts w "fst rc" "snd rc" x_i y_i] assms(2,3)
  unfolding prod.collapse list.map by metis

lemma pattern_run:
  assumes s: "sees v p" and addr: "addr \<le> PATTERN_MAXADDR" and dims: "width \<noteq> 0" "height \<noteq> 0"
    and size: "unat width * unat height \<le> length pts" "unat width * unat height \<le> 2 ^ 32"
    and ok: "list_all pattern_ok pts"
  defines "run \<equiv> ppu_write_pattern sys (Some pts) width height addr p"
  shows "ready (os p) \<Longrightarrow> \<exists>p'. run = Done (0, p') \<and> ppu_fd p' = ppu_fd p \<and> ready (os p')
     \<and> sees (put_cellsv pts (unat width) (unat addr mod 32) (unat addr div 32)
         (pattern_nats (unat width) (unat height)) v) p'"
    and "\<not> ready (os p) \<Longrightarrow> \<exists>p'. run = Done (-1, p') \<and> ppu_fd p' = ppu_fd p \<and> sees v p'"
proof -
  let ?cs = "pattern_nats (unat width) (unat height)"
  define x where "x = addr AND 0x1F"
  define y where "y = drop_bit 5 addr AND 0x1F"
  have a: "unat addr \<le> 1023" "\<not> PATTERN_MAXADDR < addr" using addr by (simp_all add: word_le_nat_alt not_less)
  have x: "unat x = unat addr mod 32" using and_1F [of "unat addr"] by (simp add: x_def)
  have y: "unat y = unat addr div 32"
  proof -
    have "unat (drop_bit 5 addr) = unat addr div 32" by (simp add: drop_bit_eq_div unat_div)
    then have "drop_bit 5 addr = of_nat (unat addr div 32)" by (rule eq_of_nat)
    then have "unat y = unat addr div 32 mod 32" by (simp only: y_def and_1F)
    then show ?thesis using a(1) by simp
  qed
  have w: "0 < unat width" "0 < unat height" using dims by (simp_all add: unat_gt_0)
  have run: "run = write_cells sys pts width x y (map cell_word ?cs) p"
    using sees_fd [OF s] a(2) dims
    by (simp add: run_def ppu_write_pattern_def x_def y_def pattern_cells_nats)
  have cells: "list_all (cell_ok pts width) ?cs"
    using ok size cell_index by (fastforce simp: list_all_iff cell_ok_def)
  show "\<exists>p'. run = Done (0, p') \<and> ppu_fd p' = ppu_fd p \<and> ready (os p')
     \<and> sees (put_cellsv pts (unat width) (unat addr mod 32) (unat addr div 32) ?cs v) p'"
    if "ready (os p)"
    using write_cells_ready [OF s that cells, of x y] unfolding run x y .
  show "\<exists>p'. run = Done (-1, p') \<and> ppu_fd p' = ppu_fd p \<and> sees v p'" if "\<not> ready (os p)"
  proof -
    obtain rc rest where cs: "?cs = rc # rest" using pattern_nats_Cons [OF w] by blast
    with cells have "cell_ok pts width rc" by simp
    then show ?thesis using write_cells_busy [OF s that] unfolding run cs by blast
  qed
qed

lemma palette_run:
  assumes s: "sees v p" and k: "unat k < palettes_of layer" and pal: "palette_ok pal"
  defines "run \<equiv> ppu_write_palette sys (Some pal) layer k p"
  shows "ready (os p) \<Longrightarrow> \<exists>p'. run = Done (0, p') \<and> ppu_fd p' = ppu_fd p \<and> ready (os p')
     \<and> sees (put_palette layer k pal v) p'"
    and "\<not> ready (os p) \<Longrightarrow> \<exists>p'. run = Done (-1, p') \<and> ppu_fd p' = ppu_fd p \<and> sees v p'"
proof -
  define a where "a = VRAM_PALETTEOFFSET + (if layer = LAYER_SPR then PALETTERAM_SPROFFSET
      else if layer = LAYER_FG then PALETTERAM_FGOFFSET else PALETTERAM_BGOFFSET) + k * PALETTE16_BSIZE + 4"
  have a: "unat a = palette_base layer (unat k)" unfolding a_def by (rule palette_addr [OF k])
  have l: "length (palette_bytes pal) = unat PALETTE15_BSIZE" "length (palette_bytes pal) = 60"
    using length_palette_bytes [OF pal] by simp_all
  have fits: "unat a + length (palette_bytes pal) \<le> VRAM_SIZE"
    using palette_base_bound [OF k] unfolding a l(2) by simp
  have run: "run = (let ((r, err), p) = do_pwrite sys (user_mem (palette_bytes pal)) PALETTE15_BSIZE a p
      in if r \<noteq> sint PALETTE15_BSIZE
         then c_assert (err = EBUSY) ''errno == EBUSY'' (Done (-1, p)) else Done (0, p))"
    using sees_fd [OF s] k
    by (auto simp: run_def ppu_write_palette_def a_def palettes_of_def word_le_nat_alt)
  show "\<exists>p'. run = Done (0, p') \<and> ppu_fd p' = ppu_fd p \<and> ready (os p')
     \<and> sees (put_palette layer k pal v) p'" if "ready (os p)"
    using do_pwrite_ready [OF s that user_readable_user_mem l(1) fits] unfolding run put_palette_def a
    by (force simp: l(2) Let_def)
  show "\<exists>p'. run = Done (-1, p') \<and> ppu_fd p' = ppu_fd p \<and> sees v p'" if "\<not> ready (os p)"
    using do_pwrite_busy [OF s that user_readable_user_mem l(1) fits] unfolding run
    by (force simp: Let_def)
qed

lemma sprites_run:
  assumes s: "sees v p" and bound: "\<not> sprite_id + len > SPRITE_MAXCOUNT"
    and ok: "list_all sprite_ok sprites" and n: "unat len \<le> length sprites" "unat len \<le> 64"
    and m1: "do_malloc sys (4 * unat len) p = (Some buf, p1)"
    and m2: "do_malloc sys (unat len) p1 = (Some extra, p2)"
  defines "run \<equiv> ppu_write_sprites sys (Some sprites) len sprite_id p"
    and "a1 \<equiv> VRAM_SPRITESOFFSET + sprite_id * SPRITE_BSIZE"
    and "a2 \<equiv> VRAM_SPRITESOFFSET + SPRRAM_EXTRAOFFSET + sprite_id"
    and "ss \<equiv> take (unat len) sprites"
  shows sprites_overflow: "len \<noteq> 0 \<Longrightarrow> length extra < 4 * unat len \<Longrightarrow> run = Undef"
    and sprites_slack: "4 * unat len \<le> length extra \<Longrightarrow> ready (os p) \<Longrightarrow>
      unat a1 + 4 * unat len \<le> VRAM_SIZE \<Longrightarrow> unat a2 + unat len \<le> VRAM_SIZE \<Longrightarrow>
      \<exists>p'. run = Done (0, p') \<and> ppu_fd p' = ppu_fd p \<and> ready (os p')
        \<and> sees (put_vram (unat a2) (take (unat len) (extra_words ss))
                (put_vram (unat a1) (sprite_words ss) v)) p'"
proof -
  have fd: "ppu_fd p \<noteq> -1" using sees_fd [OF s] by simp
  have l4: "unat (len * SPRITE_BSIZE) = 4 * unat len" by (rule unat_times4 [OF n(2)])
  have buf: "4 * unat len \<le> length buf"
    and s1: "sees (v\<lparr>v_live := v_live v + 1\<rparr>) p1" "ppu_fd p1 = ppu_fd p" "ready (os p1) \<longleftrightarrow> ready (os p)"
    using malloc_given [OF s, of "4 * unat len"] m1 by auto
  have s2: "sees (v\<lparr>v_live := v_live v + 2\<rparr>) p2" "ppu_fd p2 = ppu_fd p" "ready (os p2) \<longleftrightarrow> ready (os p)"
    using malloc_given [OF s1(1), of "unat len"] m2 s1(2,3) by (auto simp: add.commute)
  have run: "run = and_then (pack_sprites sprites 0 (unat len) buf extra)
        (\<lambda>(sprite_buf, sprite_extra_buf).
         let ((r, err), p) = do_pwrite sys (user_mem sprite_buf) (len * SPRITE_BSIZE) a1 p2
         in if r \<noteq> sint (len * SPRITE_BSIZE)
            then c_assert (err = EBUSY) ''errno == EBUSY'' (Done (-1, p))
            else
         (let ((r, err), p) = do_pwrite sys (user_mem sprite_extra_buf) len a2 p
          in if r \<noteq> sint len
             then c_assert (err = EBUSY) ''errno == EBUSY'' (Done (-1, p))
             else Done (0, do_free sys (do_free sys p))))"
    unfolding run_def ppu_write_sprites_def nowaymsg_if l4 Let_def a1_def [symmetric] a2_def [symmetric]
    using bound by (simp add: m1 m2)
  show "run = Undef" if "len \<noteq> 0" "length extra < 4 * unat len"
  proof -
    have "pack_sprites sprites 0 (unat len) buf extra = Undef"
      using pack_sprites_overflow [OF ok, of 0 "unat len" buf extra] that n buf
      by (simp add: unat_gt_0)
    then show ?thesis by (simp add: run)
  qed
  assume slack: "4 * unat len \<le> length extra" and rdy: "ready (os p)"
    and fits: "unat a1 + 4 * unat len \<le> VRAM_SIZE" "unat a2 + unat len \<le> VRAM_SIZE"
  let ?sb = "blit 0 (sprite_words ss) buf" and ?eb = "blit 0 (extra_words ss) extra"
  have len: "length ss = unat len" using n by (simp add: ss_def)
  have pack: "pack_sprites sprites 0 (unat len) buf extra = Done (?sb, ?eb)"
    using pack_sprites_fits [OF ok, of 0 "unat len" buf extra] n buf slack by (simp add: ss_def)
  have rd1: "user_readable (user_mem ?sb) (sprite_words ss)"
    using buf len by (intro user_readable_blit0) simp
  have "user_readable (user_mem ?eb) (extra_words ss)"
    using slack len by (intro user_readable_blit0) simp
  then have rd2: "user_readable (user_mem ?eb) (take (unat len) (extra_words ss))"
    by (auto simp: user_readable_def)
  have b1: "length (sprite_words ss) = unat (len * SPRITE_BSIZE)" using len l4 by simp
  have b2: "length (take (unat len) (extra_words ss)) = unat len" using len by simp
  obtain e3 p3 where w3: "do_pwrite sys (user_mem ?sb) (len * SPRITE_BSIZE) a1 p2
      = ((int (4 * unat len), e3), p3)" and s3: "ppu_fd p3 = ppu_fd p" "ready (os p3)"
      "sees (put_vram (unat a1) (sprite_words ss) (v\<lparr>v_live := v_live v + 2\<rparr>)) p3"
    using do_pwrite_ready [OF s2(1) _ rd1 b1, of a1] fits(1) rdy s2(2,3) unfolding b1 l4 by metis
  obtain e4 p4 where w4: "do_pwrite sys (user_mem ?eb) len a2 p3 = ((int (unat len), e4), p4)"
    and s4: "ppu_fd p4 = ppu_fd p" "ready (os p4)"
      "sees (put_vram (unat a2) (take (unat len) (extra_words ss))
         (put_vram (unat a1) (sprite_words ss) (v\<lparr>v_live := v_live v + 2\<rparr>))) p4"
    using do_pwrite_ready [OF s3(3,2) rd2 b2, of a2] fits(2) s3(1) unfolding b2 by metis
  have r: "sint (len * SPRITE_BSIZE) = int (4 * unat len)" "sint len = int (unat len)"
    using n(2) l4 sint_small [of "len * SPRITE_BSIZE"] sint_small [of len] by simp_all
  have res: "run = Done (0, do_free sys (do_free sys p4))"
    unfolding run pack and_then.simps prod.case w3 r Let_def w4 by simp
  note f1 = sees_free [OF s4(3)]
  note f2 = sees_free [OF conjunct1 [OF f1]]
  have live: "(put_vram (unat a2) (take (unat len) (extra_words ss))
         (put_vram (unat a1) (sprite_words ss) (v\<lparr>v_live := v_live v + 2\<rparr>)))\<lparr>v_live := v_live v\<rparr>
     = put_vram (unat a2) (take (unat len) (extra_words ss)) (put_vram (unat a1) (sprite_words ss) v)"
    by (cases v) (simp add: put_vram_def)
  show "\<exists>p'. run = Done (0, p') \<and> ppu_fd p' = ppu_fd p \<and> ready (os p')
        \<and> sees (put_vram (unat a2) (take (unat len) (extra_words ss))
                (put_vram (unat a1) (sprite_words ss) v)) p'"
    using res f1 f2 s4 by (auto simp: live put_vram_def)
qed

lemma bgcolor_run:
  assumes "sees v p"
  shows "ready (os p) \<Longrightarrow> \<exists>p'. ppu_set_bgcolor sys col p = Done (0, p') \<and> ppu_fd p' = ppu_fd p
      \<and> ready (os p') \<and> sees (v\<lparr>v_bgcolor := col AND COLOR_24MASK\<rparr>) p'"
    and "\<not> ready (os p) \<Longrightarrow> \<exists>p'. ppu_set_bgcolor sys col p = Done (-1, p') \<and> ppu_fd p' = ppu_fd p \<and> sees v p'"
  using do_ioctl_ready [OF assms, of IOCTL_PPU_SET_BGCOLOR "col AND COLOR_24MASK"]
    do_ioctl_busy [OF assms, of IOCTL_PPU_SET_BGCOLOR "col AND COLOR_24MASK"] sees_fd [OF assms]
  by (force simp: ppu_set_bgcolor_def)+

lemma enable_run:
  assumes "sees v p"
  shows "ready (os p) \<Longrightarrow> \<exists>p'. ppu_set_layer_enable sys m p = Done (0, p') \<and> ppu_fd p' = ppu_fd p
      \<and> ready (os p') \<and> sees (v\<lparr>v_enable := m AND LAYER_ENMASK\<rparr>) p'"
    and "\<not> ready (os p) \<Longrightarrow> \<exists>p'. ppu_set_layer_enable sys m p = Done (-1, p') \<and> ppu_fd p' = ppu_fd p \<and> sees v p'"
  using do_ioctl_ready [OF assms, of IOCTL_PPU_SET_ENABLE "m AND LAYER_ENMASK"]
    do_ioctl_busy [OF assms, of IOCTL_PPU_SET_ENABLE "m AND LAYER_ENMASK"] sees_fd [OF assms]
  by (force simp: ppu_set_layer_enable_def)+

lemma scroll_run:
  fixes scroll_x scroll_y :: u32
  assumes "sees v p" and "layer \<noteq> LAYER_SPR"
  defines "a \<equiv> push_bit 16 scroll_y OR scroll_x"
  shows "ready (os p) \<Longrightarrow> \<exists>p'. ppu_set_scroll sys layer scroll_x scroll_y p = Done (0, p')
      \<and> ppu_fd p' = ppu_fd p \<and> ready (os p') \<and> sees (scroll_view layer a v) p'"
    and "\<not> ready (os p) \<Longrightarrow> \<exists>p'. ppu_set_scroll sys layer scroll_x scroll_y p = Done (-1, p')
      \<and> ppu_fd p' = ppu_fd p \<and> sees v p'"
proof -
  define c where "c = (if layer = LAYER_FG then IOCTL_PPU_SET_FGSCROLL else IOCTL_PPU_SET_BGSCROLL)"
  have c: "\<forall>k. c \<noteq> PPU_OTHER k" "c \<noteq> IOCTL_PPU_UPDATE" "set_reg c a v = scroll_view layer a v"
    by (simp_all add: c_def scroll_view_def)
  note go = do_ioctl_ready [OF assms(1) _ c(1), of a] do_ioctl_busy [OF assms(1) _ c(1), of a]
  show "\<exists>p'. ppu_set_scroll sys layer scroll_x scroll_y p = Done (0, p')
      \<and> ppu_fd p' = ppu_fd p \<and> ready (os p') \<and> sees (scroll_view layer a v) p'" if "ready (os p)"
    using go(1) [OF that] sees_fd [OF assms(1)] assms(2) c(2)
    unfolding ppu_set_scroll_def c_def [symmetric] a_def [symmetric] c(3) Let_def by force
  show "\<exists>p'. ppu_set_scroll sys layer scroll_x scroll_y p = Done (-1, p')
      \<and> ppu_fd p' = ppu_fd p \<and> sees v p'" if "\<not> ready (os p)"
    using go(2) [OF that] sees_fd [OF assms(1)] assms(2)
    unfolding ppu_set_scroll_def c_def [symmetric] a_def [symmetric] Let_def by force
qed

lemma update_run:
  assumes "sees v p"
  shows "ready (os p) \<Longrightarrow> \<exists>p'. ppu_update sys p = Done (0, p') \<and> ppu_fd p' = ppu_fd p \<and> sees v p'"
    and "\<not> ready (os p) \<Longrightarrow> \<exists>p'. ppu_update sys p = Done (-1, p') \<and> ppu_fd p' = ppu_fd p \<and> sees v p'"
  using do_ioctl_ready [OF assms, of IOCTL_PPU_UPDATE 0]
    do_ioctl_busy [OF assms, of IOCTL_PPU_UPDATE 0] sees_fd [OF assms]
  by (force simp: ppu_update_def)+

lemma vram_run:
  assumes s: "sees v p" and "user_readable buf bs" and "length bs = unat n"
    and "unat off + length bs \<le> VRAM_SIZE"
  shows "ready (os p) \<Longrightarrow> \<exists>p'. ppu_write_vram sys buf n off p = Done (0, p') \<and> ppu_fd p' = ppu_fd p
      \<and> ready (os p') \<and> sees (put_vram (unat off) bs v) p'"
    and "\<not> ready (os p) \<Longrightarrow> \<exists>p'. ppu_write_vram sys buf n off p = Done (-1, p') \<and> ppu_fd p' = ppu_fd p \<and> sees v p'"
proof -
  have r: "sint n = int (length bs)" using assms(3,4) by (subst sint_len) simp_all
  show "\<exists>p'. ppu_write_vram sys buf n off p = Done (0, p') \<and> ppu_fd p' = ppu_fd p
      \<and> ready (os p') \<and> sees (put_vram (unat off) bs v) p'" if "ready (os p)"
    using do_pwrite_ready [OF s that assms(2-4)] sees_fd [OF s]
    by (force simp: ppu_write_vram_def r)
  show "\<exists>p'. ppu_write_vram sys buf n off p = Done (-1, p') \<and> ppu_fd p' = ppu_fd p \<and> sees v p'"
    if "\<not> ready (os p)"
    using do_pwrite_busy [OF s that assms(2-4)] sees_fd [OF s]
    by (force simp: ppu_write_vram_def r)
qed

lemma vram_out_run:
  assumes s: "sees v p" and out: "VRAM_SIZE < unat off + unat n" and n: "sint n \<noteq> -1"
  shows "ppu_write_vram sys buf n off p = Abort (NoWayMsg (Some ''PPU vram write goes out of VRAM bounds!''))"
proof -
  obtain r e w' where c: "pwrite_fd sys (ppu_fd p) buf n off (os p) = ((r, e), w')"
    by (metis prod.exhaust)
  have "r = -1 \<and> e = EINVAL" using pwrite_out [OF _ out c] s by (simp add: sees_def)
  then show ?thesis using sees_fd [OF s] n by (simp add: ppu_write_vram_def do_pwrite_def c)
qed

end

end
