(* ===== verification/PpuSystem.thy ===== *)
theory PpuSystem
  imports PpuHost
begin

text \<open>
  The system calls of the graphics library on the model of the kernel module: a process, the
  module and the device as one world, with the layer of the kernel between them (checks of
  the descriptor and the position, negative returns made into \<open>errno\<close>).  Time passes before
  each call: the schedule says whether the device completes a pending transfer then.
\<close>

section \<open>The world\<close>

record host =
  drv :: ppu_drv
  sched :: "bool list"
  open_fd :: "int option"
  alloc :: "nat \<Rightarrow> nat \<Rightarrow> u8 list option"
  allocs :: nat
  live :: int
  corrupted :: bool

text \<open>
  \<open>alloc k n\<close> is what the allocator answers to the \<open>k\<close>-th request if it is for \<open>n\<close> bytes.
  \<open>corrupted\<close> marks a kernel whose memory has been overwritten.
\<close>

definition tick :: "host \<Rightarrow> host" where
  "tick w = (case sched w of [] \<Rightarrow> w
     | e # es \<Rightarrow> w\<lparr>drv := (if e then dma_complete (drv w) else drv w), sched := es\<rparr>)"

abbreviation (input) EBADF :: int where "EBADF \<equiv> 9"

definition errno_result :: "int \<Rightarrow> int \<times> int" where
  "errno_result r = (if r < 0 then (-1, - r) else (r, 0))"

definition host_open :: "host \<Rightarrow> (int \<times> int) \<times> host" where
  "host_open w =
     (let w = tick w; (r, d) = PpuDriver.ppu_open (drv w); w = w\<lparr>drv := d\<rparr>
      in if r < 0 then ((-1, - r), w) else ((3, 0), w\<lparr>open_fd := Some 3\<rparr>))"

definition host_close :: "int \<Rightarrow> host \<Rightarrow> host option" where
  "host_close fd w =
     (if open_fd w \<noteq> Some fd then Some w
      else
        (case ppu_release (sched w) (drv w) of
           Returns (r, d, es) \<Rightarrow> Some (w\<lparr>drv := d, sched := es, open_fd := None\<rparr>)
         | Spins \<Rightarrow> None
         | Corrupts \<Rightarrow> Some (w\<lparr>corrupted := True\<rparr>)))"

definition host_ioctl :: "int \<Rightarrow> ppu_cmd \<Rightarrow> u32 \<Rightarrow> host \<Rightarrow> (int \<times> int) \<times> host" where
  "host_ioctl fd c a w =
     (if open_fd w \<noteq> Some fd then ((-1, EBADF), w)
      else (let w = tick w; (r, d) = ppu_ioctl c a (drv w) in (errno_result r, w\<lparr>drv := d\<rparr>)))"

definition host_pwrite :: "int \<Rightarrow> ubuf \<Rightarrow> u32 \<Rightarrow> u32 \<Rightarrow> host \<Rightarrow> (int \<times> int) \<times> host" where
  "host_pwrite fd buf n off w =
     (if open_fd w \<noteq> Some fd then ((-1, EBADF), w)
      else if sint off < 0 \<or> sint n < 0 then ((-1, EINVAL), w)
      else
        (let w = tick w
         in case ppu_write buf n (ucast off) (drv w) of
              Returns (r, off', d) \<Rightarrow> (errno_result r, w\<lparr>drv := d\<rparr>)
            | Spins \<Rightarrow> ((-1, 0), w)
            | Corrupts \<Rightarrow> ((-1, 0), w\<lparr>corrupted := True\<rparr>)))"

definition host_malloc :: "nat \<Rightarrow> host \<Rightarrow> u8 list option \<times> host" where
  "host_malloc n w =
     (case alloc w (allocs w) n of
        None \<Rightarrow> (None, w\<lparr>allocs := allocs w + 1\<rparr>)
      | Some blk \<Rightarrow> (Some blk, w\<lparr>allocs := allocs w + 1, live := live w + 1\<rparr>))"

definition host_sys :: "host ppu_sys" where
  "host_sys = \<lparr>open_ppu = host_open, close_fd = host_close, ioctl_fd = host_ioctl,
     pwrite_fd = host_pwrite, malloc_blk = host_malloc, free_blk = \<lambda>w. w\<lparr>live := live w - 1\<rparr>\<rparr>"

section \<open>The contract of the library holds of it\<close>

definition alloc_ok :: "host \<Rightarrow> bool" where
  "alloc_ok w \<longleftrightarrow> (\<forall>k n blk. alloc w k n = Some blk \<longrightarrow> n \<le> length blk)"

definition host_owns :: "int \<Rightarrow> host \<Rightarrow> bool" where
  "host_owns fd w \<longleftrightarrow> fd = 3 \<and> open_fd w = Some 3 \<and> ppu_inv (drv w) \<and> ppu_lock (drv w) = 1
     \<and> \<not> corrupted w \<and> alloc_ok w"

definition host_ready :: "host \<Rightarrow> bool" where
  "host_ready w \<longleftrightarrow> \<not> dma_pending (dev (drv w)) \<or> (\<exists>es. sched w = True # es)"

definition host_look :: "host \<Rightarrow> ppu_view" where
  "host_look w = \<lparr>v_vram = kvram (drv w), v_bgscroll = bgscroll_reg (dev (drv w)),
     v_fgscroll = fgscroll_reg (dev (drv w)), v_bgcolor = bgcolor_reg (dev (drv w)),
     v_enable = enable_reg (dev (drv w)), v_live = live w\<rparr>"

lemma dma_complete_sel [simp]:
  "ppu_lock (dma_complete s) = ppu_lock s" "kvram (dma_complete s) = kvram s"
  "bgscroll_reg (dev (dma_complete s)) = bgscroll_reg (dev s)"
  "fgscroll_reg (dev (dma_complete s)) = fgscroll_reg (dev s)"
  "bgcolor_reg (dev (dma_complete s)) = bgcolor_reg (dev s)"
  "enable_reg (dev (dma_complete s)) = enable_reg (dev s)"
  "\<not> dma_pending (dev (dma_complete s))"
  by (simp_all add: dma_complete_def ppu_irq_def kvram_def)

lemma tick_facts:
  assumes "host_owns fd w"
  shows "host_owns fd (tick w)" and "host_look (tick w) = host_look w"
    and "dma_pending (dev (drv (tick w))) \<longleftrightarrow> \<not> host_ready w"
proof -
  show "host_owns fd (tick w)" "host_look (tick w) = host_look w"
    using assms dma_complete_inv
    by (auto simp: host_owns_def tick_def alloc_ok_def host_look_def split: list.split)
  show "dma_pending (dev (drv (tick w))) \<longleftrightarrow> \<not> host_ready w"
    by (auto simp: tick_def host_ready_def split: list.split)
qed



lemma unat_ucast_off [simp]: "unat (ucast (off :: u32) :: u64) = unat off"
  by (simp add: unsigned_ucast_eq take_bit_nat_eq_self order_less_le_trans [OF unat_u32_less])

lemma vfs_pos_off: "vfs_pos (ucast (off :: u32)) n"
proof -
  have u: "uint (ucast off :: u64) = uint off"
    by (simp add: unsigned_ucast_eq take_bit_int_eq_self order_less_le_trans [OF uint_bounded])
  have b: "uint off < 2 ^ 32" "uint n < 2 ^ 32" using uint_bounded [of off] uint_bounded [of n] by simp_all
  then have "sint (ucast off :: u64) = uint off" by (subst sint_if_uint_small) (simp_all add: u)
  with b show ?thesis by (simp add: vfs_pos_def)
qed

lemma host_pwrite_in:
  assumes own: "host_owns fd w" and buf: "user_readable buf bs" and n: "length bs = unat n"
    and fits: "unat off + length bs \<le> VRAM_SIZE" and call: "host_pwrite fd buf n off w = ((r, e), w')"
  shows "host_owns fd w' \<and> (host_ready w \<longrightarrow> host_ready w') \<and>
    (if host_ready w then r = int (length bs) \<and> host_look w' = put_vram (unat off) bs (host_look w)
     else r = -1 \<and> e = EBUSY \<and> host_look w' = host_look w)"
proof -
  note t = tick_facts [OF own]
  let ?s = "drv (tick w)"
  have inv: "ppu_inv ?s" and fd: "open_fd w = Some fd" using t(1) own by (simp_all add: host_owns_def)
  have sign: "\<not> sint off < 0" "\<not> sint n < 0"
    using fits n by (simp_all add: sint_len)
  have run: "host_pwrite fd buf n off w = (case ppu_write buf n (ucast off) ?s of
              Returns (r, off', d) \<Rightarrow> (errno_result r, (tick w)\<lparr>drv := d\<rparr>)
            | Spins \<Rightarrow> ((-1, 0), tick w)
            | Corrupts \<Rightarrow> ((-1, 0), (tick w)\<lparr>corrupted := True\<rparr>))"
    using fd sign by (simp add: host_pwrite_def Let_def)
  have out: "\<not> VRAM_SIZE < unat (ucast off :: u64) + length bs" using fits by simp
  note w = ppu_write_readable [OF inv vfs_pos_off [of off n] buf n] 
  show ?thesis
  proof (cases "host_ready w")
    case False
    then have "ppu_write buf n (ucast off) ?s = Returns (- EBUSY, ucast off, ?s)"
      using w t(3) out by simp
    with call run have "r = -1" "e = EBUSY" "w' = tick w" by (auto simp: errno_result_def)
    with False t show ?thesis by simp
  next
    case True
    then obtain d where d: "ppu_write buf n (ucast off) ?s
        = Returns (int (length bs), ucast off + ucast n, d)"
      "kvram d = blit (unat off) bs (kvram ?s)" "d = ?s\<lparr>vram_block := vram_block d\<rparr>" "ppu_inv d"
      using w t(3) out by auto
    from call run d(1) have res: "r = int (length bs)" "w' = (tick w)\<lparr>drv := d\<rparr>"
      by (auto simp: errno_result_def)
    have sel: "dev d = dev ?s" "ppu_lock d = ppu_lock ?s"
      by (subst d(3), simp)+
    have "host_owns fd w'" using t(1) d(4) sel by (simp add: host_owns_def res alloc_ok_def)
    moreover have "host_ready w'" using t(3) True by (simp add: host_ready_def res sel)
    moreover have "host_look w' = put_vram (unat off) bs (host_look w)"
      unfolding t(2) [symmetric] by (simp add: host_look_def res sel put_vram_def d(2))
    ultimately show ?thesis using True res by simp
  qed
qed

lemma host_pwrite_out:
  assumes own: "host_owns fd w" and out: "VRAM_SIZE < unat off + unat n"
    and call: "host_pwrite fd buf n off w = ((r, e), w')"
  shows "host_owns fd w' \<and> (host_ready w \<longrightarrow> host_ready w') \<and> r = -1 \<and> e = EINVAL
    \<and> host_look w' = host_look w"
proof -
  note t = tick_facts [OF own]
  have fd: "open_fd w = Some fd" using own by (simp add: host_owns_def)
  have "ppu_write buf n (ucast off) (drv (tick w)) = Returns (- EINVAL, ucast off, drv (tick w))"
    using out by (simp add: ppu_write_nat [OF vfs_pos_off])
  with call fd own t show ?thesis
    by (auto simp: host_pwrite_def errno_result_def Let_def host_ready_def split: if_splits)
qed

lemma host_ioctl_cmd:
  assumes own: "host_owns fd w" and c: "\<forall>k. c \<noteq> PPU_OTHER k"
    and call: "host_ioctl fd c a w = ((r, e), w')"
  shows "host_owns fd w' \<and> (host_ready w \<and> c \<noteq> IOCTL_PPU_UPDATE \<longrightarrow> host_ready w') \<and>
    (if host_ready w then r = 0 \<and> host_look w' = set_reg c a (host_look w)
     else r = -1 \<and> e = EBUSY \<and> host_look w' = host_look w)"
proof -
  note t = tick_facts [OF own]
  let ?s = "drv (tick w)"
  have fd: "open_fd w = Some fd" and inv: "ppu_inv ?s"
    using own t(1) by (simp_all add: host_owns_def)
  have run: "host_ioctl fd c a w = (let (r, d) = ppu_ioctl c a ?s in (errno_result r, (tick w)\<lparr>drv := d\<rparr>))"
    using fd by (simp add: host_ioctl_def Let_def)
  note eq = ppu_ioctl_eq [OF inv, of c a]
  show ?thesis
  proof (cases "host_ready w")
    case False
    with t(3) eq call run have "r = -1" "e = EBUSY" "w' = tick w" by (auto simp: errno_result_def)
    with False t show ?thesis by simp
  next
    case True
    with t(3) eq call run c have res: "r = 0" "w' = (tick w)\<lparr>drv := snd (ppu_ioctl c a ?s)\<rparr>"
      by (cases c; auto simp: errno_result_def)+
    have "ppu_inv (snd (ppu_ioctl c a ?s))" using inv by (rule ppu_ioctl_inv)
    moreover have "ppu_lock (snd (ppu_ioctl c a ?s)) = ppu_lock ?s"
      using eq by (cases c) auto
    ultimately have "host_owns fd w'" using t(1) by (simp add: host_owns_def res alloc_ok_def)
    moreover have "c \<noteq> IOCTL_PPU_UPDATE \<longrightarrow> host_ready w'"
      using True t(3) eq by (cases c) (auto simp: host_ready_def res)
    moreover have "host_look w' = set_reg c a (host_look w)"
      unfolding t(2) [symmetric] using True t(3) eq c
      by (cases c) (auto simp: host_look_def res kvram_def)
    ultimately show ?thesis using True res by simp
  qed
qed

interpretation game: ppu_host host_sys host_owns host_ready host_look
proof unfold_locales
  show "0 \<le> fd \<and> length (v_vram (host_look w)) = VRAM_SIZE" if "host_owns fd w" for fd w
    using that by (auto simp: host_owns_def host_look_def kvram_def ppu_inv_def)
  show "host_owns fd w' \<and> (host_ready w' \<longleftrightarrow> host_ready w) \<and>
      (case b of None \<Rightarrow> host_look w' = host_look w
       | Some blk \<Rightarrow> k \<le> length blk \<and> host_look w' = (host_look w)\<lparr>v_live := v_live (host_look w) + 1\<rparr>)"
    if "host_owns fd w" "malloc_blk host_sys k w = (b, w')" for fd w k b w'
    using that by (auto simp: host_sys_def host_malloc_def host_owns_def host_ready_def host_look_def
        alloc_ok_def split: option.splits)
  show "host_owns fd (free_blk host_sys w) \<and> (host_ready (free_blk host_sys w) \<longleftrightarrow> host_ready w) \<and>
      host_look (free_blk host_sys w) = (host_look w)\<lparr>v_live := v_live (host_look w) - 1\<rparr>"
    if "host_owns fd w" for fd w
    using that by (auto simp: host_sys_def host_owns_def host_ready_def host_look_def alloc_ok_def)
qed (auto simp: host_sys_def dest: host_pwrite_in host_pwrite_out host_ioctl_cmd)

end
