(* ===== verification/PpuDriver_Props.thy ===== *)
theory PpuDriver_Props
  imports PpuDriver
begin

text \<open>
  The properties of the kernel module of the pixel processing unit, over the definitions and
  facts of \<open>PpuDriver\<close>.
\<close>

section \<open>Properties\<close>

text \<open>A probed and opened module over an idle device, for the witnesses.\<close>

definition demo_dev :: ppu_dev where
  "demo_dev = \<lparr>bgscroll_reg = 3, fgscroll_reg = 0, bgcolor_reg = 0, enable_reg = 7,
     dma_pending = False, bus = []\<rparr>"

definition demo_drv :: ppu_drv where
  "demo_drv = \<lparr>vram_block = zeros (VRAM_SIZE + 8), vram_addr_v = 0, vram_base_p = 0x2000,
     vram_addr_p = 0x2000, ppu_lock = 1, vram_lock = 0, dev = demo_dev\<rparr>"

lemma demo_inv [simp]: "ppu_inv demo_drv"
  by (simp add: ppu_inv_def demo_drv_def demo_dev_def)

lemma demo_sel [simp]:
  "dma_pending (dev demo_drv) = False" "ppu_lock demo_drv = 1" "vram_lock demo_drv = 0"
  by (simp_all add: demo_drv_def demo_dev_def)

text \<open>C27. A write of readable bytes at an accepted position is refused with
  EINVAL exactly when it would pass the end of VRAM, otherwise with EBUSY exactly while a
  transfer is pending, both leaving the driver as it was; otherwise it returns the number of
  bytes, advances the position by it, replaces exactly the addressed bytes of VRAM and
  leaves the lock free.\<close>

theorem ppu_write_spec:
  assumes inv: "ppu_inv s" and pos: "vfs_pos off len"
    and buf: "user_readable buf bs" and len: "length bs = unat len"
  shows "if VRAM_SIZE < unat off + length bs then ppu_write buf len off s = Returns (- EINVAL, off, s)
    else if dma_pending (dev s) then ppu_write buf len off s = Returns (- EBUSY, off, s)
    else \<exists>s'. ppu_write buf len off s = Returns (int (length bs), off + ucast len, s')
           \<and> kvram s' = blit (unat off) bs (kvram s)
           \<and> s' = s\<lparr>vram_block := vram_block s'\<rparr>"
  using ppu_write_readable [OF inv pos buf len] by (auto split: if_splits)

theorem ppu_write_spec_witness:
  "\<exists>s'. ppu_write (user_mem [7, 9]) 2 16 demo_drv = Returns (2, 18, s')
     \<and> kvram s' = blit 16 [7, 9] (kvram demo_drv)"
  using ppu_write_spec [of demo_drv 16 2 "user_mem [7, 9]" "[7, 9]"]
  by (auto simp: vfs_pos_def)

text \<open>A write whose buffer faults part of the way returns EFAULT without
  moving the position, leaves every byte outside the addressed range as it was, and leaves
  the lock free, so that later calls are not refused.\<close>

theorem ppu_write_fault:
  assumes inv: "ppu_inv s" and pos: "vfs_pos off len" and ok: "ubuf_ok buf"
    and fits: "unat off + unat len \<le> VRAM_SIZE" and idle: "\<not> dma_pending (dev s)"
    and fault: "snd (buf (unat len)) \<noteq> 0"
  shows "\<exists>s'. ppu_write buf len off s = Returns (- EFAULT, off, s') \<and> ppu_inv s'
     \<and> vram_lock s' = 0 \<and> dev s' = dev s
     \<and> (\<forall>i. i < VRAM_SIZE \<and> (i < unat off \<or> unat off + unat len \<le> i) \<longrightarrow> kvram s' ! i = kvram s ! i)"
proof -
  obtain r off' s' where w: "ppu_write buf len off s = Returns (r, off', s')" and inv': "ppu_inv s'"
    using ppu_write_inv [OF inv ok pos] by blast
  have lock: "vram_lock s \<noteq> 1" using inv idle by (simp add: ppu_inv_def)
  define bs where "bs = fst (buf (unat len))"
  have short: "unat off + length bs \<le> unat off + unat len" using ok by (simp add: ubuf_ok_def bs_def)
  have s': "r = - EFAULT" "off' = off"
      "s' = s\<lparr>vram_block := blit (vram_addr_v s + unat off) bs (vram_block s), vram_lock := 0\<rparr>"
    using w fits lock fault
    by (auto simp: ppu_write_nat [OF pos] bs_def not_less [symmetric] split: option.splits)
  have "kvram s' = blit (unat off) bs (kvram s)"
    using kvram_write [OF inv, of "unat off" bs] short fits by (simp add: s' kvram_def)
  then show ?thesis
    using w s' inv' inv short fits by (auto simp: nth_blit)
qed

theorem ppu_write_fault_witness:
  "\<exists>s'. ppu_write (user_mem [7]) 2 16 demo_drv = Returns (- EFAULT, 16, s') \<and> vram_lock s' = 0"
  using ppu_write_fault [of demo_drv 16 2 "user_mem [7]"]
  by (auto simp: vfs_pos_def user_mem_def)

text \<open>C1. Whatever calls the kernel has made into a freshly probed module and
  whatever interrupts have arrived, the next call neither writes outside the VRAM block the
  module allocated nor breaks the invariant that the VRAM lock is taken exactly while a
  transfer is pending.\<close>

theorem ppu_calls_safe:
  assumes "reach ppu_init ppu_step s" and "ppu_call_ok c"
  shows "ppu_exec c s \<noteq> Corrupts \<and>
    (\<forall>t. ppu_exec c s = Returns t \<longrightarrow>
       (vram_lock t = 1 \<longleftrightarrow> dma_pending (dev t)) \<and> length (vram_block t) = VRAM_SIZE + 8)"
proof -
  from assms(1) have "ppu_inv s" by (rule ppu_module.inv_reach)
  from ppu_exec_inv [OF this assms(2)] show ?thesis by (auto simp: ppu_inv_def)
qed

definition demo_probed :: ppu_drv where
  "demo_probed = demo_drv\<lparr>ppu_lock := 0\<rparr>"

lemma demo_probed_init: "ppu_init demo_probed"
  by (simp add: ppu_init_def demo_probed_def demo_drv_def demo_dev_def)

lemma demo_reach: "reach ppu_init ppu_step demo_probed"
  by (rule reach_init) (rule demo_probed_init)

theorem ppu_calls_safe_witness: "ppu_exec (PpuWrite (user_mem [1]) 1 0xD13F) demo_probed \<noteq> Corrupts"
  using ppu_calls_safe [OF demo_reach, of "PpuWrite (user_mem [1]) 1 0xD13F"]
  by (simp add: vfs_pos_def)

text \<open>The bounds check of the write handler alone does not
  protect the block: a position of -8 passes it and the copy then lands outside the block.
  That the VFS never passes a negative position is what the module relies on.\<close>

theorem ppu_write_negative_offset:
  assumes "ppu_inv s" and "\<not> dma_pending (dev s)"
  shows "ppu_write (user_mem (zeros 8)) 8 (-8) s = Corrupts"
proof -
  have copy: "fst (user_mem (zeros 8) 8) = zeros 8" by (simp add: user_mem_def)
  have a: "unat (ucast (-8 :: u64) :: u32) = 2 ^ 32 - 8" by simp
  have g: "sint ((-8 :: u64) + ucast (8 :: u32)) = 0" by simp
  have l: "vram_lock s \<noteq> 1" using assms by (simp add: ppu_inv_def)
  show ?thesis
    using assms(1) l unfolding ppu_write_def Let_def g a
    by (auto simp: split_beta copy ppu_inv_def mem_write_def)
qed

theorem ppu_write_negative_offset_witness:
  "ppu_write (user_mem (zeros 8)) 8 (-8) demo_drv = Corrupts"
  by (rule ppu_write_negative_offset) simp_all

lemma dma_log_between:
  "dma_log_ok p l \<Longrightarrow> i < j \<Longrightarrow> j < length l \<Longrightarrow> l ! i = DmaStart a \<Longrightarrow> l ! j = DmaStart b
   \<Longrightarrow> \<exists>k. i < k \<and> k < j \<and> l ! k = DmaIrq"
proof (induction p l arbitrary: i j rule: dma_log_ok.induct)
  case (2 pend c l)
  show ?case
  proof (cases i)
    case 0
    with 2 have "dma_log_ok False l" "l \<noteq> []" by auto
    then obtain l' where l: "l = DmaIrq # l'" by (cases l; cases "hd l") auto
    with 2 0 have "j \<noteq> 1" by auto
    with 2 0 l show ?thesis by (intro exI [of _ 1]) auto
  next
    case (Suc i')
    with 2 obtain k where "i' < k" "k < j - 1" "l ! k = DmaIrq" by (cases j) auto
    with Suc show ?thesis by (intro exI [of _ "Suc k"]) auto
  qed
next
  case (3 pend l)
  show ?case
  proof (cases i)
    case (Suc i')
    with 3 obtain k where "i' < k" "k < j - 1" "l ! k = DmaIrq" by (cases j) auto
    with Suc show ?thesis by (intro exI [of _ "Suc k"]) auto
  qed (use 3 in auto)
qed simp

text \<open>C8. In every reachable state of the module, between any two transfers
  it has started the device has raised its interrupt: a transfer is started at most once
  per interrupt received.\<close>

theorem ppu_one_dma_per_irq:
  assumes "reach ppu_init ppu_step s" and "i < j" and "j < length (bus (dev s))"
    and "bus (dev s) ! i = DmaStart a" and "bus (dev s) ! j = DmaStart b"
  shows "\<exists>k. i < k \<and> k < j \<and> bus (dev s) ! k = DmaIrq"
proof -
  from assms(1) have "ppu_inv s" by (rule ppu_module.inv_reach)
  then have "dma_log_ok (dma_pending (dev s)) (bus (dev s))" by (simp add: ppu_inv_def)
  with assms show ?thesis by (blast intro: dma_log_between)
qed


lemma reach_run:
  "reach ppu_init ppu_step s \<Longrightarrow> list_all ppu_call_ok cs \<Longrightarrow> ppu_run cs s = Returns t
   \<Longrightarrow> reach ppu_init ppu_step t"
proof (induction cs arbitrary: s)
  case (Cons c cs)
  then obtain u where u: "ppu_exec c s = Returns u" "ppu_run cs u = Returns t"
    by (auto split: kresult.splits)
  from Cons.prems(1) have "reach ppu_init ppu_step u"
    by (rule reach_step) (use Cons.prems(2) u in \<open>auto intro: ppu_step\<close>)
  with Cons u show ?case by simp
qed simp

text \<open>Two frames: open, update, interrupt, update.\<close>

definition demo_calls :: "ppu_call list" where
  "demo_calls = [PpuOpen, PpuIoctl IOCTL_PPU_UPDATE 0, PpuDmaDone, PpuIoctl IOCTL_PPU_UPDATE 0]"

definition demo_two_frames :: ppu_drv where
  "demo_two_frames = demo_drv\<lparr>vram_lock := 1, dev := demo_dev\<lparr>dma_pending := True,
     bus := [DmaStart 0x2000, DmaIrq, DmaStart 0x2000]\<rparr>\<rparr>"

lemma demo_calls_run: "ppu_run demo_calls demo_probed = Returns demo_two_frames"
  by (simp add: demo_calls_def demo_two_frames_def demo_probed_def demo_drv_def demo_dev_def
      ppu_open_def ppu_ioctl_def mmio_write_def dma_complete_def ppu_irq_def)

lemma demo_two_reach: "reach ppu_init ppu_step demo_two_frames"
  by (rule reach_run [OF demo_reach _ demo_calls_run]) (simp add: demo_calls_def)

theorem ppu_one_dma_per_irq_witness:
  "\<exists>k. 0 < k \<and> k < 2 \<and> bus (dev demo_two_frames) ! k = DmaIrq"
  by (rule ppu_one_dma_per_irq [OF demo_two_reach]) (simp_all add: demo_two_frames_def)

text \<open>While a transfer is pending no call other than the
  interrupt and the release of the device changes the VRAM block, a register or the log, so
  the frame being transferred is the one that was written; writes and commands are refused
  with an error.\<close>

theorem ppu_vram_frozen_during_dma:
  assumes inv: "ppu_inv s" and pend: "dma_pending (dev s)" and ok: "ppu_call_ok c"
    and c: "c \<noteq> PpuDmaDone" "\<forall>es. c \<noteq> PpuRelease es"
  shows "\<exists>t. ppu_exec c s = Returns t \<and> vram_block t = vram_block s \<and> dev t = dev s
     \<and> (\<forall>buf len off. c = PpuWrite buf len off \<longrightarrow>
          (\<exists>r. ppu_write buf len off s = Returns (r, off, s) \<and> r < 0))
     \<and> (\<forall>cmd a. c = PpuIoctl cmd a \<longrightarrow> ppu_ioctl cmd a s = (- EBUSY, s))"
proof -
  have lock: "vram_lock s = 1" using inv pend by (simp add: ppu_inv_def)
  show ?thesis
  proof (cases c)
    case PpuOpen
    then show ?thesis by (simp add: ppu_open_def Let_def)
  next
    case (PpuWrite buf len off)
    with ok have pos: "vfs_pos off len" by simp
    then show ?thesis using PpuWrite lock by (simp add: ppu_write_nat)
  next
    case (PpuIoctl cmd a)
    then show ?thesis using lock by (simp add: ppu_ioctl_def lock_idem)
  qed (use c in auto)
qed

theorem ppu_vram_frozen_during_dma_witness:
  "ppu_ioctl IOCTL_PPU_SET_BGCOLOR 5 demo_two_frames = (- EBUSY, demo_two_frames)"
proof -
  have "ppu_inv demo_two_frames" by (rule ppu_module.inv_reach [OF demo_two_reach])
  from ppu_vram_frozen_during_dma [OF this, of "PpuIoctl IOCTL_PPU_SET_BGCOLOR 5"]
  show ?thesis by (simp add: demo_two_frames_def)
qed

lemma demo_two_inv: "ppu_inv demo_two_frames"
  by (rule ppu_module.inv_reach [OF demo_two_reach])

lemma demo_release_run:
  "ppu_release [False, True, False, True] demo_two_frames = Returns (0, ppu_released demo_two_frames, [])"
proof -
  have "ppu_lock demo_two_frames = 1" "dma_pending (dev demo_two_frames)"
    by (simp_all add: demo_two_frames_def)
  then show ?thesis
    by (simp add: ppu_release_owned [OF demo_two_inv] first_spin_rest_def)
qed

text \<open>C30. Releasing an open device, when it returns, returns 0 and leaves
  VRAM all zero, the four display registers at their default 0, both locks free, no
  transfer pending and the cleared VRAM transferred to the device.\<close>

theorem ppu_release_resets:
  assumes inv: "ppu_inv s" and own: "ppu_lock s = 1"
    and ret: "ppu_release es s = Returns (r, t, es')"
  shows "r = 0 \<and> kvram t = zeros VRAM_SIZE \<and> ppu_lock t = 0 \<and> vram_lock t = 0
    \<and> \<not> dma_pending (dev t) \<and> bgscroll_reg (dev t) = 0 \<and> fgscroll_reg (dev t) = 0
    \<and> bgcolor_reg (dev t) = 0 \<and> enable_reg (dev t) = 0
    \<and> (\<exists>l. bus (dev t) = DmaIrq # DmaStart (vram_addr_p s) # l)"
proof -
  from ret have t: "r = 0" "t = ppu_released s"
    by (auto simp: ppu_release_owned [OF inv own] split: option.splits list.splits)
  then show ?thesis using kvram_released [OF inv] inv by (simp add: ppu_released_def ppu_inv_def)
qed

theorem ppu_release_resets_witness:
  "kvram (ppu_released demo_two_frames) = zeros VRAM_SIZE
   \<and> enable_reg (dev (ppu_released demo_two_frames)) = 0"
  using ppu_release_resets [OF demo_two_inv _ demo_release_run]
  by (simp add: demo_two_frames_def)

text \<open>C31. Releasing an open device returns exactly when the device
  answers often enough while the handler spins: a transfer that is pending must complete,
  and then the transfer of the cleared VRAM must complete.  With a device that never
  answers, the release, and with it the process's exit, never returns.\<close>

theorem ppu_release_returns_iff:
  assumes inv: "ppu_inv s" and own: "ppu_lock s = 1"
  shows "(\<exists>x. ppu_release es s = Returns x) \<longleftrightarrow>
    (if dma_pending (dev s) then 2 \<le> length (filter id es) else es \<noteq> [] \<and> True \<in> set (tl es))"
proof (cases "dma_pending (dev s)")
  case True
  have "(\<exists>e es1. dropWhile Not es = e # es1 \<and> dropWhile Not es1 \<noteq> [])
      \<longleftrightarrow> 2 \<le> length (filter id es)"
    by (induction es) (auto simp: Suc_le_eq filter_empty_conv)
  with True show ?thesis
    unfolding ppu_release_owned [OF inv own] first_spin_rest_def
    by (cases "dropWhile Not es") (auto split: list.split simp del: dropWhile_eq_Nil_conv)
next
  case False
  have stop: "dropWhile Not l = [] \<longleftrightarrow> True \<notin> set l" for l by (induction l) auto
  have "(\<exists>x. ppu_release es s = Returns x) \<longleftrightarrow> es \<noteq> [] \<and> dropWhile Not (tl es) \<noteq> []"
    using False unfolding ppu_release_owned [OF inv own] first_spin_rest_def
    by (cases es) (auto split: list.split simp del: dropWhile_eq_Nil_conv)
  with False show ?thesis by (simp add: stop del: dropWhile_eq_Nil_conv)
qed


theorem ppu_release_returns_iff_witness:
  "(\<exists>x. ppu_release [True, False, True] demo_two_frames = Returns x)
   \<and> \<not> (\<exists>x. ppu_release [True, False, False] demo_two_frames = Returns x)"
  using ppu_release_returns_iff [OF demo_two_inv, of "[True, False, True]"]
    ppu_release_returns_iff [OF demo_two_inv, of "[True, False, False]"]
  by (simp add: demo_two_frames_def)

text \<open>A command is refused with EBUSY exactly while a transfer is
  pending, leaving the driver as it was.  Otherwise an update starts the transfer of VRAM
  and keeps the lock, a register command stores its argument in its own register and
  nothing else, and any other number is refused with EINVAL without an effect.\<close>

theorem ppu_ioctl_spec:
  assumes inv: "ppu_inv s"
  shows "ppu_ioctl c a s =
    (if dma_pending (dev s) then (- EBUSY, s)
     else case c of
       IOCTL_PPU_UPDATE \<Rightarrow> (0, s\<lparr>vram_lock := 1, dev := (dev s)\<lparr>dma_pending := True,
           bus := DmaStart (vram_addr_p s) # bus (dev s)\<rparr>\<rparr>)
     | IOCTL_PPU_SET_BGSCROLL \<Rightarrow> (0, s\<lparr>dev := (dev s)\<lparr>bgscroll_reg := a\<rparr>\<rparr>)
     | IOCTL_PPU_SET_FGSCROLL \<Rightarrow> (0, s\<lparr>dev := (dev s)\<lparr>fgscroll_reg := a\<rparr>\<rparr>)
     | IOCTL_PPU_SET_BGCOLOR \<Rightarrow> (0, s\<lparr>dev := (dev s)\<lparr>bgcolor_reg := a\<rparr>\<rparr>)
     | IOCTL_PPU_SET_ENABLE \<Rightarrow> (0, s\<lparr>dev := (dev s)\<lparr>enable_reg := a\<rparr>\<rparr>)
     | PPU_OTHER n \<Rightarrow> (- EINVAL, s))"
  by (rule ppu_ioctl_eq [OF inv])

theorem ppu_ioctl_spec_witness:
  "ppu_ioctl IOCTL_PPU_SET_ENABLE 3 demo_drv = (0, demo_drv\<lparr>dev := demo_dev\<lparr>enable_reg := 3\<rparr>\<rparr>)"
  using ppu_ioctl_spec [OF demo_inv, of IOCTL_PPU_SET_ENABLE 3]
  by (simp add: demo_drv_def demo_dev_def)

text \<open>Whatever sequence of opens and closes processes make on a probed
  module, at most one process holds the device open at a time, and the device's lock is
  taken exactly while one does.\<close>

theorem ppu_single_owner:
  assumes "ppu_init s" and "clients ppu_open (ppu_close es) as (s, {}) = Some (s', own)"
  shows "card own \<le> 1 \<and> (ppu_lock s' = 1 \<longleftrightarrow> own \<noteq> {})"
proof -
  from assms(1) have "ppu_inv s" "ppu_lock s \<noteq> 1"
    by (auto simp: ppu_init_def intro: ppu_module.inv_init)
  then show ?thesis using assms(2) by (rule ppu_device.one_owner)
qed

theorem ppu_single_owner_witness:
  "\<exists>s'. clients ppu_open (ppu_close [True, True]) [Attach 1, Attach 2, Detach 2] (demo_probed, {})
     = Some (s', {1}) \<and> card {1 :: nat} \<le> 1 \<and> ppu_lock s' = 1"
proof -
  obtain s' where s': "clients ppu_open (ppu_close [True, True]) [Attach 1, Attach 2, Detach 2]
      (demo_probed, {}) = Some (s', {1})"
    by (simp add: ppu_open_def demo_probed_def)
  with ppu_single_owner [OF demo_probed_init s'] show ?thesis by auto
qed

text \<open>C39. A successful probe leaves the module in an initial state, and the
  physical address it will hand to the device is the address of the VRAM image exactly when
  the allocated block is 16-byte aligned.  For a block that is 8-byte but not 16-byte
  aligned the address is neither that of the image nor aligned to 16 bytes, although the
  adjustment is meant to align it.\<close>

theorem ppu_probe_address:
  assumes "dma_alloc_ret env = Some (base_p, blk)" and "length blk = VRAM_SIZE + 8"
    and "\<not> dma_pending (dev s)" and "bus (dev s) = []"
    and "ppu_probe env k s = (0, k', s')" and "base_p AND 7 = 0"
  shows "ppu_init s' \<and>
    (vram_addr_p s' = base_p + of_nat (vram_addr_v s') \<longleftrightarrow> base_p AND 0xF = 0) \<and>
    (vram_addr_p s' AND 0xF = 0 \<longleftrightarrow> base_p AND 0xF = 0)"
proof -
  have one: "(base_p + 1) AND 0xF \<noteq> 0"
  proof -
    have "\<not> bit base_p 0"
    proof
      assume "bit base_p 0"
      then have "bit (base_p AND 7) 0" by (simp add: bit_simps)
      with assms(6) show False by simp
    qed
    then have "bit (base_p + 1) 0" by (simp add: bit_0)
    then have "bit ((base_p + 1) AND 0xF) 0" by (simp add: bit_simps)
    then show ?thesis by auto
  qed
  with assms show ?thesis
    by (auto simp: ppu_probe_def ppu_init_def Let_def split: if_splits)
qed

definition demo_probe_env :: ppu_probe_env where
  "demo_probe_env = \<lparr>register_chrdev_ret = 0, dma_alloc_ret = Some (0x2008, zeros (VRAM_SIZE + 8)),
     request_irq_ret = 0, ioremap_ok = True\<rparr>"

theorem ppu_probe_address_witness:
  "vram_addr_p (snd (snd (ppu_probe demo_probe_env no_resources demo_drv))) AND 0xF \<noteq> 0"
proof -
  obtain k' s' where p: "ppu_probe demo_probe_env no_resources demo_drv = (0, k', s')"
    by (auto simp: demo_probe_env_def ppu_probe_def Let_def)
  from ppu_probe_address [OF _ _ _ _ p] show ?thesis
    by (simp add: p) (simp add: demo_probe_env_def demo_drv_def demo_dev_def)
qed

text \<open>Removing a successfully probed module gives back every resource
  of the probe but one: the interrupt handler was registered under the cookie
  \<open>ppu_irq\<close> and is asked back under NULL, so it stays registered.\<close>

theorem ppu_remove_keeps_irq:
  assumes "ppu_probe env no_resources s = (0, k, s')"
  shows "ppu_remove k = no_resources\<lparr>irq_cookie := Some (Some ''ppu_irq'')\<rparr>"
  using assms
  by (auto simp: ppu_probe_def Let_def ppu_remove_def no_resources_def free_irq_def
      split: if_splits option.splits)

theorem ppu_remove_keeps_irq_witness:
  "irq_cookie (ppu_remove (fst (snd (ppu_probe demo_probe_env no_resources demo_drv)))) \<noteq> None"
proof -
  obtain k' s' where p: "ppu_probe demo_probe_env no_resources demo_drv = (0, k', s')"
    by (auto simp: demo_probe_env_def ppu_probe_def Let_def)
  from ppu_remove_keeps_irq [OF p] show ?thesis by (simp add: p)
qed

end
