(* ===== verification/PpuLib_Props.thy ===== *)
theory PpuLib_Props
  imports PpuSystem PpuDriver_Props
begin

text \<open>
  The properties of the graphics library over the model of the kernel module: what each
  call does to the VRAM and the registers of the device, when it refuses, and where it goes
  wrong.
\<close>

section \<open>A process at work\<close>

text \<open>The process holds the device open, and the device shows \<open>v\<close>.\<close>

definition holds_ppu :: "ppu_view \<Rightarrow> host proc \<Rightarrow> bool" where
  "holds_ppu v p \<longleftrightarrow> host_owns (ppu_fd p) (os p) \<and> host_look (os p) = v"

lemma sees_holds: "game.sees = holds_ppu"
  by (intro ext) (simp add: game.sees_def holds_ppu_def)

definition next_alloc :: "host proc \<Rightarrow> nat \<Rightarrow> u8 list option" where
  "next_alloc p n = alloc (os p) (allocs (os p)) n"

lemma malloc_next: "next_alloc p n \<noteq> None \<Longrightarrow> fst (do_malloc host_sys n p) \<noteq> None"
  by (auto simp: next_alloc_def do_malloc_def host_sys_def host_malloc_def)

definition demo_proc :: "host proc" where
  "demo_proc = \<lparr>ppu_fd = 3, os = \<lparr>drv = demo_drv, sched = [], open_fd = Some 3,
     alloc = (\<lambda>k n. Some (zeros n)), allocs = 0, live = 0, corrupted = False\<rparr>\<rparr>"

lemma demo_holds: "holds_ppu (host_look (os demo_proc)) demo_proc"
  by (simp add: holds_ppu_def host_owns_def alloc_ok_def demo_proc_def)

lemma demo_ready: "host_ready (os demo_proc)"
  by (simp add: host_ready_def demo_proc_def)

lemma demo_alloc: "next_alloc demo_proc n \<noteq> None"
  by (simp add: next_alloc_def demo_proc_def)

lemma demo_vram [simp]: "v_vram (host_look (os demo_proc)) = kvram demo_drv"
  by (simp add: host_look_def demo_proc_def)

lemma holds_length: "holds_ppu v p \<Longrightarrow> length (v_vram v) = VRAM_SIZE"
  using game.sees_fd by (simp add: sees_holds)

lemma nth_repeated: "i < clamp64 count \<Longrightarrow> repeated tiles len count ! i = tiles ! (i mod clamp64 len)"
  by (simp add: repeated_def)

section \<open>Tiles\<close>

text \<open>C6. With valid arguments and a device that is not
  transferring, the horizontal write returns 0 and the tile layer then holds, in row
  \<open>y_i\<close> from column \<open>x_i\<close> on and around the end of the row, the tiles of the array
  repeated to the clamped count; every other tile, every byte outside the layer, the
  registers and the heap are as they were.\<close>

theorem write_tiles_horizontal_spec:
  assumes p: "holds_ppu v p" "host_ready (os p)" and xy: "x_i < 64" "y_i < 64"
    and layer: "layer = LAYER_BG \<or> layer = LAYER_FG" and some: "count \<noteq> 0" "len \<noteq> 0"
    and tiles: "min (clamp64 len) (clamp64 count) \<le> length tiles"
    and mem: "next_alloc p (2 * clamp64 count) \<noteq> None"
  shows "\<exists>p' m. ppu_write_tiles_horizontal host_sys (Some tiles) len layer x_i y_i count p = Done (0, p')
    \<and> holds_ppu (v\<lparr>v_vram := m\<rparr>) p' \<and> host_ready (os p')
    \<and> (\<forall>x < 64. \<forall>y < 64. tile_at layer x y m =
        (let i = (x + 64 - unat x_i) mod 64
         in if y = unat y_i \<and> i < clamp64 count then tiles ! (i mod clamp64 len)
            else tile_at layer x y (v_vram v)))
    \<and> (\<forall>i < VRAM_SIZE. i < layer_base layer \<or> layer_base layer + 0x2000 \<le> i \<longrightarrow> m ! i = v_vram v ! i)"
proof -
  let ?m = "row_write layer (unat x_i) (unat y_i) (repeated tiles len count) (v_vram v)"
  have b: "unat x_i < 64" "unat y_i < 64" using xy by (simp_all add: word_less_nat_alt)
  note l = holds_length [OF p(1)]
  obtain p' where "ppu_write_tiles_horizontal host_sys (Some tiles) len layer x_i y_i count p = Done (0, p')"
    "holds_ppu (v\<lparr>v_vram := ?m\<rparr>) p'" "host_ready (os p')"
    using game.horizontal(1) [OF _ xy layer some tiles malloc_next [OF mem], unfolded sees_holds, OF p]
    unfolding put_row_def by blast
  moreover have "\<forall>x < 64. \<forall>y < 64. tile_at layer x y ?m = (let i = (x + 64 - unat x_i) mod 64
         in if y = unat y_i \<and> i < clamp64 count then tiles ! (i mod clamp64 len)
            else tile_at layer x y (v_vram v))"
    by (simp add: tile_at_row_write b l nth_repeated Let_def)
  moreover have "\<forall>i < VRAM_SIZE. i < layer_base layer \<or> layer_base layer + 0x2000 \<le> i \<longrightarrow> ?m ! i = v_vram v ! i"
    using row_write_frame [OF b _ l] by simp
  ultimately show ?thesis by blast
qed

theorem write_tiles_horizontal_spec_witness:
  "\<exists>p' m. ppu_write_tiles_horizontal host_sys (Some [5, 6]) 2 LAYER_FG 62 1 3 demo_proc = Done (0, p')
    \<and> tile_at LAYER_FG 62 1 m = 5 \<and> tile_at LAYER_FG 63 1 m = 6 \<and> tile_at LAYER_FG 0 1 m = 5"
proof -
  have "min (clamp64 2) (clamp64 3) \<le> length [5 :: tile_t, 6]" by (simp add: clamp64_def)
  from write_tiles_horizontal_spec [OF demo_holds demo_ready _ _ _ _ _ this demo_alloc, of 62 1 LAYER_FG]
  obtain p' m where r: "ppu_write_tiles_horizontal host_sys (Some [5, 6]) 2 LAYER_FG 62 1 3 demo_proc = Done (0, p')"
    and t: "\<forall>x < 64. \<forall>y < 64. tile_at LAYER_FG x y m = (let i = (x + 64 - unat (62 :: u32)) mod 64
         in if y = unat (1 :: u32) \<and> i < clamp64 3 then [5, 6] ! (i mod clamp64 2)
            else tile_at LAYER_FG x y (v_vram (host_look (os demo_proc))))" by auto
  have "tile_at LAYER_FG 62 1 m = 5" "tile_at LAYER_FG 63 1 m = 6" "tile_at LAYER_FG 0 1 m = 5"
    using t [rule_format, of 62 1] t [rule_format, of 63 1] t [rule_format, of 0 1]
    by (simp_all add: clamp64_def)
  with r show ?thesis by blast
qed

text \<open>C20. The vertical write with valid arguments, on any layer
  number (every one but the foreground's means the background), returns 0 and the layer
  then holds, in column \<open>x_i\<close> from row \<open>y_i\<close> on and around the end of the column, the
  repeated tiles; all else is as it was.  In particular its two loops end.\<close>

theorem write_tiles_vertical_spec:
  assumes p: "holds_ppu v p" "host_ready (os p)" and xy: "x_i < 64" "y_i < 64"
    and some: "count \<noteq> 0" "len \<noteq> 0"
    and tiles: "min (clamp64 len) (clamp64 count) \<le> length tiles"
    and mem: "next_alloc p (2 * clamp64 count) \<noteq> None"
  shows "\<exists>p' m. ppu_write_tiles_vertical host_sys (Some tiles) len layer x_i y_i count p = Done (0, p')
    \<and> holds_ppu (v\<lparr>v_vram := m\<rparr>) p' \<and> host_ready (os p')
    \<and> (\<forall>x < 64. \<forall>y < 64. tile_at layer x y m =
        (let i = (y + 64 - unat y_i) mod 64
         in if x = unat x_i \<and> i < clamp64 count then tiles ! (i mod clamp64 len)
            else tile_at layer x y (v_vram v)))
    \<and> (\<forall>i < VRAM_SIZE. i < layer_base layer \<or> layer_base layer + 0x2000 \<le> i \<longrightarrow> m ! i = v_vram v ! i)"
proof -
  let ?m = "col_write layer (unat x_i) (unat y_i) (repeated tiles len count) (v_vram v)"
  have b: "unat x_i < 64" "unat y_i < 64" using xy by (simp_all add: word_less_nat_alt)
  note l = holds_length [OF p(1)]
  obtain p' where "ppu_write_tiles_vertical host_sys (Some tiles) len layer x_i y_i count p = Done (0, p')"
    "holds_ppu (v\<lparr>v_vram := ?m\<rparr>) p'" "host_ready (os p')"
    using game.vertical(1) [OF _ xy some tiles malloc_next [OF mem], unfolded sees_holds, OF p]
    unfolding put_col_def by blast
  moreover have "\<forall>x < 64. \<forall>y < 64. tile_at layer x y ?m = (let i = (y + 64 - unat y_i) mod 64
         in if x = unat x_i \<and> i < clamp64 count then tiles ! (i mod clamp64 len)
            else tile_at layer x y (v_vram v))"
    by (simp add: tile_at_col_write b l nth_repeated Let_def)
  moreover have "\<forall>i < VRAM_SIZE. i < layer_base layer \<or> layer_base layer + 0x2000 \<le> i \<longrightarrow> ?m ! i = v_vram v ! i"
    using col_write_frame [OF b _ l] by simp
  ultimately show ?thesis by blast
qed

theorem write_tiles_vertical_spec_witness:
  "\<exists>p' m. ppu_write_tiles_vertical host_sys (Some [5, 6]) 2 LAYER_BG 3 63 2 demo_proc = Done (0, p')
    \<and> tile_at LAYER_BG 3 63 m = 5 \<and> tile_at LAYER_BG 3 0 m = 6"
proof -
  have "min (clamp64 2) (clamp64 2) \<le> length [5 :: tile_t, 6]" by (simp add: clamp64_def)
  from write_tiles_vertical_spec [OF demo_holds demo_ready _ _ _ _ this demo_alloc, of 3 63 LAYER_BG]
  obtain p' m where r: "ppu_write_tiles_vertical host_sys (Some [5, 6]) 2 LAYER_BG 3 63 2 demo_proc = Done (0, p')"
    and t: "\<forall>x < 64. \<forall>y < 64. tile_at LAYER_BG x y m = (let i = (y + 64 - unat (63 :: u32)) mod 64
         in if x = unat (3 :: u32) \<and> i < clamp64 2 then [5, 6] ! (i mod clamp64 2)
            else tile_at LAYER_BG x y (v_vram (host_look (os demo_proc))))" by auto
  have "tile_at LAYER_BG 3 63 m = 5" "tile_at LAYER_BG 3 0 m = 6"
    using t [rule_format, of 3 63] t [rule_format, of 3 0] by (simp_all add: clamp64_def)
  with r show ?thesis by blast
qed

text \<open>While a transfer is pending both tile writes return -1 and
  leave the device as it was, but the write buffer they allocated is not given back: a
  process that polls them, as the header of the library advises, loses a block each time.\<close>

theorem write_tiles_busy_leaks:
  assumes p: "holds_ppu v p" "\<not> host_ready (os p)" and xy: "x_i < 64" "y_i < 64"
    and layer: "layer = LAYER_BG \<or> layer = LAYER_FG" and some: "count \<noteq> 0" "len \<noteq> 0"
    and tiles: "min (clamp64 len) (clamp64 count) \<le> length tiles"
    and mem: "next_alloc p (2 * clamp64 count) \<noteq> None"
  shows "(\<exists>p'. ppu_write_tiles_horizontal host_sys (Some tiles) len layer x_i y_i count p = Done (-1, p')
      \<and> holds_ppu (v\<lparr>v_live := v_live v + 1\<rparr>) p')
    \<and> (\<exists>p'. ppu_write_tiles_vertical host_sys (Some tiles) len layer x_i y_i count p = Done (-1, p')
      \<and> holds_ppu (v\<lparr>v_live := v_live v + 1\<rparr>) p')"
  using game.horizontal(2) [OF _ xy layer some tiles malloc_next [OF mem], unfolded sees_holds, OF p]
    game.vertical(2) [OF _ xy some tiles malloc_next [OF mem], unfolded sees_holds, OF p] by blast

definition demo_busy_proc :: "host proc" where
  "demo_busy_proc = \<lparr>ppu_fd = 3, os = (os demo_proc)\<lparr>drv := demo_two_frames\<rparr>\<rparr>"

lemma demo_busy: "holds_ppu (host_look (os demo_busy_proc)) demo_busy_proc" "\<not> host_ready (os demo_busy_proc)"
  "next_alloc demo_busy_proc n \<noteq> None"
  using demo_two_inv
  by (simp_all add: holds_ppu_def host_owns_def alloc_ok_def demo_busy_proc_def demo_proc_def
      host_ready_def next_alloc_def) (simp_all add: demo_two_frames_def)

theorem write_tiles_busy_leaks_witness:
  "\<exists>p'. ppu_write_tiles_horizontal host_sys (Some [5]) 1 LAYER_BG 0 0 1 demo_busy_proc = Done (-1, p')
    \<and> live (os p') = 1"
proof -
  have "min (clamp64 1) (clamp64 1) \<le> length [5 :: tile_t]" by (simp add: clamp64_def)
  from write_tiles_busy_leaks [OF demo_busy(1,2) _ _ _ _ _ this demo_busy(3), of 0 0 LAYER_BG]
  show ?thesis
    by (auto simp: holds_ppu_def host_look_def demo_busy_proc_def demo_proc_def)
qed

section \<open>Patterns and palettes\<close>

text \<open>C21. A pattern group of at most 32 by 32 patterns is written row by
  row from its starting cell, wrapping around Pattern RAM in both directions: each cell of
  the group then holds its pattern, every other cell of Pattern RAM and every byte outside
  it, the registers and the heap are as they were.\<close>

theorem write_pattern_spec:
  assumes p: "holds_ppu v p" "host_ready (os p)" and addr: "addr \<le> PATTERN_MAXADDR"
    and dims: "width \<noteq> 0" "height \<noteq> 0" "width \<le> 32" "height \<le> 32"
    and size: "unat width * unat height \<le> length pts" and ok: "list_all pattern_ok pts"
  shows "\<exists>p' m. ppu_write_pattern host_sys (Some pts) width height addr p = Done (0, p')
    \<and> holds_ppu (v\<lparr>v_vram := m\<rparr>) p' \<and> host_ready (os p')
    \<and> (\<forall>row < unat height. \<forall>col < unat width.
        pattern_at ((unat addr mod 32 + col) mod 32) ((unat addr div 32 + row) mod 32) m
          = pattern_bytes (pts ! (col + unat width * row)))
    \<and> (\<forall>x < 32. \<forall>y < 32. (\<forall>row < unat height. \<forall>col < unat width.
          \<not> ((unat addr mod 32 + col) mod 32 = x \<and> (unat addr div 32 + row) mod 32 = y)) \<longrightarrow>
        pattern_at x y m = pattern_at x y (v_vram v))
    \<and> (\<forall>i < VRAM_SIZE. i < 0x4000 \<or> 0xC000 \<le> i \<longrightarrow> m ! i = v_vram v ! i)"
proof -
  let ?cs = "pattern_nats (unat width) (unat height)"
  let ?m = "put_cells pts (unat width) (unat addr mod 32) (unat addr div 32) ?cs (v_vram v)"
  have d: "unat width \<le> 32" "unat height \<le> 32" using dims by (simp_all add: word_le_nat_alt)
  then have "unat width * unat height \<le> 32 * 32" by (intro mult_le_mono)
  then have big: "unat width * unat height \<le> 2 ^ 32" by simp
  note l = holds_length [OF p(1)]
  have "pattern_ok (pts ! (col + unat width * row))" if "row < unat height" "col < unat width" for row col
    using cell_index [OF that] size ok by (simp add: list_all_length)
  then have okc: "\<forall>(row, col) \<in> set ?cs. pattern_ok (pts ! (col + unat width * row))" by simp
  have small: "\<forall>(row, col) \<in> set ?cs. row < 32 \<and> col < 32" using d by auto
  obtain p' where "ppu_write_pattern host_sys (Some pts) width height addr p = Done (0, p')"
    "holds_ppu (v\<lparr>v_vram := ?m\<rparr>) p'" "host_ready (os p')"
    using game.pattern_run(1) [OF _ addr dims(1,2) size big ok, unfolded sees_holds, OF p]
    unfolding put_cellsv_def by blast
  moreover have "\<forall>row < unat height. \<forall>col < unat width.
        pattern_at ((unat addr mod 32 + col) mod 32) ((unat addr div 32 + row) mod 32) ?m
          = pattern_bytes (pts ! (col + unat width * row))"
    using pattern_at_put_cells [OF l okc small distinct_pattern_nats] by simp
  moreover have "\<forall>x < 32. \<forall>y < 32. (\<forall>row < unat height. \<forall>col < unat width.
          \<not> ((unat addr mod 32 + col) mod 32 = x \<and> (unat addr div 32 + row) mod 32 = y)) \<longrightarrow>
        pattern_at x y ?m = pattern_at x y (v_vram v)"
    by (intro allI impI pattern_at_put_cells_other [OF l okc]) auto
  moreover have "\<forall>i < VRAM_SIZE. i < 0x4000 \<or> 0xC000 \<le> i \<longrightarrow> ?m ! i = v_vram v ! i"
    using put_cells_frame [OF l okc] by simp
  ultimately show ?thesis by blast
qed

theorem write_pattern_spec_witness:
  "\<exists>p' m. ppu_write_pattern host_sys (Some [\<lparr>pxrow = [1, 2, 3, 4, 5, 6, 7, 8]\<rparr>,
      \<lparr>pxrow = [8, 7, 6, 5, 4, 3, 2, 1]\<rparr>]) 2 1 31 demo_proc = Done (0, p')
    \<and> pattern_at 0 0 m = pattern_bytes \<lparr>pxrow = [8, 7, 6, 5, 4, 3, 2, 1]\<rparr>"
proof -
  let ?pts = "[\<lparr>pxrow = [1, 2, 3, 4, 5, 6, 7, 8]\<rparr>, \<lparr>pxrow = [8, 7, 6, 5, 4, 3, 2, 1]\<rparr>]"
  have "list_all pattern_ok ?pts" by (simp add: pattern_ok_def)
  from write_pattern_spec [OF demo_holds demo_ready _ _ _ _ _ _ this, of 31 2 1]
  obtain p' m where r: "ppu_write_pattern host_sys (Some ?pts) 2 1 31 demo_proc = Done (0, p')"
    and t: "\<forall>row < 1. \<forall>col < 2. pattern_at ((31 mod 32 + col) mod 32) ((31 div 32 + row) mod 32) m
      = pattern_bytes (?pts ! (col + 2 * row))" by auto
  have "pattern_at 0 0 m = pattern_bytes (?pts ! 1)" using t [rule_format, of 0 1] by simp
  with r show ?thesis by auto
qed

text \<open>C37. Writing a palette replaces exactly the sixty bytes of its fifteen
  opaque colours in the section of its layer, which the value of \<open>layer_e\<close> selects (and not the
  numbers 0 and 1 of the header's comment); the transparent entry before them and every other
  byte of VRAM are as they were.\<close>

theorem write_palette_spec:
  assumes p: "holds_ppu v p" "host_ready (os p)" and k: "unat k < palettes_of layer"
    and pal: "palette_ok pal"
  shows "\<exists>p' m. ppu_write_palette host_sys (Some pal) layer k p = Done (0, p')
    \<and> holds_ppu (v\<lparr>v_vram := m\<rparr>) p' \<and> host_ready (os p')
    \<and> segment (palette_base layer (unat k)) 60 m = palette_bytes pal
    \<and> (\<forall>i < VRAM_SIZE. i < palette_base layer (unat k) \<or> palette_base layer (unat k) + 60 \<le> i \<longrightarrow>
        m ! i = v_vram v ! i)"
proof -
  let ?m = "blit (palette_base layer (unat k)) (palette_bytes pal) (v_vram v)"
  note l = holds_length [OF p(1)]
  have fits: "palette_base layer (unat k) + length (palette_bytes pal) \<le> length (v_vram v)"
    using palette_base_bound [OF k] length_palette_bytes [OF pal] l by simp
  obtain p' where "ppu_write_palette host_sys (Some pal) layer k p = Done (0, p')"
    "holds_ppu (v\<lparr>v_vram := ?m\<rparr>) p'" "host_ready (os p')"
    using game.palette_run(1) [OF _ k pal, unfolded sees_holds, OF p]
    unfolding put_palette_def put_vram_def by blast
  moreover have "segment (palette_base layer (unat k)) 60 ?m = palette_bytes pal"
    using fits length_palette_bytes [OF pal] by (intro segment_blit_same) simp_all
  moreover have "\<forall>i < VRAM_SIZE. i < palette_base layer (unat k) \<or> palette_base layer (unat k) + 60 \<le> i \<longrightarrow>
        ?m ! i = v_vram v ! i"
    using fits length_palette_bytes [OF pal] l by (simp add: nth_blit)
  ultimately show ?thesis by blast
qed

definition demo_palette :: palette_t where
  "demo_palette = \<lparr>colors = [1, 2, 3, 4, 5, 6, 7, 8, 9, 10, 11, 12, 13, 14, 15]\<rparr>"

theorem write_palette_spec_witness:
  "\<exists>p' m. ppu_write_palette host_sys (Some demo_palette) LAYER_SPR 31 demo_proc = Done (0, p')
    \<and> segment 0xCFC4 60 m = palette_bytes demo_palette"
  using write_palette_spec [OF demo_holds demo_ready, of 31 LAYER_SPR demo_palette]
  by (auto simp: palettes_of_def palette_ok_def demo_palette_def palette_base_def)

section \<open>Sprites\<close>

lemma do_malloc_host:
  "next_alloc p n = Some blk \<Longrightarrow> do_malloc host_sys n p
    = (Some blk, p\<lparr>os := (os p)\<lparr>allocs := allocs (os p) + 1, live := live (os p) + 1\<rparr>\<rparr>)"
  by (simp add: next_alloc_def do_malloc_def host_sys_def host_malloc_def)

text \<open>The blocks of the two requests of a sprite write.\<close>

definition sprite_allocs :: "host proc \<Rightarrow> nat \<Rightarrow> u8 list \<Rightarrow> u8 list \<Rightarrow> bool" where
  "sprite_allocs p n buf extra \<longleftrightarrow> alloc (os p) (allocs (os p)) (4 * n) = Some buf
     \<and> alloc (os p) (allocs (os p) + 1) n = Some extra"

lemma sprite_allocs_run:
  assumes "sprite_allocs p n buf extra"
  obtains p1 p2 where "do_malloc host_sys (4 * n) p = (Some buf, p1)"
    and "do_malloc host_sys n p1 = (Some extra, p2)"
  using assms do_malloc_host [of p "4 * n" buf]
  by (simp add: sprite_allocs_def next_alloc_def do_malloc_def host_sys_def host_malloc_def)

text \<open>C16. A sprite write with valid arguments and at least one sprite
  stores outside the second buffer it allocated: the buffer has one byte per sprite, the
  loop stores a 32-bit element per sprite.  With an allocator that adds less than that to
  the size asked for, the call is undefined.\<close>

theorem write_sprites_overflow:
  assumes p: "holds_ppu v p" and id: "unat sprite_id + unat len \<le> 64"
    and ok: "list_all sprite_ok sprites" and n: "unat len \<le> length sprites" "len \<noteq> 0"
    and blocks: "sprite_allocs p (unat len) buf extra" "length extra < 4 * unat len"
  shows "ppu_write_sprites host_sys (Some sprites) len sprite_id p = Undef"
proof -
  have "unat (sprite_id + len) = unat sprite_id + unat len"
    using id unat_of_nat_u32 [of "unat sprite_id + unat len"] by simp
  then have bound: "\<not> sprite_id + len > SPRITE_MAXCOUNT" using id by (simp add: word_less_nat_alt)
  have n64: "unat len \<le> 64" using id by simp
  obtain p1 p2 where m: "do_malloc host_sys (4 * unat len) p = (Some buf, p1)"
    "do_malloc host_sys (unat len) p1 = (Some extra, p2)"
    using sprite_allocs_run [OF blocks(1)] by blast
  from game.sprites_overflow [OF _ bound ok n(1) n64 m n(2) blocks(2), unfolded sees_holds, OF p]
  show ?thesis .
qed

definition demo_sprite :: sprite_t where
  "demo_sprite = \<lparr>s_pattern_addr = 5, s_palette_id = 1, s_mirror = 0, s_prio = 2, s_x = 100, s_y = 50,
     s_height = 2, s_width = 1\<rparr>"

lemma demo_sprite_ok: "sprite_ok demo_sprite"
  by (simp add: sprite_ok_def demo_sprite_def)

theorem write_sprites_overflow_witness:
  "ppu_write_sprites host_sys (Some [demo_sprite]) 1 0 demo_proc = Undef"
  by (rule write_sprites_overflow [OF demo_holds, where buf = "zeros 4" and extra = "zeros 1"])
    (simp_all add: demo_sprite_ok sprite_allocs_def demo_proc_def)

text \<open>
  A sprite write whose second block has room, from addresses \<open>a1\<close> of the words and \<open>a2\<close> of the
  extra bytes on.
\<close>

lemma sprites_stored:
  assumes p: "holds_ppu v p" "host_ready (os p)" and bound: "\<not> sprite_id + len > SPRITE_MAXCOUNT"
    and ok: "list_all sprite_ok sprites" and n: "unat len \<le> length sprites" "unat len \<le> 64"
    and blocks: "sprite_allocs p (unat len) buf extra" "4 * unat len \<le> length extra"
    and a1: "unat (VRAM_SPRITESOFFSET + sprite_id * SPRITE_BSIZE) = a1"
    and a2: "unat (VRAM_SPRITESOFFSET + SPRRAM_EXTRAOFFSET + sprite_id) = a2"
    and fits: "a1 + 4 * unat len \<le> a2" "a2 + unat len \<le> VRAM_SIZE"
  shows "\<exists>p' m. ppu_write_sprites host_sys (Some sprites) len sprite_id p = Done (0, p')
    \<and> holds_ppu (v\<lparr>v_vram := m\<rparr>) p'
    \<and> (\<forall>j < unat len. segment (a1 + 4 * j) 4 m = le32 (sprite_word (sprites ! j)))
    \<and> (\<forall>j < unat len. m ! (a2 + j) = (if 4 dvd j then sprite_extra (sprites ! (j div 4)) else 0))"
proof -
  obtain p1 p2 where ma: "do_malloc host_sys (4 * unat len) p = (Some buf, p1)"
    "do_malloc host_sys (unat len) p1 = (Some extra, p2)"
    using sprite_allocs_run [OF blocks(1)] by blast
  let ?ss = "take (unat len) sprites"
  let ?m1 = "blit a1 (sprite_words ?ss) (v_vram v)"
  let ?m = "blit a2 (take (unat len) (extra_words ?ss)) ?m1"
  have ls: "length ?ss = unat len" using n by simp
  have fits': "unat (VRAM_SPRITESOFFSET + sprite_id * SPRITE_BSIZE) + 4 * unat len \<le> VRAM_SIZE"
    "unat (VRAM_SPRITESOFFSET + SPRRAM_EXTRAOFFSET + sprite_id) + unat len \<le> VRAM_SIZE"
    unfolding a1 a2 using fits by simp_all
  note l = holds_length [OF p(1)]
  have "segment (a1 + 4 * j) 4 ?m = le32 (sprite_word (sprites ! j))" if "j < unat len" for j
  proof -
    have "segment (a1 + 4 * j) 4 ?m = segment (a1 + 4 * j) 4 ?m1"
      using that fits l ls by (intro segment_blit_disjoint) simp_all
    also have "\<dots> = segment (4 * j) 4 (sprite_words ?ss)"
      using that fits l ls by (subst segment_blit_inside) simp_all
    also have "\<dots> = le32 (sprite_word (?ss ! j))"
      using that ls word32.segment_concat_enc [of j "map sprite_word ?ss"]
      by (simp add: sprite_words_def comp_def)
    finally show ?thesis using that by simp
  qed
  moreover have "?m ! (a2 + j) = (if 4 dvd j then sprite_extra (sprites ! (j div 4)) else 0)"
    if "j < unat len" for j
    using that fits l ls by (subst nth_blit) (auto simp: nth_extra_words)
  moreover obtain p' where "ppu_write_sprites host_sys (Some sprites) len sprite_id p = Done (0, p')"
    "holds_ppu (v\<lparr>v_vram := ?m\<rparr>) p'"
    using game.sprites_slack [OF _ bound ok n ma blocks(2) _ fits', unfolded sees_holds a1 a2, OF p]
    by (auto simp: put_vram_def)
  ultimately show ?thesis by blast
qed

lemma sprites_written:
  assumes p: "holds_ppu v p" "host_ready (os p)" and id: "unat sprite_id + unat len \<le> 64"
    and ok: "list_all sprite_ok sprites" and n: "unat len \<le> length sprites"
    and blocks: "sprite_allocs p (unat len) buf extra" "4 * unat len \<le> length extra"
  shows "\<exists>p' m. ppu_write_sprites host_sys (Some sprites) len sprite_id p = Done (0, p')
    \<and> holds_ppu (v\<lparr>v_vram := m\<rparr>) p'
    \<and> (\<forall>j < unat len. segment (0xD000 + 4 * (unat sprite_id + j)) 4 m = le32 (sprite_word (sprites ! j)))
    \<and> (\<forall>j < unat len. m ! (0xD100 + unat sprite_id + j)
        = (if 4 dvd j then sprite_extra (sprites ! (j div 4)) else 0))"
proof -
  have "unat (sprite_id + len) = unat sprite_id + unat len"
    using id unat_of_nat_u32 [of "unat sprite_id + unat len"] by simp
  then have bound: "\<not> sprite_id + len > SPRITE_MAXCOUNT" using id by (simp add: word_less_nat_alt)
  have n64: "unat len \<le> 64" using id by simp
  have a1: "unat (VRAM_SPRITESOFFSET + sprite_id * SPRITE_BSIZE) = 0xD000 + 4 * unat sprite_id"
    using id unat_of_nat_u32 [of "0xD000 + 4 * unat sprite_id"] by (simp add: mult.commute)
  have a2: "unat (VRAM_SPRITESOFFSET + SPRRAM_EXTRAOFFSET + sprite_id) = 0xD100 + unat sprite_id"
    using id unat_of_nat_u32 [of "0xD100 + unat sprite_id"] by simp
  show ?thesis
    using sprites_stored [OF p bound ok n n64 blocks a1 a2] id by (simp add: add.assoc)
qed

definition demo_slack :: "host proc" where
  "demo_slack = demo_proc\<lparr>os := (os demo_proc)\<lparr>alloc := (\<lambda>k n. Some (zeros (4 * n + 16)))\<rparr>\<rparr>"

lemma demo_slack_holds: "holds_ppu (host_look (os demo_slack)) demo_slack" "host_ready (os demo_slack)"
  by (simp_all add: holds_ppu_def host_owns_def alloc_ok_def demo_slack_def demo_proc_def host_ready_def)

text \<open>The range check adds the first sprite and the number of sprites as
  32-bit numbers: a first sprite of \<open>2^32 - k\<close>, with \<open>k\<close> at most the number of sprites, passes
  it, and the sprite words then overwrite the last palettes of the sprite layer.\<close>

theorem write_sprites_wraps:
  assumes p: "holds_ppu v p" "host_ready (os p)" and k: "0 < k" "k \<le> unat len" "unat len \<le> 64"
    and id: "sprite_id = - of_nat k"
    and ok: "list_all sprite_ok sprites" and n: "unat len \<le> length sprites"
    and blocks: "sprite_allocs p (unat len) buf extra" "4 * unat len \<le> length extra"
  shows "64 < unat sprite_id \<and> (\<exists>p' m. ppu_write_sprites host_sys (Some sprites) len sprite_id p = Done (0, p')
    \<and> holds_ppu (v\<lparr>v_vram := m\<rparr>) p'
    \<and> (\<forall>j < unat len. segment (0xD000 + 4 * j - 4 * k) 4 m = le32 (sprite_word (sprites ! j))))"
proof -
  have idn: "sprite_id = of_nat (2 ^ 32 - k)" using k id by (simp add: of_nat_diff)
  have uid: "unat sprite_id = 2 ^ 32 - k"
    unfolding idn using k by (intro unat_of_nat_u32) simp
  have "sprite_id + len = of_nat (unat len - k)" using k by (simp add: id of_nat_diff)
  then have "unat (sprite_id + len) = unat len - k" using k by (simp only:) (rule unat_of_nat_u32, simp)
  then have bound: "\<not> sprite_id + len > SPRITE_MAXCOUNT" using k by (simp add: word_less_nat_alt)
  have "VRAM_SPRITESOFFSET + sprite_id * SPRITE_BSIZE = of_nat (0xD000 - 4 * k)"
    using k by (simp add: id of_nat_diff)
  then have a1: "unat (VRAM_SPRITESOFFSET + sprite_id * SPRITE_BSIZE) = 0xD000 - 4 * k"
    by (simp only:) (rule unat_of_nat_u32, simp)
  have "VRAM_SPRITESOFFSET + SPRRAM_EXTRAOFFSET + sprite_id = of_nat (0xD100 - k)"
    using k by (simp add: id of_nat_diff)
  then have a2: "unat (VRAM_SPRITESOFFSET + SPRRAM_EXTRAOFFSET + sprite_id) = 0xD100 - k"
    by (simp only:) (rule unat_of_nat_u32, simp)
  have shift: "0xD000 + 4 * j - 4 * k = 0xD000 - 4 * k + 4 * j" for j using k by simp
  have fits: "0xD000 - 4 * k + 4 * unat len \<le> 0xD100 - k" "0xD100 - k + unat len \<le> VRAM_SIZE"
    using k by linarith+
  have "64 < unat sprite_id" unfolding uid using k by simp
  then show ?thesis
    unfolding shift using sprites_stored [OF p bound ok n k(3) blocks a1 a2 fits] by blast
qed

theorem write_sprites_wraps_witness:
  "\<exists>p' m. ppu_write_sprites host_sys (Some [demo_sprite]) 1 (-1) demo_slack = Done (0, p')
    \<and> holds_ppu ((host_look (os demo_slack))\<lparr>v_vram := m\<rparr>) p'
    \<and> segment 0xCFFC 4 m = le32 (sprite_word demo_sprite)"
proof -
  have a: "sprite_allocs demo_slack (unat (1 :: u32)) (zeros 32) (zeros 20)"
    by (simp add: sprite_allocs_def demo_slack_def demo_proc_def)
  obtain p' m where r: "ppu_write_sprites host_sys (Some [demo_sprite]) 1 (-1) demo_slack = Done (0, p')"
    "holds_ppu ((host_look (os demo_slack))\<lparr>v_vram := m\<rparr>) p'"
    and e: "\<forall>j < unat (1 :: u32). segment (0xD000 + 4 * j - 4 * 1) 4 m = le32 (sprite_word ([demo_sprite] ! j))"
    using write_sprites_wraps [OF demo_slack_holds _ _ _ _ _ _ a, of 1 "-1" "[demo_sprite]"]
    by (auto simp: demo_sprite_ok)
  with e [rule_format, of 0] show ?thesis by auto
qed

section \<open>Packed words\<close>

lemma field: "n = a * m + b \<Longrightarrow> (b :: nat) < m \<Longrightarrow> n div m = a \<and> n mod m = b"
  by auto

lemma tile_fields_nat:
  fixes a p m :: nat
  assumes "n = a * 64 + p * 4 + m" and "p < 16" and "m < 4"
  shows "n div 64 = a \<and> n div 4 mod 16 = p \<and> n mod 4 = m"
  using assms field [of n a 64 "p * 4 + m"] field [of n "a * 16 + p" 4 m] field [of "a * 16 + p" a 16 p]
  by simp

lemma sprite_fields_nat:
  fixes a p y x :: nat
  assumes n: "n = a * 4194304 + p * 131072 + y * 512 + x" and "p < 32" "y < 256" "x < 512"
  shows "n div 4194304 = a \<and> n div 131072 mod 32 = p \<and> n div 512 mod 256 = y \<and> n mod 512 = x"
proof -
  have "n div 4194304 = a" using assms field [of n a 4194304 "p * 131072 + y * 512 + x"] by simp
  moreover have "n div 131072 = a * 32 + p" using assms field [of n "a * 32 + p" 131072 "y * 512 + x"] by simp
  moreover have "n div 512 = (a * 32 + p) * 256 + y" "n mod 512 = x"
    using assms field [of n "(a * 32 + p) * 256 + y" 512 x] by simp_all
  ultimately show ?thesis
    using assms field [of "(a * 32 + p) * 256 + y" "a * 32 + p" 256 y] by simp
qed

lemma extra_fields_nat:
  fixes m h w p :: nat
  assumes "n = m * 64 + h * 16 + w * 4 + p" and "h < 4" "w < 4" "p < 4"
  shows "n div 64 = m \<and> n div 16 mod 4 = h \<and> n div 4 mod 4 = w \<and> n mod 4 = p"
proof -
  have "n div 64 = m" using assms field [of n m 64 "h * 16 + w * 4 + p"] by simp
  moreover have "n div 16 = m * 4 + h" using assms field [of n "m * 4 + h" 16 "w * 4 + p"] by simp
  moreover have "n div 4 = (m * 4 + h) * 4 + w" "n mod 4 = p"
    using assms field [of n "(m * 4 + h) * 4 + w" 4 p] by simp_all
  ultimately show ?thesis using assms field [of "(m * 4 + h) * 4 + w" "m * 4 + h" 4 w] by simp
qed

text \<open>C38. \<open>ppu_make_tile\<close> succeeds exactly for arguments in range (a palette of
  16 is not), aborts otherwise, and the three fields of the tile it makes read back as its
  arguments; together with \<open>ppu_pattern_addr\<close> the column and the row of the pattern do.\<close>

theorem make_tile_roundtrip:
  "(if addr \<le> PATTERN_MAXADDR \<and> pal < TILELAYER_MAX_PALETTES \<and> mir \<le> MIRROR_MAXVAL
    then \<exists>t. ppu_make_tile addr pal mir = Done t \<and> unat t div 64 = unat addr
      \<and> unat t div 4 mod 16 = unat pal \<and> unat t mod 4 = unat mir
    else \<exists>msg. ppu_make_tile addr pal mir = Abort (NoWayMsg (Some msg))) \<and>
   (if x \<le> 31 \<and> y \<le> 31
    then \<exists>a. ppu_pattern_addr x y = Done a \<and> a \<le> PATTERN_MAXADDR \<and> unat a mod 32 = unat x
      \<and> unat a div 32 = unat y
    else \<exists>msg. ppu_pattern_addr x y = Abort (NoWayMsg (Some msg)))"
proof
  show "if addr \<le> PATTERN_MAXADDR \<and> pal < TILELAYER_MAX_PALETTES \<and> mir \<le> MIRROR_MAXVAL
    then \<exists>t. ppu_make_tile addr pal mir = Done t \<and> unat t div 64 = unat addr
      \<and> unat t div 4 mod 16 = unat pal \<and> unat t mod 4 = unat mir
    else \<exists>msg. ppu_make_tile addr pal mir = Abort (NoWayMsg (Some msg))"
  proof (cases "addr \<le> PATTERN_MAXADDR \<and> pal < TILELAYER_MAX_PALETTES \<and> mir \<le> MIRROR_MAXVAL")
    case True
    then obtain t where "ppu_make_tile addr pal mir = Done t"
      "unat t = unat addr * 64 + unat pal * 4 + unat mir" using tile_value by blast
    moreover have "unat pal < 16" "unat mir < 4"
      using True by (simp_all add: word_le_nat_alt word_less_nat_alt)
    ultimately show ?thesis using True tile_fields_nat by auto
  next
    case False
    then show ?thesis by (auto simp: ppu_make_tile_def not_less)
  qed
  show "if x \<le> 31 \<and> y \<le> 31
    then \<exists>a. ppu_pattern_addr x y = Done a \<and> a \<le> PATTERN_MAXADDR \<and> unat a mod 32 = unat x
      \<and> unat a div 32 = unat y
    else \<exists>msg. ppu_pattern_addr x y = Abort (NoWayMsg (Some msg))"
  proof (cases "x \<le> 31 \<and> y \<le> 31")
    case True
    then have "unat x < 32" "unat y < 32" by (simp_all add: word_le_nat_alt)
    with pattern_addr_value [of x y] True show ?thesis by (auto simp: word_le_nat_alt)
  next
    case False
    then show ?thesis by (auto simp: ppu_pattern_addr_def)
  qed
qed

text \<open>The two words of a sprite that passes the checks hold each of its members
  in a field of its own: the pattern address, palette and position in the 32-bit word, the
  mirroring, the size less one and the priority in the extra byte.\<close>

theorem sprite_fields:
  assumes "sprite_ok s"
  shows "unat (sprite_word s) div 2 ^ 22 = unat (s_pattern_addr s)
    \<and> unat (sprite_word s) div 2 ^ 17 mod 32 = unat (s_palette_id s)
    \<and> unat (sprite_word s) div 2 ^ 9 mod 256 = unat (s_y s)
    \<and> unat (sprite_word s) mod 512 = unat (s_x s)
    \<and> unat (sprite_extra s) div 64 = unat (s_mirror s)
    \<and> unat (sprite_extra s) div 16 mod 4 + 1 = unat (s_height s)
    \<and> unat (sprite_extra s) div 4 mod 4 + 1 = unat (s_width s)
    \<and> unat (sprite_extra s) mod 4 = unat (s_prio s)"
proof -
  have b: "unat (s_palette_id s) < 32" "unat (s_y s) < 256" "unat (s_x s) < 512"
      "unat (s_height s) \<le> 4" "unat (s_width s) \<le> 4" "unat (s_prio s) < 4"
      "0 < unat (s_height s)" "0 < unat (s_width s)"
    using assms by (simp_all add: sprite_ok_def word_le_nat_alt word_less_nat_alt unat_gt_0)
  have hw: "unat (s_height s) - 1 < 4" "unat (s_width s) - 1 < 4" using b by linarith+
  have p: "(2 :: nat) ^ 22 = 4194304" "(2 :: nat) ^ 17 = 131072" "(2 :: nat) ^ 9 = 512" by simp_all
  show ?thesis
    using sprite_fields_nat [OF sprite_word_value [OF assms, unfolded p] b(1-3)]
      extra_fields_nat [OF sprite_extra_value [OF assms] hw b(6)] b(7,8) unfolding p by simp
qed

theorem sprite_fields_witness:
  "unat (sprite_word demo_sprite) mod 512 = 100 \<and> unat (sprite_extra demo_sprite) mod 4 = 2"
  using sprite_fields [OF demo_sprite_ok] by (simp add: demo_sprite_def)

end
