(* ===== verification/LineFill.thy ===== *)
theory LineFill
  imports Screen HwCopy
begin

text \<open>
  The pixel mixer cycle by cycle: how a line of the row buffer is filled from the buffers of
  the tile engines and from the sprite units once they are done.
\<close>

section \<open>The mixer's state machine\<close>

record pixel_mixer_regs =
  pm_fetch :: bool
  pm_bgte_done_rec :: bool
  pm_fgte_done_rec :: bool
  pm_spre_done_rec :: bool
  pm_pixel_addr :: nat
  pm_pixel_addr_buffer :: nat
  pm_rowram_wraddr :: nat

definition pixel_mixer_step :: "bool \<Rightarrow> bool \<Rightarrow> bool \<Rightarrow> pixel_mixer_regs \<Rightarrow> pixel_mixer_regs" where
  "pixel_mixer_step bgte_done fgte_done spre_done s =
     \<lparr>pm_fetch = (if pm_fetch s then pm_rowram_wraddr s \<noteq> 319
                  else pm_bgte_done_rec s \<and> pm_fgte_done_rec s \<and> pm_spre_done_rec s),
      pm_bgte_done_rec = (\<not> pm_fetch s \<and> (bgte_done \<or> pm_bgte_done_rec s)),
      pm_fgte_done_rec = (\<not> pm_fetch s \<and> (fgte_done \<or> pm_fgte_done_rec s)),
      pm_spre_done_rec = (\<not> pm_fetch s \<and> (spre_done \<or> pm_spre_done_rec s)),
      pm_pixel_addr = (if \<not> pm_fetch s then 0
                       else if pm_pixel_addr s = 319 then pm_pixel_addr s
                       else (pm_pixel_addr s + 1) mod 2 ^ 9),
      pm_pixel_addr_buffer = pm_pixel_addr s,
      pm_rowram_wraddr = pm_pixel_addr_buffer s\<rparr>"

section \<open>The line\<close>

text \<open>The two ports of a tile engine that the mixer reads: entries and pixels.\<close>

record te_ports =
  tp_entry :: "nat read_port"
  tp_color :: "nat read_port"

definition te_ports_step :: "nat \<Rightarrow> nat \<Rightarrow> nat list \<Rightarrow> nat list \<Rightarrow> nat \<Rightarrow> te_ports \<Rightarrow> te_ports" where
  "te_ports_step scroll pxr trb prb pixel_addr p =
     \<lparr>tp_entry = read_step ((!) trb) (pmxr_tile_addr scroll pixel_addr) (tp_entry p),
      tp_color = read_step ((!) prb) (pmxr_rdaddr scroll pxr pixel_addr) (tp_color p)\<rparr>"

definition te_ports_data :: "bool \<Rightarrow> te_ports \<Rightarrow> nat" where
  "te_ports_data enable p = pmxr_pixel_data enable (rp_q (tp_entry p)) (rp_q (tp_color p))"

record line =
  ln_pmxr :: pixel_mixer_regs
  ln_fg :: te_ports
  ln_bg :: te_ports
  ln_col :: nat
  ln_rowram :: "nat list"

definition line_step :: "dbuf_regs \<Rightarrow> vram_p \<Rightarrow> nat list list \<Rightarrow> nat \<Rightarrow> bool \<times> bool \<times> bool \<Rightarrow> line \<Rightarrow> line" where
  "line_step r ram pat_buf next_row dones l =
     (let pm = ln_pmxr l; a = pm_pixel_addr pm; fs = dbuf_fgscroll r; bs = dbuf_bgscroll r;
          wrdata = pixel_mixer (te_ports_data (bits 1 1 (dbuf_enable r) = 1) (ln_fg l))
                     (te_ports_data (bits 0 0 (dbuf_enable r) = 1) (ln_bg l))
                     (sprite_engine (bits 2 2 (dbuf_enable r) = 1) ram pat_buf next_row (ln_col l))
      in \<lparr>ln_pmxr = pixel_mixer_step (fst dones) (fst (snd dones)) (snd (snd dones)) pm,
          ln_fg = te_ports_step fs (pixelrow fs next_row) (tilram_rbuf 1 fs next_row ram) (patram_rbuf 1 fs next_row ram) a (ln_fg l),
          ln_bg = te_ports_step bs (pixelrow bs next_row) (tilram_rbuf 0 bs next_row ram) (patram_rbuf 0 bs next_row ram) a (ln_bg l),
          ln_col = a,
          ln_rowram = (if pm_fetch pm then (ln_rowram l)[pm_rowram_wraddr pm := wrdata] else ln_rowram l)\<rparr>)"

text \<open>The mixer waits, all engines have reported, and the counters have come to rest.\<close>

definition line_ready :: "line \<Rightarrow> bool" where
  "line_ready l \<longleftrightarrow> \<not> pm_fetch (ln_pmxr l) \<and> pm_bgte_done_rec (ln_pmxr l) \<and> pm_fgte_done_rec (ln_pmxr l)
     \<and> pm_spre_done_rec (ln_pmxr l) \<and> pm_pixel_addr (ln_pmxr l) = 0 \<and> pm_pixel_addr_buffer (ln_pmxr l) = 0
     \<and> length (ln_rowram l) = 320"

definition line_run :: "dbuf_regs \<Rightarrow> vram_p \<Rightarrow> nat list list \<Rightarrow> nat \<Rightarrow> (nat \<Rightarrow> bool \<times> bool \<times> bool) \<Rightarrow> nat \<Rightarrow> line \<Rightarrow> line" where
  "line_run r ram pat_buf next_row dones n l = fold (\<lambda>i. line_step r ram pat_buf next_row (dones i)) [0..<n] l"

lemma line_run_simps [simp]:
  "line_run r ram pat_buf next_row dones 0 l = l"
  "line_run r ram pat_buf next_row dones (Suc n) l
     = line_step r ram pat_buf next_row (dones n) (line_run r ram pat_buf next_row dones n l)"
  by (simp_all add: line_run_def)

section \<open>Filling it\<close>

text \<open>A port asks for column \<open>a\<close>; its answer is the one for column \<open>a\<close>.\<close>

definition ports_ask :: "nat \<Rightarrow> nat \<Rightarrow> nat \<Rightarrow> te_ports \<Rightarrow> bool" where
  "ports_ask scroll pxr a p \<longleftrightarrow>
     rp_addr (tp_entry p) = pmxr_tile_addr scroll a \<and> rp_addr (tp_color p) = pmxr_rdaddr scroll pxr a"

definition ports_hold :: "nat \<Rightarrow> nat \<Rightarrow> nat list \<Rightarrow> nat list \<Rightarrow> nat \<Rightarrow> te_ports \<Rightarrow> bool" where
  "ports_hold scroll pxr trb prb a p \<longleftrightarrow>
     rp_q (tp_entry p) = trb ! pmxr_tile_addr scroll a \<and> rp_q (tp_color p) = prb ! pmxr_rdaddr scroll pxr a"

lemma ports_ask_step [simp]: "ports_ask scroll pxr a (te_ports_step scroll pxr trb prb a p)"
  by (simp add: ports_ask_def te_ports_step_def)

lemma ports_hold_step: "ports_ask scroll pxr a p \<Longrightarrow> ports_hold scroll pxr trb prb a (te_ports_step scroll pxr trb prb b p)"
  by (simp add: ports_ask_def ports_hold_def te_ports_step_def)

lemma ports_data:
  assumes "ports_hold scroll (pixelrow scroll next_row) (tilram_rbuf FG scroll next_row ram) (patram_rbuf FG scroll next_row ram) a p"
  shows "te_ports_data enable p = tile_engine FG scroll enable ram next_row a"
  using assms by (simp add: ports_hold_def te_ports_data_def tile_engine_def te_pixel_def)

text \<open>
  In the \<open>k\<close>-th cycle of a fetch the mixer asks for column \<open>k\<close>, the ports for the column
  before, and the answers are for the column before that, which is where they are written.
\<close>

definition asking :: "dbuf_regs \<Rightarrow> nat \<Rightarrow> nat \<Rightarrow> line \<Rightarrow> bool" where
  "asking r next_row a l \<longleftrightarrow> ln_col l = a
     \<and> ports_ask (dbuf_fgscroll r) (pixelrow (dbuf_fgscroll r) next_row) a (ln_fg l)
     \<and> ports_ask (dbuf_bgscroll r) (pixelrow (dbuf_bgscroll r) next_row) a (ln_bg l)"

definition holding :: "dbuf_regs \<Rightarrow> vram_p \<Rightarrow> nat \<Rightarrow> nat \<Rightarrow> line \<Rightarrow> bool" where
  "holding r ram next_row a l \<longleftrightarrow> (let fs = dbuf_fgscroll r; bs = dbuf_bgscroll r
     in ports_hold fs (pixelrow fs next_row) (tilram_rbuf 1 fs next_row ram) (patram_rbuf 1 fs next_row ram) a (ln_fg l)
      \<and> ports_hold bs (pixelrow bs next_row) (tilram_rbuf 0 bs next_row ram) (patram_rbuf 0 bs next_row ram) a (ln_bg l))"

definition counting :: "nat \<Rightarrow> pixel_mixer_regs \<Rightarrow> bool" where
  "counting k pm \<longleftrightarrow> pm_fetch pm \<and> pm_pixel_addr pm = min k 319 \<and> pm_pixel_addr_buffer pm = min (k - 1) 319
     \<and> pm_rowram_wraddr pm = k - 2"

lemma asking_step: "asking r next_row (pm_pixel_addr (ln_pmxr l)) (line_step r ram pat_buf next_row d l)"
  by (simp add: asking_def line_step_def Let_def)

lemma holding_step: "asking r next_row a l \<Longrightarrow> holding r ram next_row a (line_step r ram pat_buf next_row d l)"
  by (simp add: asking_def holding_def line_step_def Let_def ports_hold_step)

lemma counting_start:
  "line_ready l \<Longrightarrow> counting 0 (ln_pmxr (line_step r ram pat_buf next_row d l))"
  by (simp add: line_ready_def counting_def line_step_def Let_def pixel_mixer_step_def)

lemma counting_step:
  "counting k (ln_pmxr l) \<Longrightarrow> k < 321 \<Longrightarrow> counting (Suc k) (ln_pmxr (line_step r ram pat_buf next_row d l))"
  by (auto simp: counting_def line_step_def Let_def pixel_mixer_step_def)

lemma counting_end:
  "counting 321 (ln_pmxr l) \<Longrightarrow> \<not> pm_fetch (ln_pmxr (line_step r ram pat_buf next_row d l))"
  by (simp add: counting_def line_step_def Let_def pixel_mixer_step_def)

text \<open>The write of a cycle.\<close>

lemma rowram_step:
  assumes "counting k (ln_pmxr l)" and "2 \<le> k" "k \<le> 321" and "asking r next_row (min (k - 1) 319) l" "holding r ram next_row (k - 2) l"
  shows "ln_rowram (line_step r ram pat_buf next_row d l) = (ln_rowram l)[k - 2 := row_pixels r ram pat_buf next_row (k - 2)]"
proof -
  have c: "min (k - 1) 319 = sprite_col (k - 2)" using assms(2) by (simp add: sprite_col_def)
  have h: "te_ports_data e (ln_fg l) = tile_engine 1 (dbuf_fgscroll r) e ram next_row (k - 2)"
    "te_ports_data e (ln_bg l) = tile_engine 0 (dbuf_bgscroll r) e ram next_row (k - 2)" for e
    using assms(5) unfolding holding_def Let_def by (blast intro: ports_data)+
  show ?thesis
    using assms(1,4) unfolding c by (simp add: counting_def asking_def line_step_def Let_def row_pixels_def h)
qed

lemma length_rowram [simp]: "length (ln_rowram (line_step r ram pat_buf next_row d l)) = length (ln_rowram l)"
  by (simp add: line_step_def Let_def)

definition filling :: "dbuf_regs \<Rightarrow> vram_p \<Rightarrow> nat list list \<Rightarrow> nat \<Rightarrow> nat \<Rightarrow> line \<Rightarrow> bool" where
  "filling r ram pat_buf next_row k l \<longleftrightarrow>
     counting k (ln_pmxr l) \<and> asking r next_row (min (k - 1) 319) l \<and> (1 \<le> k \<longrightarrow> holding r ram next_row (k - 2) l)
     \<and> length (ln_rowram l) = 320 \<and> (\<forall>c < k - 2. ln_rowram l ! c = row_pixels r ram pat_buf next_row c)"

lemma filling_start: "line_ready l \<Longrightarrow> filling r ram pat_buf next_row 0 (line_step r ram pat_buf next_row d l)"
  using asking_step [of r next_row l ram pat_buf d] counting_start [of l r ram pat_buf next_row d]
  by (simp add: filling_def line_ready_def)

lemma rows_filled:
  assumes f: "filling r ram pat_buf next_row k l" and k: "k \<le> 321" and c: "c < Suc k - 2"
  shows "ln_rowram (line_step r ram pat_buf next_row d l) ! c = row_pixels r ram pat_buf next_row c"
proof -
  have "2 \<le> k" "1 \<le> k" using c by simp_all
  then have "ln_rowram (line_step r ram pat_buf next_row d l) = (ln_rowram l)[k - 2 := row_pixels r ram pat_buf next_row (k - 2)]"
    using f k by (intro rowram_step) (simp_all add: filling_def)
  moreover have "c = k - 2 \<or> c < k - 2" using c by linarith
  ultimately show ?thesis using f k c by (auto simp: filling_def nth_list_update)
qed

lemma filling_step:
  assumes f: "filling r ram pat_buf next_row k l" and k: "k < 321"
  shows "filling r ram pat_buf next_row (Suc k) (line_step r ram pat_buf next_row d l)"
proof -
  have e: "min (k - 1) 319 = Suc k - 2" using k by simp
  have "asking r next_row (min (Suc k - 1) 319) (line_step r ram pat_buf next_row d l)"
    using asking_step [of r next_row l ram pat_buf d] f by (simp add: filling_def counting_def)
  moreover have "holding r ram next_row (Suc k - 2) (line_step r ram pat_buf next_row d l)"
    using f unfolding filling_def e by (blast intro: holding_step)
  moreover have "\<forall>c < Suc k - 2. ln_rowram (line_step r ram pat_buf next_row d l) ! c = row_pixels r ram pat_buf next_row c"
    using rows_filled [OF f] k by simp
  ultimately show ?thesis
    using f k counting_step [of k l] unfolding filling_def by simp
qed

lemma filling_run:
  assumes "line_ready l" and "k \<le> 321"
  shows "filling r ram pat_buf next_row k (line_run r ram pat_buf next_row dones (Suc k) l)"
  using assms(2)
proof (induction k)
  case 0
  show ?case using filling_start [OF assms(1)] by simp
next
  case (Suc k)
  then show ?case using filling_step [of r ram pat_buf next_row k] by simp
qed

lemma line_filled:
  fixes r ram pat_buf next_row dones
  assumes "line_ready l"
  defines "l' \<equiv> line_run r ram pat_buf next_row dones 323 l"
  shows "\<not> pm_fetch (ln_pmxr l')" and "c < 320 \<Longrightarrow> ln_rowram l' ! c = row_pixels r ram pat_buf next_row c"
proof -
  have f: "filling r ram pat_buf next_row 321 (line_run r ram pat_buf next_row dones 322 l)"
    using filling_run [OF assms(1), of 321] by simp
  have l': "l' = line_step r ram pat_buf next_row (dones 322) (line_run r ram pat_buf next_row dones 322 l)"
    using line_run_simps(2) [of r ram pat_buf next_row dones 322] by (simp add: l'_def)
  show "\<not> pm_fetch (ln_pmxr l')"
    using f counting_end unfolding l' filling_def by blast
  show "c < 320 \<Longrightarrow> ln_rowram l' ! c = row_pixels r ram pat_buf next_row c"
    unfolding l' by (rule rows_filled [OF f]) simp_all
qed

end
