(* ===== verification/Picture.thy ===== *)
theory Picture
  imports PpuUpdate PpuLib_Props LineFill
begin

text \<open>
  From the calls of the graphics library to the colour of a pixel: the theorems that join the
  library, the kernel module and the circuits.
\<close>

section \<open>Patterns and tiles\<close>

text \<open>Pixel \<open>k\<close> of a row of a pattern, from the left.\<close>

definition row_pixel :: "u32 \<Rightarrow> nat \<Rightarrow> nat" where
  "row_pixel w k = unat w div 16 ^ k mod 16"

lemma pattern_nib:
  assumes pt: "pattern_ok pt" and r: "r < 8" and k: "k < 8"
  shows "nib (pattern_bytes pt) (8 * r + k) = row_pixel (pxrow pt ! r) k"
proof -
  have "segment (4 * r) 4 (pattern_bytes pt) = le32 (pxrow pt ! r)"
    using r pt word32.segment_concat_enc [of r "pxrow pt"] by (simp add: pattern_bytes_def pattern_ok_def)
  then have "nib (pattern_bytes pt) (8 * r + k) = nib (le32 (pxrow pt ! r)) k"
    using nib_segment [of "4 * r" 4 "pattern_bytes pt" k] length_pattern_bytes [OF pt] r k by simp
  also have "\<dots> = word_num (le32 (pxrow pt ! r)) div 2 ^ (4 * k) mod 16"
    using k by (intro word_num_nib [symmetric]) simp
  also have "\<dots> = unat (pxrow pt ! r) div 16 ^ k mod 16"
    by (simp add: word_num_un32 power_mult)
  finally show ?thesis by (simp add: row_pixel_def)
qed

lemma mirror_bits:
  fixes a p m :: nat
  assumes n: "n = a * 64 + p * 4 + m" and m: "m < 4"
  shows "n mod 2 = m mod 2 \<and> n div 2 mod 2 = m div 2"
proof -
  have "n = (a * 32 + p * 2 + m div 2) * 2 + m mod 2" unfolding n by simp
  then have h: "n mod 2 = m mod 2" "n div 2 = (a * 16 + p) * 2 + m div 2"
    using field [of n "a * 32 + p * 2 + m div 2" 2 "m mod 2"] by simp_all
  then show ?thesis using field [OF h(2)] m by simp
qed

lemma tile_shown_pixel:
  assumes make: "ppu_make_tile addr pal mir = Done t" and tile: "tile_at layer x y m = t"
    and pt: "pattern_ok pt" "pattern_at (unat addr mod 32) (unat addr div 32) m = pattern_bytes pt"
    and ij: "i < 8" "j < 8"
  shows "layer_pixel layer m (8 * x + i) (8 * y + j) =
    (unat pal, row_pixel (pxrow pt ! flip (unat mir div 2 = 1) 8 j) (flip (unat mir mod 2 = 1) 8 i))"
proof -
  have ok: "addr \<le> PATTERN_MAXADDR" "pal < TILELAYER_MAX_PALETTES" "mir \<le> MIRROR_MAXVAL"
    using make by (auto simp: ppu_make_tile_def not_less split: if_splits)
  then have b: "unat pal < 16" "unat mir < 4" by (simp_all add: word_le_nat_alt word_less_nat_alt)
  obtain t' where "ppu_make_tile addr pal mir = Done t'" "unat t' = unat addr * 64 + unat pal * 4 + unat mir"
    using tile_value [OF ok] by blast
  then have u: "unat t = unat addr * 64 + unat pal * 4 + unat mir" using make by simp
  note f = tile_fields_nat [OF u b] and mb = mirror_bits [OF u b(2)]
  have fl: "flip (unat mir div 2 = 1) 8 j < 8" "flip (unat mir mod 2 = 1) 8 i < 8"
    using ij by (simp_all add: flip_less)
  have xy: "(8 * x + i) div 8 = x" "(8 * x + i) mod 8 = i" "(8 * y + j) div 8 = y" "(8 * y + j) mod 8 = j"
    using ij by simp_all
  show ?thesis
    using f mb ij pattern_nib [OF pt(1) fl]
    by (simp add: layer_pixel_def xy tile Let_def tile_palette_def tile_pattern_def tile_mirror_x_def tile_mirror_y_def
        pattern_pixel_def pt(2))
qed

section \<open>Palettes\<close>

lemma palette_shown:
  assumes pal: "palette_ok pal" and m: "segment (palette_base layer k) 60 m = palette_bytes pal" and c: "0 < c" "c < 16"
  shows "palette_color m layer k c = unat (colors pal ! (c - 1)) mod 2 ^ 24"
proof -
  have "segment (palette_base layer k + 4 * (c - 1)) 4 m = segment (4 * (c - 1)) 4 (segment (palette_base layer k) 60 m)"
    using c by (subst segment_segment) simp_all
  also have "\<dots> = le32 (colors pal ! (c - 1))"
    using c pal word32.segment_concat_enc [of "c - 1" "colors pal"] unfolding m by (simp add: palette_bytes_def palette_ok_def)
  finally show ?thesis by (simp add: palette_color_def)
qed

lemma tile_painted:
  assumes m: "length m = VRAM_SIZE" and make: "ppu_make_tile addr pal mir = Done t" and tile: "tile_at LAYER_BG x y m = t"
    and pt: "pattern_ok pt" "pattern_at (unat addr mod 32) (unat addr div 32) m = pattern_bytes pt"
    and pl: "palette_ok pl" "segment (palette_base LAYER_BG (unat pal)) 60 m = palette_bytes pl"
    and ij: "i < 8" "j < 8" and col: "(col + scroll_x (dbuf_bgscroll r)) mod 512 = 8 * x + i"
    and row: "(row + scroll_y (dbuf_bgscroll r)) mod 512 = 8 * y + j" and en: "dbuf_enable r = 1"
  shows "let c = row_pixel (pxrow pt ! flip (unat mir div 2 = 1) 8 j) (flip (unat mir mod 2 = 1) 8 i)
    in painted m r row col = (if c = 0 then dbuf_bgcolor r else unat (colors pl ! (c - 1)) mod 2 ^ 24)"
proof -
  define c where "c = row_pixel (pxrow pt ! flip (unat mir div 2 = 1) 8 j) (flip (unat mir mod 2 = 1) 8 i)"
  have c: "c < 16" by (simp add: c_def row_pixel_def)
  have en3: "bits 2 2 (dbuf_enable r) \<noteq> 1" "bits 1 1 (dbuf_enable r) \<noteq> 1" "bits 0 0 (dbuf_enable r) = 1"
    by (simp_all add: en bits_def)
  have s: "sprite_surface m (bits 2 2 (dbuf_enable r) = 1) l row k = (LAYER_SPR, 0, 0)" for l k
    using en3(1) by (simp add: sprite_surface_def split: list.split)
  have f: "tile_surface m LAYER_FG (bits 1 1 (dbuf_enable r) = 1) (dbuf_fgscroll r) row col = (LAYER_FG, 0, 0)"
    using en3(2) by (simp add: tile_surface_def)
  have b: "tile_surface m LAYER_BG (bits 0 0 (dbuf_enable r) = 1) (dbuf_bgscroll r) row col = (LAYER_BG, unat pal, c)"
    using en3(3) tile_shown_pixel [OF make tile pt ij] by (simp add: tile_surface_def col row c_def)
  have "painted m r row col = (if c = 0 then dbuf_bgcolor r else palette_color m LAYER_BG (unat pal) c)"
    unfolding painted_def surfaces_def Let_def s f b by simp
  also have "\<dots> = (if c = 0 then dbuf_bgcolor r else unat (colors pl ! (c - 1)) mod 2 ^ 24)"
    using palette_shown [OF pl _ c] by simp
  finally show ?thesis by (simp add: c_def)
qed

text \<open>C15. A tile made by \<open>ppu_make_tile\<close> from an address, a palette and a
  mirroring shows, where nothing else is enabled, the pixels of the pattern at that address,
  flipped as asked, in the 24-bit colours of the palette, the lowest digit of a row at the
  left; zeros show the backdrop.  The scroll register shifts the layer, which wraps around.\<close>

theorem tile_on_screen:
  assumes m: "length m = VRAM_SIZE" and make: "ppu_make_tile addr pal mir = Done t" and tile: "tile_at LAYER_BG x y m = t"
    and pt: "pattern_ok pt" "pattern_at (unat addr mod 32) (unat addr div 32) m = pattern_bytes pt"
    and pl: "palette_ok pl" "segment (palette_base LAYER_BG (unat pal)) 60 m = palette_bytes pl"
    and ij: "i < 8" "j < 8" and col: "col < 320" "(col + scroll_x (dbuf_bgscroll r)) mod 512 = 8 * x + i"
    and row: "(row + scroll_y (dbuf_bgscroll r)) mod 512 = 8 * y + j" and en: "dbuf_enable r = 1"
  shows "let c = row_pixel (pxrow pt ! flip (unat mir div 2 = 1) 8 j) (flip (unat mir mod 2 = 1) 8 i)
    in ppu_logic r (image_vram m) pat_buf row col
      = (if c = 0 then dbuf_bgcolor r else unat (colors pl ! (c - 1)) mod 2 ^ 24)"
  using tile_painted [OF m make tile pt pl ij col(2) row en] paints [OF m col(1)] by simp

section \<open>Sprites\<close>

text \<open>What the device should read for a sprite, and for one whose extra byte is zero.\<close>

definition conf_of :: "sprite_t \<Rightarrow> sprite_conf" where
  "conf_of s = \<lparr>conf_tile = unat (s_pattern_addr s), conf_palette = unat (s_palette_id s), conf_y = unat (s_y s),
     conf_x = unat (s_x s), conf_y_mirror = unat (s_mirror s) div 2 = 1, conf_x_mirror = unat (s_mirror s) mod 2 = 1,
     conf_h = unat (s_height s) - 1, conf_w = unat (s_width s) - 1,
     conf_fg_prio = (unat (s_prio s) = 2), conf_bg_prio = (unat (s_prio s) = 1)\<rparr>"

definition plain_conf :: "sprite_conf \<Rightarrow> sprite_conf" where
  "plain_conf c = c\<lparr>conf_y_mirror := False, conf_x_mirror := False, conf_h := 0, conf_w := 0,
     conf_fg_prio := False, conf_bg_prio := False\<rparr>"

lemma oam_data_bytes:
  assumes i: "i < 64"
  shows "oam_data (image_vram m) i
    = sprite_conf_t (word_num (segment (0xD000 + 4 * i) 4 m)) (word_num (segment (0xD100 + i) 1 m))"
proof -
  have w: "i div 2 < 40" "32 + i div 8 < 40" "(256 + i) div 8 = 32 + i div 8" "(256 + i) mod 8 = i mod 8"
    using i by (simp_all add: less_mult_imp_div_less) presburger+
  have pos: "0xD000 + 8 * (i div 2) + 4 * (i mod 2) = 0xD000 + 4 * i" "0xD000 + 8 * (32 + i div 8) + i mod 8 = 0xD100 + i"
    by presburger+
  have "i mod 2 < 2" by simp
  have "parts 2 32 (p_sprram (image_vram m) ! (i div 2)) ! (i mod 2)
      = ram64 0xD000 (i div 2) m div 2 ^ (8 * (4 * (i mod 2))) mod 2 ^ (8 * 4)"
    using w by (simp add: nth_parts image_vram_nth mult.assoc)
  also have "\<dots> = word_num (segment (0xD000 + 4 * i) 4 m)"
    using \<open>i mod 2 < 2\<close> by (subst ram64_part) (linarith, simp only: pos(1))
  finally have 1: "parts 2 32 (p_sprram (image_vram m) ! (i div 2)) ! (i mod 2) = word_num (segment (0xD000 + 4 * i) 4 m)" .
  have "i mod 8 < 8" by simp
  have "parts 8 8 (p_sprram (image_vram m) ! (32 + i div 8)) ! (i mod 8)
      = ram64 0xD000 (32 + i div 8) m div 2 ^ (8 * (i mod 8)) mod 2 ^ (8 * 1)"
    using w by (simp add: nth_parts image_vram_nth)
  also have "\<dots> = word_num (segment (0xD100 + i) 1 m)"
    using \<open>i mod 8 < 8\<close> by (subst ram64_part) (linarith, simp only: pos(2))
  finally show ?thesis using 1 w by (simp add: oam_data_def Let_def)
qed

lemma conf_main:
  assumes "sprite_ok s"
  shows "sprite_conf_t (unat (sprite_word s)) (unat (sprite_extra s)) = conf_of s"
    and "sprite_conf_t (unat (sprite_word s)) 0 = plain_conf (conf_of s)"
proof -
  have b: "unat (s_pattern_addr s) < 1024" "unat (s_palette_id s) < 32" "unat (s_y s) < 256" "unat (s_x s) < 512"
      "unat (s_height s) \<le> 4" "unat (s_width s) \<le> 4" "unat (s_prio s) < 3" "unat (s_mirror s) < 4"
      "0 < unat (s_height s)" "0 < unat (s_width s)"
    using assms by (simp_all add: sprite_ok_def word_le_nat_alt word_less_nat_alt unat_gt_0)
  have hw: "unat (s_height s) - 1 < 4" "unat (s_width s) - 1 < 4" "unat (s_prio s) < 4" using b by linarith+
  have p: "(2 :: nat) ^ 22 = 4194304" "(2 :: nat) ^ 17 = 131072" "(2 :: nat) ^ 9 = 512" by simp_all
  note w = sprite_fields_nat [OF sprite_word_value [OF assms, unfolded p] b(2-4)]
  note e = extra_fields_nat [OF sprite_extra_value [OF assms] hw]
  have main: "bits 31 22 (unat (sprite_word s)) = unat (s_pattern_addr s)"
    "bits 21 17 (unat (sprite_word s)) = unat (s_palette_id s)"
    "bits 16 9 (unat (sprite_word s)) = unat (s_y s)" "bits 8 0 (unat (sprite_word s)) = unat (s_x s)"
    using w b by (simp_all add: bits_def)
  have mir: "bits 6 6 (unat (sprite_extra s)) = unat (s_mirror s) mod 2"
    "bits 7 7 (unat (sprite_extra s)) = unat (s_mirror s) div 2"
    using e b(8) div_mult2_eq [of "unat (sprite_extra s)" 64 2] by (simp_all add: bits_def less_mult_imp_div_less)
  have size: "bits 5 4 (unat (sprite_extra s)) = unat (s_height s) - 1"
    "bits 3 2 (unat (sprite_extra s)) = unat (s_width s) - 1"
    using e by (simp_all add: bits_def)
  have prio: "bits 1 1 (unat (sprite_extra s)) = unat (s_prio s) div 2"
    "bits 0 0 (unat (sprite_extra s)) = unat (s_prio s) mod 2"
  proof -
    let ?e = "unat (sprite_extra s)"
    have "?e div 2 mod 2 = ?e mod 4 div 2" "?e mod 2 = ?e mod 4 mod 2"
      using mod_div_swap [of ?e 2 2] by (simp_all add: mod_mod_cancel)
    then show "bits 1 1 ?e = unat (s_prio s) div 2" "bits 0 0 ?e = unat (s_prio s) mod 2"
      using e by (simp_all add: bits_def)
  qed
  have pr: "unat (s_prio s) div 2 = 1 \<longleftrightarrow> unat (s_prio s) = 2" "unat (s_prio s) mod 2 = 1 \<longleftrightarrow> unat (s_prio s) = 1"
  proof -
    have "unat (s_prio s) = 0 \<or> unat (s_prio s) = 1 \<or> unat (s_prio s) = 2" using b(7) by linarith
    then show "unat (s_prio s) div 2 = 1 \<longleftrightarrow> unat (s_prio s) = 2" "unat (s_prio s) mod 2 = 1 \<longleftrightarrow> unat (s_prio s) = 1"
      by auto
  qed
  show "sprite_conf_t (unat (sprite_word s)) (unat (sprite_extra s)) = conf_of s"
    by (simp only: sprite_conf_t_def conf_of_def main mir size prio pr)
  have "bits hi lo 0 = 0" for hi lo by (simp add: bits_def)
  then show "sprite_conf_t (unat (sprite_word s)) 0 = plain_conf (conf_of s)"
    by (simp add: sprite_conf_t_def conf_of_def plain_conf_def main)
qed

text \<open>C14. After a sprite write that fits in its blocks the device reads the address,
  palette and position of every sprite as they were given, but the mirroring, size and
  priority of sprite \<open>j\<close> are those of sprite \<open>j div 4\<close> when four divides \<open>j\<close>, and otherwise the
  sprite is one cell, not mirrored, behind both layers.\<close>

theorem sprites_on_device:
  assumes p: "holds_ppu v p" "host_ready (os p)" and id: "unat sprite_id + unat len \<le> 64"
    and ok: "list_all sprite_ok sprites" and n: "unat len \<le> length sprites"
    and blocks: "sprite_allocs p (unat len) buf extra" "4 * unat len \<le> length extra"
  shows "\<exists>p' m. ppu_write_sprites host_sys (Some sprites) len sprite_id p = Done (0, p') \<and> holds_ppu (v\<lparr>v_vram := m\<rparr>) p'
    \<and> (\<forall>j < unat len. plain_conf (oam_data (image_vram m) (unat sprite_id + j)) = plain_conf (conf_of (sprites ! j))
        \<and> (if 4 dvd j
           then oam_data (image_vram m) (unat sprite_id + j)
             = conf_of ((sprites ! (j div 4))\<lparr>s_pattern_addr := s_pattern_addr (sprites ! j),
                 s_palette_id := s_palette_id (sprites ! j), s_x := s_x (sprites ! j), s_y := s_y (sprites ! j)\<rparr>)
           else oam_data (image_vram m) (unat sprite_id + j) = plain_conf (conf_of (sprites ! j))))"
proof -
  obtain p' m where r: "ppu_write_sprites host_sys (Some sprites) len sprite_id p = Done (0, p')"
      "holds_ppu (v\<lparr>v_vram := m\<rparr>) p'"
    and w: "\<And>j. j < unat len \<Longrightarrow> segment (0xD000 + 4 * (unat sprite_id + j)) 4 m = le32 (sprite_word (sprites ! j))"
    and e: "\<And>j. j < unat len \<Longrightarrow> m ! (0xD100 + (unat sprite_id + j)) = (if 4 dvd j then sprite_extra (sprites ! (j div 4)) else 0)"
    using sprites_written [OF p id ok n blocks] by (auto simp: add.assoc)
  have m: "length m = VRAM_SIZE" using holds_length [OF r(2)] by simp
  have read: "oam_data (image_vram m) (unat sprite_id + j)
      = sprite_conf_t (unat (sprite_word (sprites ! j))) (unat (if 4 dvd j then sprite_extra (sprites ! (j div 4)) else 0))"
    if j: "j < unat len" for j
  proof -
    have seg: "segment (0xD100 + (unat sprite_id + j)) 1 m = [m ! (0xD100 + (unat sprite_id + j))]"
      using j id m by (intro nth_equalityI) (simp_all add: nth_segment)
    have "unat sprite_id + j < 64" using j id by simp
    note bytes = oam_data_bytes [OF this, of m]
    show ?thesis unfolding bytes w [OF j] seg e [OF j] by (simp add: word_num_un32)
  qed
  have sok: "sprite_ok (sprites ! j)" if "j < unat len" for j using that ok n by (simp add: list_all_length)
  have split: "sprite_conf_t a b = (sprite_conf_t c b)\<lparr>conf_tile := conf_tile (sprite_conf_t a 0),
      conf_palette := conf_palette (sprite_conf_t a 0), conf_y := conf_y (sprite_conf_t a 0),
      conf_x := conf_x (sprite_conf_t a 0)\<rparr>" and plain: "plain_conf (sprite_conf_t a b) = plain_conf (sprite_conf_t a d)" for a b c d
    by (simp_all add: sprite_conf_t_def plain_conf_def)
  have "plain_conf (oam_data (image_vram m) (unat sprite_id + j)) = plain_conf (conf_of (sprites ! j))" if j: "j < unat len" for j
    unfolding read [OF j] plain [of _ _ "unat (sprite_extra (sprites ! j))"] conf_main(1) [OF sok [OF j]] ..
  moreover have "oam_data (image_vram m) (unat sprite_id + j)
      = conf_of ((sprites ! (j div 4))\<lparr>s_pattern_addr := s_pattern_addr (sprites ! j),
          s_palette_id := s_palette_id (sprites ! j), s_x := s_x (sprites ! j), s_y := s_y (sprites ! j)\<rparr>)"
    if j: "j < unat len" "4 dvd j" for j
  proof -
    have "j div 4 < unat len" using j(1) by (meson div_le_dividend le_less_trans)
    note ok4 = sok [OF this] and okj = sok [OF j(1)]
    show ?thesis
      using j(2) unfolding read [OF j(1)] if_P [OF j(2)]
      by (subst split [of _ _ "unat (sprite_word (sprites ! (j div 4)))"])
        (simp add: conf_main(1) [OF ok4] conf_main(2) [OF okj], simp add: conf_of_def plain_conf_def)
  qed
  moreover have "oam_data (image_vram m) (unat sprite_id + j) = plain_conf (conf_of (sprites ! j))"
    if j: "j < unat len" "\<not> 4 dvd j" for j
    unfolding read [OF j(1)] using j(2) conf_main(2) [OF sok [OF j(1)]] by simp
  ultimately show ?thesis using r by auto
qed

section \<open>An update, from the kernel module to the screen\<close>











section \<open>The circuits on examples\<close>

text \<open>An image with one tile, its pattern and its palette.\<close>

definition demo_pattern :: pattern_t where
  "demo_pattern = \<lparr>pxrow = 0x30000000 # replicate 7 0\<rparr>"

definition demo_image :: "u8 list" where
  "demo_image = blit (palette_base LAYER_BG 2) (palette_bytes demo_palette)
     (put_pattern 1 0 demo_pattern (put_tiles LAYER_BG 0 [0x49] (zeros VRAM_SIZE)))"

lemma demo_image_facts:
  "length demo_image = VRAM_SIZE" "tile_at LAYER_BG 0 0 demo_image = 0x49"
  "pattern_at 1 0 demo_image = pattern_bytes demo_pattern" "pattern_ok demo_pattern"
  "segment (palette_base LAYER_BG 2) 60 demo_image = palette_bytes demo_palette" "palette_ok demo_palette"
proof -
  let ?t = "put_tiles LAYER_BG 0 [0x49] (zeros VRAM_SIZE)" and ?b = "palette_base LAYER_BG 2"
  let ?p = "put_pattern 1 0 demo_pattern ?t"
  show pt: "pattern_ok demo_pattern" by (simp add: demo_pattern_def pattern_ok_def)
  show pl: "palette_ok demo_palette" by (simp add: demo_palette_def palette_ok_def)
  note lp = length_palette_bytes [OF pl] and lt = length_pattern_bytes [OF pt]
  have b: "?b = 0xC084" by (simp add: palette_base_def)
  have len: "length ?t = VRAM_SIZE" "length ?p = VRAM_SIZE" using pt by simp_all
  then show "length demo_image = VRAM_SIZE" by (simp add: demo_image_def lp b)
  have frame: "segment o' k demo_image = segment o' k ?p" if "o' + k \<le> ?b" for o' k
    unfolding demo_image_def using that len by (intro segment_blit_disjoint) (simp_all add: lp b)
  have "tile_at LAYER_BG 0 0 demo_image = tile_at LAYER_BG 0 0 ?p"
    unfolding tile_at_def by (subst frame) (simp_all add: b layer_base_def)
  also have "\<dots> = tile_at LAYER_BG 0 0 ?t"
    unfolding tile_at_def put_pattern_def using len by (subst segment_blit_disjoint) (simp_all add: layer_base_def lt)
  finally show "tile_at LAYER_BG 0 0 demo_image = 0x49"
    using tile_at_put [of 0 "[0x49]" "zeros VRAM_SIZE" 0 0 LAYER_BG] by simp
  have "pattern_at 1 0 demo_image = pattern_at 1 0 ?p"
    unfolding pattern_at_def by (subst frame) (simp_all add: b)
  then show "pattern_at 1 0 demo_image = pattern_bytes demo_pattern"
    using pattern_at_put [OF pt, of 1 0 1 0 ?t] len by simp
  show "segment ?b 60 demo_image = palette_bytes demo_palette"
    unfolding demo_image_def using len by (subst lp [symmetric], intro segment_blit_same) (simp_all add: lp b)
qed

definition demo_regs :: dbuf_regs where
  "demo_regs = \<lparr>dbuf_bgscroll = 0, dbuf_fgscroll = 0, dbuf_enable = 1, dbuf_bgcolor = 0\<rparr>"

lemma demo_tile:
  "ppu_make_tile 1 2 1 = Done 0x49" "unat (1 :: u32) mod 32 = 1" "unat (1 :: u32) div 32 = 0" "unat (2 :: u32) = 2"
  "row_pixel (pxrow demo_pattern ! flip False 8 0) (flip True 8 0) = 3" "dbuf_enable demo_regs = 1"
  "(0 + scroll_x (dbuf_bgscroll demo_regs)) mod 512 = 8 * 0 + 0" "(0 + scroll_y (dbuf_bgscroll demo_regs)) mod 512 = 8 * 0 + 0"
  by (simp_all add: ppu_make_tile_def push_bit_eq_mult row_pixel_def demo_pattern_def flip_def demo_regs_def
      scroll_x_def scroll_y_def bits_def)

theorem tile_on_screen_witness:
  "ppu_logic demo_regs (image_vram demo_image) [] 0 0 = unat (colors demo_palette ! 2) mod 2 ^ 24"
  using tile_on_screen [OF demo_image_facts(1) demo_tile(1) demo_image_facts(2,4) _ demo_image_facts(6) _ _ _ _ demo_tile(7,8,6), of "[]"]
    demo_image_facts(3,5) demo_tile(2-5)
  by simp

lemma demo_painted: "painted demo_image demo_regs 0 0 = unat (colors demo_palette ! 2) mod 2 ^ 24"
  using tile_painted [OF demo_image_facts(1) demo_tile(1) demo_image_facts(2,4) _ demo_image_facts(6) _ _ _ demo_tile(7,8,6)]
    demo_image_facts(3,5) demo_tile(2-5)
  by simp

text \<open>A line on which the mixer is about to start.\<close>

definition demo_line :: line where
  "demo_line = \<lparr>ln_pmxr = \<lparr>pm_fetch = False, pm_bgte_done_rec = True, pm_fgte_done_rec = True, pm_spre_done_rec = True,
       pm_pixel_addr = 0, pm_pixel_addr_buffer = 0, pm_rowram_wraddr = 0\<rparr>,
     ln_fg = \<lparr>tp_entry = \<lparr>rp_addr = 7, rp_q = 7\<rparr>, tp_color = \<lparr>rp_addr = 7, rp_q = 7\<rparr>\<rparr>,
     ln_bg = \<lparr>tp_entry = \<lparr>rp_addr = 7, rp_q = 7\<rparr>, tp_color = \<lparr>rp_addr = 7, rp_q = 7\<rparr>\<rparr>,
     ln_col = 7, ln_rowram = replicate 320 7\<rparr>"

text \<open>C4. Once the three engines have reported, the mixer fills the row buffer in
  323 cycles, whatever the engines report meanwhile and whatever the ports and the buffer held
  before, and stops.  Read through the palette memory, every entry is the colour that the
  layers and sprites have in the bytes of the shared memory, painted over each other in the
  order of their priorities.  The sprites come one column too early.\<close>

theorem line_painted:
  assumes "length m = VRAM_SIZE" and "line_ready l"
  shows "let l' = line_run r (image_vram m) pat_buf row dones 323 l
    in \<not> pm_fetch (ln_pmxr l')
     \<and> (\<forall>col < 320. hdmi_color (image_vram m) (dbuf_bgcolor r) (ln_rowram l' ! col) = painted m r row col)"
  using line_filled [OF assms(2)] paints [OF assms(1)] unfolding ppu_logic_def Let_def by simp

theorem line_painted_witness:
  "let l' = line_run demo_regs (image_vram demo_image) [] 0 (\<lambda>_. (False, False, False)) 323 demo_line
   in \<not> pm_fetch (ln_pmxr l')
    \<and> hdmi_color (image_vram demo_image) 0 (ln_rowram l' ! 0) = unat (colors demo_palette ! 2) mod 2 ^ 24"
proof -
  have "line_ready demo_line" by (simp add: line_ready_def demo_line_def)
  from line_painted [OF demo_image_facts(1) this, of demo_regs "[]" 0 "\<lambda>_. (False, False, False)"]
  show ?thesis using demo_painted by (simp add: Let_def demo_regs_def)
qed

theorem sprites_on_device_witness:
  "\<exists>p' m. ppu_write_sprites host_sys (Some [demo_sprite, demo_sprite]) 2 0 demo_slack = Done (0, p')
    \<and> oam_data (image_vram m) 0 = conf_of demo_sprite \<and> oam_data (image_vram m) 1 = plain_conf (conf_of demo_sprite)"
proof -
  have a: "sprite_allocs demo_slack (unat (2 :: u32)) (zeros 48) (zeros 24)"
    by (simp add: sprite_allocs_def demo_slack_def demo_proc_def)
  obtain p' m where r: "ppu_write_sprites host_sys (Some [demo_sprite, demo_sprite]) 2 0 demo_slack = Done (0, p')"
    and e: "\<forall>j < unat (2 :: u32). (if 4 dvd j
        then oam_data (image_vram m) (unat (0 :: u32) + j)
          = conf_of (([demo_sprite, demo_sprite] ! (j div 4))\<lparr>s_pattern_addr := s_pattern_addr ([demo_sprite, demo_sprite] ! j),
              s_palette_id := s_palette_id ([demo_sprite, demo_sprite] ! j), s_x := s_x ([demo_sprite, demo_sprite] ! j),
              s_y := s_y ([demo_sprite, demo_sprite] ! j)\<rparr>)
        else oam_data (image_vram m) (unat (0 :: u32) + j) = plain_conf (conf_of ([demo_sprite, demo_sprite] ! j)))"
    using sprites_on_device [OF demo_slack_holds _ _ _ a, of 0 "[demo_sprite, demo_sprite]"]
    by (auto simp: demo_sprite_ok)
  have "oam_data (image_vram m) 0 = conf_of demo_sprite" "oam_data (image_vram m) 1 = plain_conf (conf_of demo_sprite)"
    using e [rule_format, of 0] e [rule_format, of 1] by simp_all
  with r show ?thesis by blast
qed

end
