(* ===== verification/TileFetch.thy ===== *)
theory TileFetch
  imports TileEngine HwCopy
begin

text \<open>
  The tile engine cycle by cycle: its state machine starts the two copiers one after the
  other, and when it reports that it is done the two row buffers are exactly those of
  \<open>TileEngine\<close>.
\<close>

section \<open>The row buffers as RAMs\<close>

text \<open>A write through the wide port replaces \<open>n\<close> elements.\<close>

definition store_wide :: "nat \<Rightarrow> ('a \<Rightarrow> nat list) \<Rightarrow> nat \<Rightarrow> 'a \<Rightarrow> nat list \<Rightarrow> nat list" where
  "store_wide n elems a w d = map (\<lambda>j. if j div n = a then elems w ! (j mod n) else d ! j) [0..<length d]"

interpretation wide: write_port "store_wide w elems" "\<lambda>d. True" n for w elems n
  by unfold_locales (auto simp: store_wide_def)

lemma copied_wide:
  assumes "0 < n"
  shows "length (copied (store_wide n elems) f k d) = length d \<and>
    (\<forall>j < length d. copied (store_wide n elems) f k d ! j = (if j div n < k then elems (f (j div n)) ! (j mod n) else d ! j))"
  by (induction k) (auto simp: store_wide_def less_Suc_eq)

lemma copied_wide_all:
  assumes n: "0 < n" and d: "length d = n * k" and e: "\<And>i. i < k \<Longrightarrow> length (elems (f i)) = n"
  shows "copied (store_wide n elems) f k d = concat (map (\<lambda>i. elems (f i)) [0..<k])"
proof (rule nth_equalityI)
  have l: "length (concat (map (\<lambda>i. elems (f i)) [0..<k])) = n * k"
    using e by (induction k) auto
  have c: "length (copied (store_wide n elems) f k d) = n * k"
    using copied_wide [OF n, of elems f k d] d by simp
  show "length (copied (store_wide n elems) f k d) = length (concat (map (\<lambda>i. elems (f i)) [0..<k]))"
    unfolding c l ..
  fix j assume "j < length (copied (store_wide n elems) f k d)"
  then have j: "j < n * k" unfolding c .
  then have "j div n < k" by (simp add: less_mult_imp_div_less mult.commute)
  moreover have "concat (map (\<lambda>i. elems (f i)) [0..<k]) ! j = map (\<lambda>i. elems (f i)) [0..<k] ! (j div n) ! (j mod n)"
    by (rule nth_concat_uniform) (use j e in auto)
  ultimately show "copied (store_wide n elems) f k d ! j = concat (map (\<lambda>i. elems (f i)) [0..<k]) ! j"
    using copied_wide [OF n, of elems f k d] d j by simp
qed

section \<open>The state machine\<close>

record tile_engine_state =
  te_prep :: bool
  te_n_done :: bool
  te_done :: bool
  te_start :: bool
  te_tilram :: "(nat, nat list) copier"
  te_patram :: "(nat, nat, nat, nat list) fetcher"

text \<open>What does not change while a line is prepared.\<close>

record tile_engine_env =
  env_FG :: nat
  env_scroll :: nat
  env_next_row :: nat
  env_ram :: vram_p

definition tilram_fetcher_step :: "tile_engine_env \<Rightarrow> bool \<times> bool \<Rightarrow> (nat, nat list) copier \<Rightarrow> (nat, nat list) copier" where
  "tilram_fetcher_step e =
     copier_step 10 ((!) (p_tilram (env_ram e))) (tilram_addr (env_FG e) (env_scroll e) (env_next_row e))
       (store_wide 4 (parts 4 16))"

text \<open>The delayed part of an entry is its mirror bits.\<close>

definition patram_fetcher_step ::
    "tile_engine_env \<Rightarrow> nat list \<Rightarrow> bool \<Rightarrow> (nat, nat, nat, nat list) fetcher \<Rightarrow> (nat, nat, nat, nat list) fetcher" where
  "patram_fetcher_step e rbuf =
     fetcher_step 44 ((!) rbuf) ((!) (p_patram (env_ram e))) (patram_addr (pixelrow (env_scroll e) (env_next_row e)))
       (bits 1 0) (\<lambda>mirror w. mirrored mirror (parts 16 4 w)) (store_wide 16 id)"

text \<open>
  The port that reads the tile entries belongs to the pattern fetcher during the preparation
  and to the pixel mixer, with its address \<open>tile_addr\<close>, otherwise.
\<close>

definition tile_engine_step :: "tile_engine_env \<Rightarrow> nat \<Rightarrow> bool \<Rightarrow> tile_engine_state \<Rightarrow> tile_engine_state" where
  "tile_engine_step e tile_addr prep s =
     (let rbuf = cp_dest (te_tilram s);
          tilram_done = sw_done (cp_sw (te_tilram s));
          patram_done = iw_done (ft_iw (te_patram s));
          patram = patram_fetcher_step e rbuf tilram_done (te_patram s)
      in \<lparr>te_prep = (if te_prep s then \<not> patram_done else prep),
          te_n_done = (if te_prep s then te_n_done s \<or> patram_done else False),
          te_done = te_n_done s,
          te_start = (if te_prep s then False else te_start s \<or> prep),
          te_tilram = tilram_fetcher_step e (te_start s, tilram_done) (te_tilram s),
          te_patram = (if te_prep s then patram
                       else patram\<lparr>ft_entry := read_step ((!) rbuf) tile_addr (ft_entry (te_patram s))\<rparr>)\<rparr>)"

section \<open>A preparation\<close>

definition te_idle :: "tile_engine_state \<Rightarrow> bool" where
  "te_idle s \<longleftrightarrow> \<not> te_prep s \<and> \<not> te_n_done s \<and> \<not> te_start s
     \<and> \<not> sw_sync (cp_sw (te_tilram s)) \<and> \<not> sw_wren (cp_sw (te_tilram s)) \<and> \<not> sw_done (cp_sw (te_tilram s))
     \<and> \<not> iw_sync (ft_iw (te_patram s)) \<and> \<not> iw_wren (ft_iw (te_patram s)) \<and> \<not> iw_done (ft_iw (te_patram s))
     \<and> length (cp_dest (te_tilram s)) = 44 \<and> length (ft_dest (te_patram s)) = 704"

text \<open>
  The swap signal comes from the slower video clock, so \<open>prep\<close> is high for two cycles; then
  \<open>j - 1\<close> cycles more, with any addresses of the pixel mixer.
\<close>

fun te_run :: "tile_engine_env \<Rightarrow> (nat \<Rightarrow> nat) \<Rightarrow> nat \<Rightarrow> tile_engine_state \<Rightarrow> tile_engine_state" where
  "te_run e pa 0 s = tile_engine_step e (pa 0) True s"
| "te_run e pa (Suc j) s = tile_engine_step e (pa (Suc j)) (j = 0) (te_run e pa j s)"

declare te_run.simps [simp del]

lemma copier_idle:
  assumes "\<not> sw_sync (cp_sw c)" "\<not> sw_wren (cp_sw c)"
  shows "cp_sw (tilram_fetcher_step e (False, b) c) = (if b then (cp_sw c)\<lparr>sw_done := False\<rparr> else cp_sw c)"
    and "cp_dest (tilram_fetcher_step e (x, b) c) = cp_dest c"
  using assms by (simp_all add: tilram_fetcher_step_def copier_step_def sync_writer_step_def)

lemma fetcher_idle:
  assumes "\<not> iw_sync (ft_iw f)" "\<not> iw_wren (ft_iw f)"
  shows "ft_iw (patram_fetcher_step e rbuf False f) = \<lparr>iw_sync = False, iw_done = False, iw_wren = False, iw_abuf = 0, iw_targ = 0\<rparr>"
    and "ft_dest (patram_fetcher_step e rbuf x f) = ft_dest f"
  using assms by (simp_all add: patram_fetcher_step_def fetcher_step_def indirect_sync_writer_step_def)

text \<open>The part of the state in which a copier is at rest.\<close>

definition patram_rests :: "nat list \<Rightarrow> tile_engine_state \<Rightarrow> bool" where
  "patram_rests d s \<longleftrightarrow> \<not> iw_sync (ft_iw (te_patram s)) \<and> \<not> iw_wren (ft_iw (te_patram s))
     \<and> \<not> iw_done (ft_iw (te_patram s)) \<and> ft_dest (te_patram s) = d"

definition tilram_rests :: "nat list \<Rightarrow> tile_engine_state \<Rightarrow> bool" where
  "tilram_rests d s \<longleftrightarrow> \<not> sw_sync (cp_sw (te_tilram s)) \<and> \<not> sw_wren (cp_sw (te_tilram s))
     \<and> \<not> sw_done (cp_sw (te_tilram s)) \<and> cp_dest (te_tilram s) = d"

lemma phase_tilram:
  assumes s: "te_idle s"
  shows "j \<le> 13 \<Longrightarrow> te_prep (te_run e pa (Suc j) s) \<and> \<not> te_n_done (te_run e pa (Suc j) s)
    \<and> \<not> te_done (te_run e pa (Suc j) s) \<and> \<not> te_start (te_run e pa (Suc j) s)
    \<and> patram_rests (ft_dest (te_patram s)) (te_run e pa (Suc j) s)
    \<and> te_tilram (te_run e pa (Suc j) s)
        = (tilram_fetcher_step e (False, False) ^^ j) (tilram_fetcher_step e (True, False) (te_tilram (te_run e pa 0 s)))"
proof (induction j)
  case 0
  show ?case
    using s by (simp add: te_run.simps tile_engine_step_def te_idle_def patram_rests_def Let_def copier_idle fetcher_idle)
next
  case (Suc j)
  let ?s = "te_run e pa (Suc j) s"
  have c: "\<not> sw_sync (cp_sw (te_tilram (te_run e pa 0 s)))" "\<not> sw_wren (cp_sw (te_tilram (te_run e pa 0 s)))"
    using s by (simp_all add: te_run.simps tile_engine_step_def te_idle_def Let_def copier_idle)
  have "\<not> sw_done (cp_sw (te_tilram ?s))"
    using Suc wide.copier_busy [OF c TrueI, where MAX_ADDR = 10 and n = 11 and j = j] by (simp add: tilram_fetcher_step_def)
  then show ?case
    using Suc by (simp add: te_run.simps(2) [of _ _ "Suc j"] tile_engine_step_def patram_rests_def Let_def fetcher_idle)
qed

lemma tilram_filled:
  fixes e :: tile_engine_env and pa :: "nat \<Rightarrow> nat"
  assumes s: "te_idle s"
  defines "t \<equiv> te_run e pa 14 s"
  shows "te_prep t \<and> \<not> te_n_done t \<and> \<not> te_done t \<and> \<not> te_start t \<and> patram_rests (ft_dest (te_patram s)) t
    \<and> \<not> sw_sync (cp_sw (te_tilram t)) \<and> \<not> sw_wren (cp_sw (te_tilram t)) \<and> sw_done (cp_sw (te_tilram t))
    \<and> cp_dest (te_tilram t) = tilram_rbuf (env_FG e) (env_scroll e) (env_next_row e) (env_ram e)"
proof -
  let ?c = "te_tilram (te_run e pa 0 s)"
  have c: "\<not> sw_sync (cp_sw ?c)" "\<not> sw_wren (cp_sw ?c)" "length (cp_dest ?c) = 4 * 11"
    using s by (simp_all add: te_run.simps tile_engine_step_def te_idle_def Let_def copier_idle)
  note p = phase_tilram [OF s, of 13 e pa, simplified]
  have "te_tilram t = (tilram_fetcher_step e (False, False) ^^ 13) (tilram_fetcher_step e (True, False) ?c)"
    using p by (simp add: t_def)
  from wide.copier_finished [OF c(1,2) TrueI _ _ _ this [unfolded tilram_fetcher_step_def], of 11]
  have "\<not> sw_sync (cp_sw (te_tilram t)) \<and> \<not> sw_wren (cp_sw (te_tilram t)) \<and> sw_done (cp_sw (te_tilram t))
    \<and> cp_dest (te_tilram t) = copied (store_wide 4 (parts 4 16))
        (\<lambda>i. p_tilram (env_ram e) ! tilram_addr (env_FG e) (env_scroll e) (env_next_row e) i) 11 (cp_dest ?c)"
    by simp
  moreover have "copied (store_wide 4 (parts 4 16))
        (\<lambda>i. p_tilram (env_ram e) ! tilram_addr (env_FG e) (env_scroll e) (env_next_row e) i) 11 (cp_dest ?c)
      = tilram_rbuf (env_FG e) (env_scroll e) (env_next_row e) (env_ram e)"
    using c(3) by (subst copied_wide_all) (simp_all add: tilram_rbuf_def wide_read_def comp_def)
  ultimately show ?thesis using p by (simp add: t_def)
qed

lemma phase_patram:
  fixes e :: tile_engine_env and pa :: "nat \<Rightarrow> nat"
  assumes s: "te_idle s"
  defines "R \<equiv> tilram_rbuf (env_FG e) (env_scroll e) (env_next_row e) (env_ram e)"
  shows "j \<le> 48 \<Longrightarrow> te_prep (te_run e pa (15 + j) s) \<and> \<not> te_n_done (te_run e pa (15 + j) s)
    \<and> \<not> te_done (te_run e pa (15 + j) s) \<and> \<not> te_start (te_run e pa (15 + j) s) \<and> tilram_rests R (te_run e pa (15 + j) s)
    \<and> te_patram (te_run e pa (15 + j) s)
        = (patram_fetcher_step e R False ^^ j) (patram_fetcher_step e R True (te_patram (te_run e pa 14 s)))"
proof (induction j)
  case 0
  have "te_run e pa 15 s = tile_engine_step e (pa 15) False (te_run e pa 14 s)"
    using te_run.simps(2) [of e pa 14 s] by simp
  with tilram_filled [OF s, of e pa] show ?case
    by (simp add: tile_engine_step_def Let_def R_def tilram_rests_def patram_rests_def copier_idle)
next
  case (Suc j)
  let ?s = "te_run e pa (15 + j) s" and ?f = "te_patram (te_run e pa 14 s)"
  have f: "\<not> iw_sync (ft_iw ?f)" "\<not> iw_wren (ft_iw ?f)"
    using tilram_filled [OF s, of e pa] by (simp_all add: patram_rests_def)
  have "\<not> iw_done (ft_iw (te_patram ?s))"
    using Suc wide.fetcher_busy [OF f TrueI, where N = 44 and n = 44 and j = j] by (simp add: patram_fetcher_step_def)
  moreover have "te_run e pa (15 + Suc j) s = tile_engine_step e (pa (15 + Suc j)) False ?s"
    using te_run.simps(2) [of e pa "15 + j" s] by simp
  ultimately show ?case
    using Suc by (simp add: tile_engine_step_def Let_def tilram_rests_def copier_idle)
qed

lemma mirrored_bits: "mirrored (bits 1 0 e) px = mirrored e px"
proof -
  have "bits 1 1 (bits 1 0 e) = bits 1 1 e"
    using mod_div_swap [of e 2 2] by (simp add: bits_def)
  moreover have "bits 0 0 (bits 1 0 e) = bits 0 0 e" by (simp add: bits_def mod_mod_cancel)
  ultimately show ?thesis by (simp only: mirrored_def)
qed

lemma patram_filled:
  fixes e :: tile_engine_env and pa :: "nat \<Rightarrow> nat"
  assumes s: "te_idle s"
  defines "t \<equiv> te_run e pa 63 s"
  shows "te_prep t \<and> \<not> te_n_done t \<and> \<not> te_done t \<and> \<not> te_start t
    \<and> tilram_rests (tilram_rbuf (env_FG e) (env_scroll e) (env_next_row e) (env_ram e)) t
    \<and> \<not> iw_sync (ft_iw (te_patram t)) \<and> \<not> iw_wren (ft_iw (te_patram t)) \<and> iw_done (ft_iw (te_patram t))
    \<and> ft_dest (te_patram t) = patram_rbuf (env_FG e) (env_scroll e) (env_next_row e) (env_ram e)"
proof -
  let ?R = "tilram_rbuf (env_FG e) (env_scroll e) (env_next_row e) (env_ram e)" and ?f = "te_patram (te_run e pa 14 s)"
  let ?slice = "patram_slice (pixelrow (env_scroll e) (env_next_row e)) (env_ram e)"
  note p = phase_patram [OF s, of 48 e pa, simplified]
  have f: "\<not> iw_sync (ft_iw ?f)" "\<not> iw_wren (ft_iw ?f)" "length (ft_dest ?f) = 16 * 44"
    using tilram_filled [OF s, of e pa] s by (simp_all add: patram_rests_def te_idle_def)
  have "te_patram t = (patram_fetcher_step e ?R False ^^ (44 + 4)) (patram_fetcher_step e ?R True ?f)"
    using p by (simp add: t_def)
  from wide.fetcher_finished [OF f(1,2) TrueI _ _ this [unfolded patram_fetcher_step_def], of 44]
  have run: "\<not> iw_sync (ft_iw (te_patram t)) \<and> \<not> iw_wren (ft_iw (te_patram t)) \<and> iw_done (ft_iw (te_patram t))
    \<and> ft_dest (te_patram t) = copied (store_wide 16 id) (\<lambda>i. ?slice (?R ! i)) 44 (ft_dest ?f)"
    by (simp add: fetched_def [abs_def] mirrored_bits [unfolded One_nat_def] patram_slice_def)
  have "copied (store_wide 16 id) (\<lambda>i. ?slice (?R ! i)) 44 (ft_dest ?f) = concat (map (\<lambda>i. ?slice (?R ! i)) [0..<44])"
    using f(3) by (subst copied_wide_all) (simp_all add: length_slice)
  also have "map (\<lambda>i. ?slice (?R ! i)) [0..<44] = map ?slice ?R"
    by (rule nth_equalityI) simp_all
  finally have "copied (store_wide 16 id) (\<lambda>i. ?slice (?R ! i)) 44 (ft_dest ?f)
      = patram_rbuf (env_FG e) (env_scroll e) (env_next_row e) (env_ram e)"
    unfolding patram_rbuf_def .
  with run have "\<not> iw_sync (ft_iw (te_patram t)) \<and> \<not> iw_wren (ft_iw (te_patram t)) \<and> iw_done (ft_iw (te_patram t))
      \<and> ft_dest (te_patram t) = patram_rbuf (env_FG e) (env_scroll e) (env_next_row e) (env_ram e)"
    by (simp only: simp_thms)
  then show ?thesis using p unfolding t_def by blast
qed

text \<open>C18. When \<open>prep\<close> is raised for two cycles on a tile engine at rest, the engine reports that it
  is done 65 cycles after the first of them and not before, whatever the pixel mixer asks meanwhile;
  its two buffers then are those of the line's tiles and their pixels, and it is at rest
  again.\<close>

theorem tile_engine_prepares:
  assumes s: "te_idle s"
  shows "(\<forall>j < 65. \<not> te_done (te_run e pa j s)) \<and> te_done (te_run e pa 65 s) \<and> te_idle (te_run e pa 65 s)
    \<and> cp_dest (te_tilram (te_run e pa 65 s)) = tilram_rbuf (env_FG e) (env_scroll e) (env_next_row e) (env_ram e)
    \<and> ft_dest (te_patram (te_run e pa 65 s)) = patram_rbuf (env_FG e) (env_scroll e) (env_next_row e) (env_ram e)"
proof -
  note t = patram_filled [OF s, of e pa]
  have 64: "te_run e pa 64 s = tile_engine_step e (pa 64) False (te_run e pa 63 s)"
    and 65: "te_run e pa 65 s = tile_engine_step e (pa 65) False (te_run e pa 64 s)"
    using te_run.simps(2) [of e pa 63 s] te_run.simps(2) [of e pa 64 s] by simp_all
  have t64: "\<not> te_prep (te_run e pa 64 s) \<and> te_n_done (te_run e pa 64 s) \<and> \<not> te_done (te_run e pa 64 s)
    \<and> \<not> te_start (te_run e pa 64 s)
    \<and> tilram_rests (tilram_rbuf (env_FG e) (env_scroll e) (env_next_row e) (env_ram e)) (te_run e pa 64 s)
    \<and> patram_rests (patram_rbuf (env_FG e) (env_scroll e) (env_next_row e) (env_ram e)) (te_run e pa 64 s)"
    using t unfolding 64 by (simp add: tile_engine_step_def Let_def tilram_rests_def patram_rests_def copier_idle fetcher_idle)
  have "\<not> te_done (te_run e pa j s)" if "j < 65" for j
  proof -
    have "j = 0 \<or> (0 < j \<and> j \<le> 14) \<or> (15 \<le> j \<and> j \<le> 63) \<or> j = 64" using that by arith
    then consider "j = 0" | "0 < j" "j \<le> 14" | "15 \<le> j" "j \<le> 63" | "j = 64" by blast
    then show ?thesis
    proof cases
      case 1
      then show ?thesis using s by (simp add: te_run.simps tile_engine_step_def te_idle_def Let_def)
    next
      case 2
      then show ?thesis using phase_tilram [OF s, of "j - 1" e pa] by simp
    next
      case 3
      then show ?thesis using phase_patram [OF s, of "j - 15" e pa] by simp
    next
      case 4
      then show ?thesis using t64 by simp
    qed
  qed
  moreover have "length (patram_rbuf (env_FG e) (env_scroll e) (env_next_row e) (env_ram e)) = 704"
    by (simp add: patram_rbuf_def length_concat comp_def length_slice sum_list_triv)
  ultimately show ?thesis
    using t64 unfolding 65
    by (simp add: tile_engine_step_def Let_def te_idle_def tilram_rests_def patram_rests_def copier_idle fetcher_idle)
qed

definition demo_te :: tile_engine_state where
  "demo_te = \<lparr>te_prep = False, te_n_done = False, te_done = True, te_start = False,
     te_tilram = \<lparr>cp_sw = \<lparr>sw_sync = False, sw_done = False, sw_from = 3, sw_to = 3, sw_to_buf = 3, sw_wren = False\<rparr>,
                  cp_port = \<lparr>rp_addr = 0, rp_q = 0\<rparr>, cp_dest = replicate 44 9\<rparr>,
     te_patram = \<lparr>ft_iw = \<lparr>iw_sync = False, iw_done = False, iw_wren = False, iw_abuf = 3, iw_targ = 3\<rparr>,
                  ft_entry = \<lparr>rp_addr = 0, rp_q = 0\<rparr>, ft_port = \<lparr>rp_addr = 0, rp_q = 0\<rparr>, ft_buf1 = 0, ft_buf2 = 0,
                  ft_dest = replicate 704 9\<rparr>\<rparr>"

definition demo_env :: tile_engine_env where
  "demo_env = \<lparr>env_FG = 1, env_scroll = 0x00050003, env_next_row = 17, env_ram = image_vram (zeros VRAM_SIZE)\<rparr>"

theorem tile_engine_prepares_witness:
  "\<not> te_done (te_run demo_env (\<lambda>j. j) 64 demo_te) \<and> te_done (te_run demo_env (\<lambda>j. j) 65 demo_te)
    \<and> cp_dest (te_tilram (te_run demo_env (\<lambda>j. j) 65 demo_te))
        = tilram_rbuf 1 0x00050003 17 (image_vram (zeros VRAM_SIZE))"
  using tile_engine_prepares [of demo_te demo_env "\<lambda>j. j"] by (simp add: te_idle_def demo_te_def demo_env_def)

end
