(* ===== verification/PpuControl_Props.thy ===== *)
theory PpuControl_Props
  imports PpuLib_Props
begin

text \<open>
  The properties of the graphics library's main controls: taking and giving up the device,
  registers, updates, raw writes, and the aborts that its preconditions are checked by.
\<close>

section \<open>Owning the device\<close>

text \<open>Enabling the PPU from a process that does not hold it succeeds exactly
  when no process does, and then the process owns the device, which is otherwise as it
  was; else it returns -1 and the process can try again.\<close>

theorem ppu_enable_spec:
  assumes "ppu_fd p = -1" and "ppu_inv (drv (os p))" and "\<not> corrupted (os p)" and "alloc_ok (os p)"
  shows "if ppu_lock (drv (os p)) = 0
    then \<exists>p'. ppu_enable host_sys p = Done (0, p') \<and> holds_ppu (host_look (os p)) p'
    else \<exists>p'. ppu_enable host_sys p = Done (-1, p') \<and> ppu_fd p' = -1
      \<and> host_look (os p') = host_look (os p) \<and> ppu_lock (drv (os p')) = ppu_lock (drv (os p))"
proof -
  let ?d = "drv (tick (os p))"
  have inv: "ppu_inv ?d" and lock: "ppu_lock ?d = ppu_lock (drv (os p))"
    and look: "host_look (tick (os p)) = host_look (os p)"
    and rest: "corrupted (tick (os p)) = corrupted (os p)" "alloc_ok (tick (os p)) = alloc_ok (os p)"
    using assms(2) dma_complete_inv
    by (auto simp: tick_def host_look_def alloc_ok_def split: list.split)
  show ?thesis
  proof (cases "ppu_lock (drv (os p)) = 0")
    case True
    have "ppu_inv (?d\<lparr>ppu_lock := 1\<rparr>)" using inv by (auto simp: ppu_inv_def)
    then show ?thesis
      using True assms look rest lock
      by (simp add: ppu_enable_def host_sys_def host_open_def ppu_open_def Let_def
          holds_ppu_def host_owns_def alloc_ok_def host_look_def kvram_def)
  next
    case False
    with inv lock have "ppu_lock ?d = 1" by (auto simp: ppu_inv_def)
    then have same: "?d\<lparr>ppu_lock := 1\<rparr> = ?d" by (cases ?d) simp
    show ?thesis
      using False assms look lock
      by (simp add: ppu_enable_def host_sys_def host_open_def ppu_open_def Let_def same)
  qed
qed

definition demo_idle_proc :: "host proc" where
  "demo_idle_proc = \<lparr>ppu_fd = -1, os = (os demo_proc)\<lparr>drv := demo_probed, open_fd := None\<rparr>\<rparr>"

theorem ppu_enable_spec_witness:
  "\<exists>p'. ppu_enable host_sys demo_idle_proc = Done (0, p') \<and> ppu_fd p' = 3"
proof -
  have "ppu_inv demo_probed" by (rule ppu_module.inv_init [OF demo_probed_init])
  then have "\<exists>p'. ppu_enable host_sys demo_idle_proc = Done (0, p')
      \<and> holds_ppu (host_look (os demo_idle_proc)) p'"
    using ppu_enable_spec [of demo_idle_proc]
    by (simp add: demo_idle_proc_def demo_proc_def alloc_ok_def demo_probed_def)
  then show ?thesis by (auto simp: holds_ppu_def host_owns_def)
qed

text \<open>C34. Disabling the PPU hangs exactly when the release of the driver never
  returns, that is when the device does not answer; otherwise it leaves the process without
  the device, the device free, and VRAM and the display registers reset.\<close>

theorem ppu_disable_spec:
  assumes "holds_ppu v p"
  shows "if \<exists>x. ppu_release (sched (os p)) (drv (os p)) = Returns x
    then \<exists>p'. ppu_disable host_sys p = Done p' \<and> ppu_fd p' = -1 \<and> open_fd (os p') = None
      \<and> ppu_inv (drv (os p')) \<and> ppu_lock (drv (os p')) = 0
      \<and> host_look (os p') = \<lparr>v_vram = zeros VRAM_SIZE, v_bgscroll = 0, v_fgscroll = 0, v_bgcolor = 0,
          v_enable = 0, v_live = v_live v\<rparr>
    else ppu_disable host_sys p = Hangs"
proof -
  have own: "ppu_fd p = 3" "open_fd (os p) = Some 3" "ppu_inv (drv (os p))" "ppu_lock (drv (os p)) = 1"
    and v: "v = host_look (os p)"
    using assms by (auto simp: holds_ppu_def host_owns_def)
  note rel = ppu_release_owned [OF own(3,4), of "sched (os p)"]
  have look: "host_look (w\<lparr>drv := ppu_released (drv (os p)), sched := es, open_fd := None\<rparr>)
      = \<lparr>v_vram = zeros VRAM_SIZE, v_bgscroll = 0, v_fgscroll = 0, v_bgcolor = 0,
          v_enable = 0, v_live = live w\<rparr>" for w es
    using kvram_released [OF own(3)] by (simp add: host_look_def) (simp add: ppu_released_def)
  have free: "ppu_lock (ppu_released (drv (os p))) = 0" by (simp add: ppu_released_def)
  from rel have "ppu_release (sched (os p)) (drv (os p)) = Spins
      \<or> (\<exists>es. ppu_release (sched (os p)) (drv (os p)) = Returns (0, ppu_released (drv (os p)), es))"
    by (auto split: option.splits list.splits)
  then show ?thesis
    using own look free ppu_inv_released [OF own(3)]
    by (auto simp: ppu_disable_def host_sys_def host_close_def v) (simp_all add: host_look_def)
qed

theorem ppu_disable_spec_witness:
  "ppu_disable host_sys demo_busy_proc = Hangs"
proof -
  have "ppu_lock demo_two_frames = 1" by (simp add: demo_two_frames_def)
  then have "\<not> (\<exists>x. ppu_release [] demo_two_frames = Returns x)"
    by (simp add: ppu_release_owned [OF demo_two_inv] first_spin_rest_def)
  then show ?thesis
    using ppu_disable_spec [OF demo_busy(1)] by (simp add: demo_busy_proc_def demo_proc_def)
qed

section \<open>Frames and registers\<close>

text \<open>An update that succeeds hands the address of VRAM to the device and
  changes nothing the process sees; until the device answers, a further update returns -1
  and changes nothing.\<close>

theorem ppu_update_frame:
  assumes p: "holds_ppu v p" "host_ready (os p)"
  shows "\<exists>p'. ppu_update host_sys p = Done (0, p') \<and> holds_ppu v p'
    \<and> dma_pending (dev (drv (os p')))
    \<and> hd (bus (dev (drv (os p')))) = DmaStart (vram_addr_p (drv (os p')))
    \<and> (\<not> host_ready (os p') \<longrightarrow> (\<exists>p''. ppu_update host_sys p' = Done (-1, p'') \<and> holds_ppu v p''))"
proof -
  have own: "host_owns (ppu_fd p) (os p)" using p(1) by (simp add: holds_ppu_def)
  note t = tick_facts [OF own]
  have inv: "ppu_inv (drv (tick (os p)))" and fd: "open_fd (os p) = Some (ppu_fd p)" "ppu_fd p \<noteq> -1"
    using t(1) own by (auto simp: host_owns_def)
  have up: "ppu_ioctl IOCTL_PPU_UPDATE 0 (drv (tick (os p))) = (0, (drv (tick (os p)))\<lparr>vram_lock := 1,
      dev := (dev (drv (tick (os p))))\<lparr>dma_pending := True,
        bus := DmaStart (vram_addr_p (drv (tick (os p)))) # bus (dev (drv (tick (os p))))\<rparr>\<rparr>)"
    using t(3) p(2) by (simp add: ppu_ioctl_eq [OF inv])
  obtain p' where r: "ppu_update host_sys p = Done (0, p')" "holds_ppu v p'"
    using game.update_run(1) [OF p [folded sees_holds]] unfolding sees_holds by blast
  moreover have "dma_pending (dev (drv (os p'))) \<and> hd (bus (dev (drv (os p')))) = DmaStart (vram_addr_p (drv (os p')))"
    using r(1) fd by (auto simp: ppu_update_def do_ioctl_def host_sys_def host_ioctl_def up
        errno_result_def Let_def)
  moreover have "\<exists>p''. ppu_update host_sys p' = Done (-1, p'') \<and> holds_ppu v p''" if "\<not> host_ready (os p')"
    using game.update_run(2) [OF r(2) [folded sees_holds] that] unfolding sees_holds by blast
  ultimately show ?thesis by blast
qed

theorem ppu_update_frame_witness:
  "\<exists>p'. ppu_update host_sys demo_proc = Done (0, p') \<and> dma_pending (dev (drv (os p')))"
  using ppu_update_frame [OF demo_holds demo_ready] by blast

text \<open>C35. While no transfer is pending, setting the background colour stores its
  low 24 bits, setting the layer mask its low 3 bits, and setting the scroll of a tile layer
  a word whose halves are the two distances when they are in the documented range; nothing
  else changes.\<close>

theorem ppu_registers_spec:
  assumes p: "holds_ppu v p" "host_ready (os p)" and layer: "layer \<noteq> LAYER_SPR"
    and range: "unat sx \<le> 511" "unat sy \<le> 511"
  shows "(\<exists>p'. ppu_set_bgcolor host_sys col p = Done (0, p')
      \<and> holds_ppu (v\<lparr>v_bgcolor := take_bit 24 col\<rparr>) p')
    \<and> (\<exists>p'. ppu_set_layer_enable host_sys mask_bits p = Done (0, p')
      \<and> holds_ppu (v\<lparr>v_enable := take_bit 3 mask_bits\<rparr>) p')
    \<and> (\<exists>p' reg. ppu_set_scroll host_sys layer sx sy p = Done (0, p')
      \<and> holds_ppu (if layer = LAYER_FG then v\<lparr>v_fgscroll := reg\<rparr> else v\<lparr>v_bgscroll := reg\<rparr>) p'
      \<and> unat reg mod 2 ^ 16 = unat sx \<and> unat reg div 2 ^ 16 = unat sy)"
proof -
  have m: "col AND COLOR_24MASK = take_bit 24 col" "mask_bits AND LAYER_ENMASK = take_bit 3 mask_bits"
    by (simp_all add: take_bit_eq_mask mask_eq_exp_minus_1)
  have reg: "unat (push_bit 16 sy OR sx) = unat sy * 2 ^ 16 + unat sx"
    using range by (intro unat_or_push) simp_all
  show ?thesis
    using game.bgcolor_run(1) [OF p [folded sees_holds], of col]
      game.enable_run(1) [OF p [folded sees_holds], of mask_bits]
      game.scroll_run(1) [OF p(1) [folded sees_holds] layer p(2), of sx sy]
    unfolding sees_holds m scroll_view_def using reg range by fastforce
qed

theorem ppu_registers_spec_witness:
  "\<exists>p'. ppu_set_bgcolor host_sys 0xFF123456 demo_proc = Done (0, p')
    \<and> v_bgcolor (host_look (os p')) = 0x123456"
proof -
  have "take_bit 24 (0xFF123456 :: u32) = 0x123456" by simp
  with ppu_registers_spec [OF demo_holds demo_ready, of LAYER_FG 0 0 "0xFF123456" 0]
  show ?thesis by (auto simp: holds_ppu_def)
qed

section \<open>Raw writes and arguments out of range\<close>

text \<open>The handler asks for the bytes of a buffer once, and a fault reaches the caller.\<close>

lemma ppu_write_vram_cong:
  assumes "buf (unat n) = buf' (unat n)"
  shows "ppu_write_vram host_sys buf n off p = ppu_write_vram host_sys buf' n off p"
proof -
  have "ppu_write buf n (ucast off) s = ppu_write buf' n (ucast off) s" for s
    by (simp only: ppu_write_nat [OF vfs_pos_off] assms)
  then show ?thesis by (simp add: ppu_write_vram_def do_pwrite_def host_sys_def host_pwrite_def)
qed

lemma vram_busy_or_fault:
  assumes p: "holds_ppu v p" and ok: "ubuf_ok buf" and fits: "unat off + unat n \<le> VRAM_SIZE"
    and fault: "snd (buf (unat n)) \<noteq> 0"
  shows "if host_ready (os p)
    then ppu_write_vram host_sys buf n off p = Abort (AssertFailed ''errno == EINVAL || errno == EBUSY'')
    else \<exists>p'. ppu_write_vram host_sys buf n off p = Done (-1, p') \<and> holds_ppu v p'"
proof -
  have own: "host_owns (ppu_fd p) (os p)" using p by (simp add: holds_ppu_def)
  note t = tick_facts [OF own]
  let ?s = "drv (tick (os p))"
  have inv: "ppu_inv ?s" and fd: "open_fd (os p) = Some (ppu_fd p)" "ppu_fd p \<noteq> -1"
    using t(1) own by (simp_all add: host_owns_def)
  have small: "unat off < 2 ^ 31" "unat n < 2 ^ 31" using fits by simp_all
  then have sign: "sint off = int (unat off)" "sint n = int (unat n)" by (simp_all add: sint_len)
  have ne: "- 1 \<noteq> uint n" using uint_ge_0 [of n] by linarith
  have "length (fst (buf (unat n))) \<le> unat n" using ok by (simp add: ubuf_ok_def)
  with inv fits have room: "vram_addr_v ?s + unat off + length (fst (buf (unat n))) \<le> length (vram_block ?s)"
    by (auto simp: ppu_inv_def)
  have lock: "vram_lock ?s = 1 \<longleftrightarrow> \<not> host_ready (os p)" using inv t(3) by (auto simp: ppu_inv_def)
  have ns: "\<not> VRAM_SIZE < unat (ucast off :: u64) + unat n" using fits by simp
  note w = ppu_write_nat [OF vfs_pos_off, of buf n off ?s, unfolded if_not_P [OF ns] lock]
  have run: "host_pwrite (ppu_fd p) buf n off (os p) = (case ppu_write buf n (ucast off) ?s of
              Returns (r, off', d) \<Rightarrow> (errno_result r, (tick (os p))\<lparr>drv := d\<rparr>)
            | Spins \<Rightarrow> ((-1, 0), tick (os p))
            | Corrupts \<Rightarrow> ((-1, 0), (tick (os p))\<lparr>corrupted := True\<rparr>))"
    using fd(1) by (simp add: host_pwrite_def Let_def sign)
  show ?thesis
  proof (cases "host_ready (os p)")
    case True
    with w fault room obtain d where "ppu_write buf n (ucast off) ?s = Returns (- EFAULT, ucast off, d)"
      by (auto simp: mem_write_def)
    with run have "host_pwrite (ppu_fd p) buf n off (os p) = ((-1, EFAULT), (tick (os p))\<lparr>drv := d\<rparr>)"
      by (simp add: errno_result_def)
    then show ?thesis using True fd(2) by (simp add: ppu_write_vram_def do_pwrite_def host_sys_def sign ne)
  next
    case False
    with w have "ppu_write buf n (ucast off) ?s = Returns (- EBUSY, ucast off, ?s)" by simp
    with run have "host_pwrite (ppu_fd p) buf n off (os p) = ((-1, EBUSY), tick (os p))"
      by (simp add: errno_result_def)
    then show ?thesis
      using False fd(2) t(1,2) p by (simp add: ppu_write_vram_def do_pwrite_def host_sys_def sign ne holds_ppu_def)
  qed
qed

lemma vram_write_held:
  assumes p: "holds_ppu v p" and ok: "ubuf_ok buf"
  shows "if unat off + unat n \<le> VRAM_SIZE
    then if \<not> host_ready (os p)
      then \<exists>p'. ppu_write_vram host_sys buf n off p = Done (-1, p') \<and> holds_ppu v p'
      else if snd (buf (unat n)) = 0
      then \<exists>p'. ppu_write_vram host_sys buf n off p = Done (0, p')
        \<and> holds_ppu (put_vram (unat off) (fst (buf (unat n))) v) p'
      else ppu_write_vram host_sys buf n off p = Abort (AssertFailed ''errno == EINVAL || errno == EBUSY'')
    else if n = -1 then \<exists>p'. ppu_write_vram host_sys buf n off p = Done (0, p') \<and> holds_ppu v p'
    else ppu_write_vram host_sys buf n off p
      = Abort (NoWayMsg (Some ''PPU vram write goes out of VRAM bounds!''))"
proof (cases "unat off + unat n \<le> VRAM_SIZE")
  case True
  let ?bs = "fst (buf (unat n))"
  show ?thesis
  proof (cases "snd (buf (unat n)) = 0")
    case readable: True
    define b where "b k = (take k ?bs, 0 :: nat)" for k
    have l: "length ?bs = unat n" using ok readable by (simp add: ubuf_ok_def)
    have b: "user_readable b ?bs" "buf (unat n) = b (unat n)"
      using l readable by (simp_all add: user_readable_def b_def prod_eq_iff)
    have fits: "unat off + length ?bs \<le> VRAM_SIZE" using True l by simp
    show ?thesis
      using True readable game.vram_run [OF p [folded sees_holds] b(1) l fits]
      unfolding sees_holds ppu_write_vram_cong [of buf n b off p, OF b(2)]
      by (cases "host_ready (os p)") auto
  next
    case fault: False
    with vram_busy_or_fault [OF p ok True] True show ?thesis by simp
  qed
next
  case False
  then have out: "VRAM_SIZE < unat off + unat n" by simp
  show ?thesis
  proof (cases "n = -1")
    case True
    have own: "open_fd (os p) = Some (ppu_fd p)" "ppu_fd p \<noteq> -1"
      using p by (auto simp: holds_ppu_def host_owns_def)
    have "sint (-1 :: u32) = -1" by simp
    then show ?thesis
      using True False own p
      by (auto simp: ppu_write_vram_def do_pwrite_def host_sys_def host_pwrite_def Let_def)
  next
    case n: False
    have "sint n \<noteq> -1"
    proof
      assume "sint n = -1"
      then have "sint n = sint (-1 :: u32)" by simp
      then have "n = -1" by (rule signed_word_eqI)
      with n show False by simp
    qed
    from game.vram_out_run [OF p [folded sees_holds] out this] show ?thesis using False n by simp
  qed
qed

text \<open>C36. A process without the device aborts.  A raw write inside VRAM
  returns -1 without an effect while a transfer is pending; otherwise it replaces exactly its
  bytes and returns 0 when the buffer is readable, and aborts by the assertion on \<open>errno\<close> when it
  is not.  One that leaves VRAM aborts with a message, except that with a length of all ones it
  returns 0 without having written.\<close>

theorem ppu_write_vram_spec:
  assumes p: "ppu_fd p = -1 \<or> holds_ppu v p" and ok: "ubuf_ok buf"
  shows "if ppu_fd p = -1
    then ppu_write_vram host_sys buf n off p
      = Abort (NoWayMsg (Some ''PPU not enabled or owned by this process!''))
    else if unat off + unat n \<le> VRAM_SIZE
    then if \<not> host_ready (os p)
      then \<exists>p'. ppu_write_vram host_sys buf n off p = Done (-1, p') \<and> holds_ppu v p'
      else if snd (buf (unat n)) = 0
      then \<exists>p'. ppu_write_vram host_sys buf n off p = Done (0, p')
        \<and> holds_ppu (put_vram (unat off) (fst (buf (unat n))) v) p'
      else ppu_write_vram host_sys buf n off p = Abort (AssertFailed ''errno == EINVAL || errno == EBUSY'')
    else if n = -1 then \<exists>p'. ppu_write_vram host_sys buf n off p = Done (0, p') \<and> holds_ppu v p'
    else ppu_write_vram host_sys buf n off p
      = Abort (NoWayMsg (Some ''PPU vram write goes out of VRAM bounds!''))"
proof (cases "ppu_fd p = -1")
  case True
  then show ?thesis by (simp add: ppu_write_vram_def)
next
  case False
  with p have "holds_ppu v p" by simp
  from vram_write_held [OF this ok] False show ?thesis by (simp only: if_False)
qed

theorem ppu_write_vram_spec_witness:
  "(\<exists>p'. ppu_write_vram host_sys (user_mem [1, 2]) 2 0xD13E demo_proc = Done (0, p')
      \<and> holds_ppu (put_vram 0xD13E [1, 2] (host_look (os demo_proc))) p')
    \<and> ppu_write_vram host_sys (user_mem [1]) 2 0xD13E demo_proc
      = Abort (AssertFailed ''errno == EINVAL || errno == EBUSY'')
    \<and> ppu_write_vram host_sys (user_mem [1, 2]) 2 0xD13E (demo_proc\<lparr>ppu_fd := -1\<rparr>)
      = Abort (NoWayMsg (Some ''PPU not enabled or owned by this process!''))"
proof -
  have "ppu_fd demo_proc \<noteq> -1" by (simp add: demo_proc_def)
  moreover have "unat (2 :: u32) = 2" "user_mem [1, 2] 2 = ([1, 2], 0)" "user_mem [1] 2 = ([1, 0], 1)"
    by (simp_all add: user_mem_def)
  ultimately show ?thesis
    using ppu_write_vram_spec [OF disjI2 [OF demo_holds], of "user_mem [1, 2]" 2 "0xD13E"]
      ppu_write_vram_spec [OF disjI2 [OF demo_holds], of "user_mem [1]" 2 "0xD13E"]
      ppu_write_vram_spec [of "demo_proc\<lparr>ppu_fd := -1\<rparr>" _ "user_mem [1, 2]" 2 "0xD13E"] demo_ready
    by simp
qed

text \<open>Every write function checks its arguments before it makes any
  system call: whatever the system is, a call without the device, with a position, layer,
  address or palette out of range, or with a NULL array aborts with a message.\<close>

theorem write_bad_args_abort:
  "(ppu_fd p = -1 \<or> 64 \<le> x_i \<or> 64 \<le> y_i \<or> layer \<notin> {LAYER_BG, LAYER_FG} \<or> tiles = None \<longrightarrow>
      (\<exists>msg. ppu_write_tiles_horizontal sys tiles len layer x_i y_i count p = Abort (NoWayMsg (Some msg))))
    \<and> (ppu_fd p = -1 \<or> 64 \<le> x_i \<or> 64 \<le> y_i \<or> tiles = None \<longrightarrow>
      (\<exists>msg. ppu_write_tiles_vertical sys tiles len layer x_i y_i count p = Abort (NoWayMsg (Some msg))))
    \<and> (ppu_fd p = -1 \<or> pattern = None \<or> PATTERN_MAXADDR < addr \<or> width = 0 \<or> height = 0 \<longrightarrow>
      (\<exists>msg. ppu_write_pattern sys pattern width height addr p = Abort (NoWayMsg (Some msg))))
    \<and> (ppu_fd p = -1 \<or> palette = None \<or> palettes_of layer \<le> unat k \<longrightarrow>
      (\<exists>msg. ppu_write_palette sys palette layer k p = Abort (NoWayMsg (Some msg))))"
  by (intro conjI impI)
    (auto simp: ppu_write_tiles_horizontal_def ppu_write_tiles_vertical_def ppu_write_pattern_def
      ppu_write_palette_def palettes_of_def word_le_nat_alt split: if_splits)

theorem write_bad_args_abort_witness:
  "\<exists>msg. ppu_write_tiles_horizontal host_sys (Some [5]) 1 LAYER_SPR 0 0 1 demo_proc
     = Abort (NoWayMsg (Some msg))"
  using write_bad_args_abort [of demo_proc 0 0 LAYER_SPR "Some [5]" host_sys 1 1] by simp

end
