(* ===== verification/PpuSession.thy ===== *)
theory PpuSession
  imports PpuLib_Props
begin

text \<open>
  Whole sessions: any sequence of calls that a game makes of the graphics library, on the
  model of the kernel module, and what such a program cannot do whatever its arguments are.
\<close>

section \<open>Calls\<close>

datatype ppu_lib_call =
    LEnable
  | LDisable
  | LUpdate
  | LWriteVram "u8 list" u32 u32
  | LTilesHorizontal "tile_t list option" u32 layer_e u32 u32 u32
  | LTilesVertical "tile_t list option" u32 layer_e u32 u32 u32
  | LPattern "pattern_t list option" u32 u32 pattern_addr_t
  | LPalette "palette_t option" layer_e u32
  | LSprites "sprite_t list option" u32 u32
  | LBgcolor u32
  | LScroll layer_e u32 u32
  | LLayerEnable u32

fun lib_exec :: "'w ppu_sys \<Rightarrow> ppu_lib_call \<Rightarrow> 'w proc \<Rightarrow> (int \<times> 'w proc) outcome" where
  "lib_exec sys LEnable p = PpuLib.ppu_enable sys p"
| "lib_exec sys LDisable p = and_then (ppu_disable sys p) (\<lambda>p. Done (0, p))"
| "lib_exec sys LUpdate p = ppu_update sys p"
| "lib_exec sys (LWriteVram bs n off) p = ppu_write_vram sys (user_mem bs) n off p"
| "lib_exec sys (LTilesHorizontal tiles len layer x y count) p =
     ppu_write_tiles_horizontal sys tiles len layer x y count p"
| "lib_exec sys (LTilesVertical tiles len layer x y count) p =
     ppu_write_tiles_vertical sys tiles len layer x y count p"
| "lib_exec sys (LPattern pts width height addr) p = ppu_write_pattern sys pts width height addr p"
| "lib_exec sys (LPalette pal layer k) p = ppu_write_palette sys pal layer k p"
| "lib_exec sys (LSprites sprites len k) p = ppu_write_sprites sys sprites len k p"
| "lib_exec sys (LBgcolor col) p = ppu_set_bgcolor sys col p"
| "lib_exec sys (LScroll layer x y) p = ppu_set_scroll sys layer x y p"
| "lib_exec sys (LLayerEnable m) p = ppu_set_layer_enable sys m p"

text \<open>A program, with the list of what its calls have returned.\<close>

fun lib_run :: "'w ppu_sys \<Rightarrow> ppu_lib_call list \<Rightarrow> 'w proc \<Rightarrow> (int list \<times> 'w proc) outcome" where
  "lib_run sys [] p = Done ([], p)"
| "lib_run sys (c # cs) p =
     and_then (lib_exec sys c p) (\<lambda>(r, p). and_then (lib_run sys cs p) (\<lambda>(rs, p). Done (r # rs, p)))"

text \<open>The arrays that are passed are as long as the arguments say.\<close>

fun arrays_fit :: "ppu_lib_call \<Rightarrow> bool" where
  "arrays_fit (LWriteVram bs n off) \<longleftrightarrow> unat n \<le> length bs"
| "arrays_fit (LTilesHorizontal tiles len layer x y count) \<longleftrightarrow>
     (\<forall>ts. tiles = Some ts \<longrightarrow> min (clamp64 len) (clamp64 count) \<le> length ts)"
| "arrays_fit (LTilesVertical tiles len layer x y count) \<longleftrightarrow>
     (\<forall>ts. tiles = Some ts \<longrightarrow> min (clamp64 len) (clamp64 count) \<le> length ts)"
| "arrays_fit (LPattern pts width height addr) \<longleftrightarrow>
     (\<forall>ps. pts = Some ps \<longrightarrow> list_all pattern_ok ps \<and> unat width * unat height \<le> length ps
        \<and> unat width * unat height \<le> 2 ^ 32)"
| "arrays_fit (LPalette pal layer k) \<longleftrightarrow> (\<forall>q. pal = Some q \<longrightarrow> palette_ok q)"
| "arrays_fit _ \<longleftrightarrow> True"

fun writes_sprites :: "ppu_lib_call \<Rightarrow> bool" where
  "writes_sprites (LSprites sprites len k) \<longleftrightarrow> True"
| "writes_sprites _ \<longleftrightarrow> False"

section \<open>A process that holds the device\<close>

context ppu_host
begin

definition owner :: "'w proc \<Rightarrow> bool" where
  "owner p \<longleftrightarrow> (\<exists>v. sees v p)"

definition answered :: "(int \<times> 'w proc) outcome \<Rightarrow> bool" where
  "answered m \<longleftrightarrow> (\<exists>msg. m = Abort (NoWayMsg (Some msg))) \<or> (\<exists>r p. m = Done (r, p) \<and> r \<in> {0, -1} \<and> owner p)"

lemma answered_abort [intro]: "answered (Abort (NoWayMsg (Some msg)))"
  by (simp add: answered_def)

lemma answered_either:
  assumes "ready (os p) \<Longrightarrow> \<exists>p'. m = Done (0, p') \<and> ppu_fd p' = ppu_fd p \<and> ready (os p') \<and> sees v1 p'"
    and "\<not> ready (os p) \<Longrightarrow> \<exists>p'. m = Done (-1, p') \<and> ppu_fd p' = ppu_fd p \<and> sees v2 p'"
  shows "answered m"
  using assms by (cases "ready (os p)") (auto simp: answered_def owner_def)

lemma no_memory:
  "fst (do_malloc sys k p) = None \<Longrightarrow> \<exists>p'. do_malloc sys k p = (None, p')"
  by (metis prod.collapse)

lemma tiles_memory:
  fixes count :: u32
  defines "c \<equiv> if count > 64 then 64 else count"
  shows "unat (TILEDATA_BSIZE * c) = 2 * clamp64 count"
  using unat_tile_bytes [OF clamp_word_le, of count]
  by (simp add: c_def clamp_word mult.commute)

text \<open>Both tile writes check their arguments, have nothing to do, run out of memory or write.\<close>

lemma tiles_answered:
  assumes "sees v p" and "\<not> good \<Longrightarrow> answered m"
    and "good \<Longrightarrow> count = 0 \<or> len = 0 \<Longrightarrow> m = Done (0, p)"
    and "\<And>p'. good \<Longrightarrow> count \<noteq> 0 \<Longrightarrow> len \<noteq> 0 \<Longrightarrow> do_malloc sys (2 * clamp64 count) p = (None, p') \<Longrightarrow> answered m"
    and "good \<Longrightarrow> count \<noteq> 0 \<Longrightarrow> len \<noteq> 0 \<Longrightarrow> fst (do_malloc sys (2 * clamp64 count) p) \<noteq> None \<Longrightarrow> answered m"
  shows "answered m"
proof (cases "good \<and> (count = 0 \<or> len = 0)")
  case True
  then show ?thesis using assms(1,3) by (auto simp: answered_def owner_def)
next
  case False
  then show ?thesis using assms(2,4,5) no_memory by blast
qed

lemma horizontal_answered:
  assumes s: "sees v p" and fit: "arrays_fit (LTilesHorizontal tiles len layer x y count)"
  shows "answered (ppu_write_tiles_horizontal sys tiles len layer x y count p)"
proof (rule tiles_answered [OF s, where count = count and len = len
    and good = "x < 64 \<and> y < 64 \<and> (layer = LAYER_BG \<or> layer = LAYER_FG) \<and> tiles \<noteq> None"])
  assume g: "x < 64 \<and> y < 64 \<and> (layer = LAYER_BG \<or> layer = LAYER_FG) \<and> tiles \<noteq> None"
    and some: "count \<noteq> 0" "len \<noteq> 0" and mem: "fst (do_malloc sys (2 * clamp64 count) p) \<noteq> None"
  then obtain ts where ts: "tiles = Some ts" "min (clamp64 len) (clamp64 count) \<le> length ts" using fit by auto
  have a: "x < 64" "y < 64" "layer = LAYER_BG \<or> layer = LAYER_FG" using g by auto
  show "answered (ppu_write_tiles_horizontal sys tiles len layer x y count p)"
    unfolding ts(1) by (rule answered_either [OF horizontal [OF s a some ts(2) mem]])
qed (use sees_fd [OF s] tiles_memory [of count] in
    \<open>auto simp: ppu_write_tiles_horizontal_def Let_def not_less [symmetric]\<close>)

lemma vertical_answered:
  assumes s: "sees v p" and fit: "arrays_fit (LTilesVertical tiles len layer x y count)"
  shows "answered (ppu_write_tiles_vertical sys tiles len layer x y count p)"
proof (rule tiles_answered [OF s, where count = count and len = len
    and good = "x < 64 \<and> y < 64 \<and> tiles \<noteq> None"])
  assume g: "x < 64 \<and> y < 64 \<and> tiles \<noteq> None"
    and some: "count \<noteq> 0" "len \<noteq> 0" and mem: "fst (do_malloc sys (2 * clamp64 count) p) \<noteq> None"
  then obtain ts where ts: "tiles = Some ts" "min (clamp64 len) (clamp64 count) \<le> length ts" using fit by auto
  have a: "x < 64" "y < 64" using g by auto
  show "answered (ppu_write_tiles_vertical sys tiles len layer x y count p)"
    unfolding ts(1) by (rule answered_either [OF vertical [OF s a some ts(2) mem]])
qed (use sees_fd [OF s] tiles_memory [of count] in
    \<open>auto simp: ppu_write_tiles_vertical_def Let_def not_less [symmetric]\<close>)

lemma pattern_answered:
  assumes s: "sees v p" and fit: "arrays_fit (LPattern pts width height addr)"
  shows "answered (ppu_write_pattern sys pts width height addr p)"
proof (cases "pts \<noteq> None \<and> addr \<le> PATTERN_MAXADDR \<and> width \<noteq> 0 \<and> height \<noteq> 0")
  case False
  then show ?thesis using sees_fd [OF s] by (auto simp: ppu_write_pattern_def not_le)
next
  case True
  then obtain ps where ps: "pts = Some ps" "unat width * unat height \<le> length ps"
    "unat width * unat height \<le> 2 ^ 32" "list_all pattern_ok ps" using fit by auto
  have a: "addr \<le> PATTERN_MAXADDR" "width \<noteq> 0" "height \<noteq> 0" using True by auto
  show ?thesis unfolding ps(1) by (rule answered_either [OF pattern_run [OF s a ps(2-4)]])
qed

lemma palette_answered:
  assumes s: "sees v p" and fit: "arrays_fit (LPalette pal layer k)"
  shows "answered (ppu_write_palette sys pal layer k p)"
proof (cases "pal \<noteq> None \<and> unat k < palettes_of layer")
  case False
  then show ?thesis
    using sees_fd [OF s] by (auto simp: ppu_write_palette_def palettes_of_def Let_def word_le_nat_alt)
next
  case True
  then obtain q where q: "pal = Some q" "palette_ok q" "unat k < palettes_of layer" using fit by auto
  show ?thesis unfolding q(1) by (rule answered_either [OF palette_run [OF s q(3,2)]])
qed

lemma registers_answered:
  assumes s: "sees v p"
  shows "answered (ppu_update sys p)" and "answered (ppu_set_bgcolor sys col p)"
    and "answered (ppu_set_layer_enable sys m p)" and "answered (ppu_set_scroll sys layer x y p)"
proof -
  show "answered (ppu_update sys p)"
    using update_run [OF s] by (cases "ready (os p)") (auto simp: answered_def owner_def)
  show "answered (ppu_set_bgcolor sys col p)" by (rule answered_either [OF bgcolor_run [OF s]])
  show "answered (ppu_set_layer_enable sys m p)" by (rule answered_either [OF enable_run [OF s]])
  show "answered (ppu_set_scroll sys layer x y p)"
  proof (cases "layer = LAYER_SPR")
    case True
    then show ?thesis using sees_fd [OF s] by (auto simp: ppu_set_scroll_def)
  next
    case False
    show ?thesis by (rule answered_either [OF scroll_run [OF s False]])
  qed
qed

text \<open>A raw write of any readable bytes to any place.\<close>

lemma do_pwrite_any:
  assumes s: "sees v p" and buf: "user_readable buf bs" "length bs = unat n"
  obtains r e p' where "do_pwrite sys buf n off p = ((r, e), p')" and "ppu_fd p' = ppu_fd p" and "owner p'"
    and "VRAM_SIZE < unat off + unat n \<Longrightarrow> r = -1 \<and> e = EINVAL"
proof -
  obtain r e w' where c: "pwrite_fd sys (ppu_fd p) buf n off (os p) = ((r, e), w')"
    by (metis prod.exhaust)
  have own: "owns (ppu_fd p) (os p)" using s by (simp add: sees_def)
  have "owns (ppu_fd p) w' \<and> (VRAM_SIZE < unat off + unat n \<longrightarrow> r = -1 \<and> e = EINVAL)"
  proof (cases "VRAM_SIZE < unat off + unat n")
    case True
    then show ?thesis using pwrite_out [OF own True c] by simp
  next
    case False
    then show ?thesis using pwrite_in [OF own buf _ c] buf(2) by simp
  qed
  then show thesis
    by (intro that [of r e "p\<lparr>os := w'\<rparr>"]) (auto simp: do_pwrite_def c owner_def sees_def)
qed

lemma vram_answered:
  assumes s: "sees v p" and fit: "arrays_fit (LWriteVram bs n off)"
  shows "answered (ppu_write_vram sys (user_mem bs) n off p)"
proof -
  let ?bs = "take (unat n) bs"
  have buf: "user_readable (user_mem bs) ?bs" "length ?bs = unat n"
    using fit user_readable_prefix by auto
  show ?thesis
  proof (cases "VRAM_SIZE < unat off + unat n")
    case False
    then have fits: "unat off + length ?bs \<le> VRAM_SIZE" by (simp only: buf(2) not_less)
    show ?thesis by (rule answered_either [OF vram_run [OF s buf fits]])
  next
    case True
    obtain e p' where "do_pwrite sys (user_mem bs) n off p = ((-1, EINVAL), p')" "owner p'"
      using do_pwrite_any [OF s buf, of off] True by metis
    then show ?thesis using sees_fd [OF s] by (auto simp: ppu_write_vram_def answered_def)
  qed
qed

text \<open>
  A write of sprites may abort or leave its blocks, but when it returns the process still
  holds the device.
\<close>

definition ends_well :: "(int \<times> 'w proc) outcome \<Rightarrow> bool" where
  "ends_well m \<longleftrightarrow> m \<noteq> Hangs \<and> (\<forall>r p. m = Done (r, p) \<longrightarrow> r \<in> {0, -1} \<and> owner p)"

lemma owner_free: "owner p \<Longrightarrow> owner (do_free sys p)"
  using sees_free by (auto simp: owner_def)

lemma do_malloc_owner:
  assumes "owner p" and m: "do_malloc sys k p = (b, p')"
  shows "owner p' \<and> (\<forall>blk. b = Some blk \<longrightarrow> k \<le> length blk)"
proof -
  obtain v where "sees v p" using assms(1) by (auto simp: owner_def)
  then show ?thesis by (cases rule: do_malloc_cases [of v p k]) (auto simp: owner_def m)
qed

lemma do_pwrite_owner:
  assumes "owner p" and "unat n \<le> length bs" and w: "do_pwrite sys (user_mem bs) n off p = ((r, e), p')"
  shows "owner p'"
proof -
  obtain v where s: "sees v p" using assms(1) by (auto simp: owner_def)
  have l: "length (take (unat n) bs) = unat n" using assms(2) by simp
  show ?thesis by (rule do_pwrite_any [OF s user_readable_prefix l, of off]) (simp add: w)
qed

lemma pack_lengths:
  "pack_sprites sprites i n buf extra = Done (buf', extra') \<Longrightarrow>
   length buf' = length buf \<and> length extra' = length extra"
proof (induction n arbitrary: i buf extra)
  case (Suc n)
  then show ?case
    by (force simp: sprite_check_def mem_write_def split: if_splits option.splits)
qed simp

lemma pack_no_hang: "pack_sprites sprites i n buf extra \<noteq> Hangs"
  by (induction n arbitrary: i buf extra) (auto simp: sprite_check_def split: option.splits)

lemma sprites_end:
  assumes "owner p"
  shows "ends_well (ppu_write_sprites sys sprites len k p)"
proof -
  obtain b1 p1 where m1: "do_malloc sys (unat (len * SPRITE_BSIZE)) p = (b1, p1)" by fastforce
  obtain b2 p2 where m2: "do_malloc sys (unat len) p1 = (b2, p2)" by fastforce
  have p1: "owner p1" "\<And>blk. b1 = Some blk \<Longrightarrow> unat (len * SPRITE_BSIZE) \<le> length blk"
    using do_malloc_owner [OF assms m1] by auto
  have p2: "owner p2" "\<And>blk. b2 = Some blk \<Longrightarrow> unat len \<le> length blk"
    using do_malloc_owner [OF p1(1) m2] by auto
  have rest: "ends_well (let ((r, err), p) = do_pwrite sys (user_mem xs) (len * SPRITE_BSIZE) a p2
         in if r \<noteq> sint (len * SPRITE_BSIZE) then c_assert (err = EBUSY) ''errno == EBUSY'' (Done (-1, p))
            else (let ((r, err), p) = do_pwrite sys (user_mem ys) len a' p
          in if r \<noteq> sint len then c_assert (err = EBUSY) ''errno == EBUSY'' (Done (-1, p))
             else Done (0, do_free sys (do_free sys p))))"
    if l: "unat (len * SPRITE_BSIZE) \<le> length xs" "unat len \<le> length ys" for xs ys a a'
  proof -
    obtain r e p3 where w3: "do_pwrite sys (user_mem xs) (len * SPRITE_BSIZE) a p2 = ((r, e), p3)"
      by (metis prod.exhaust)
    obtain r' e' p4 where w4: "do_pwrite sys (user_mem ys) len a' p3 = ((r', e'), p4)"
      by (metis prod.exhaust)
    have "owner p3" by (rule do_pwrite_owner [OF p2(1) l(1) w3])
    moreover from this have "owner p4" by (rule do_pwrite_owner [OF _ l(2) w4])
    ultimately show ?thesis by (auto simp: w3 w4 ends_well_def owner_free)
  qed
  show ?thesis
  proof (cases "sprites = None \<or> k + len > SPRITE_MAXCOUNT \<or> b1 = None \<or> b2 = None")
    case True
    then show ?thesis by (auto simp: ppu_write_sprites_def m1 m2 ends_well_def Let_def)
  next
    case False
    then obtain ss xs ys where some: "sprites = Some ss" "b1 = Some xs" "b2 = Some ys" by auto
    show ?thesis
    proof (cases "pack_sprites ss 0 (unat len) xs ys")
      case (Done z)
      obtain xs' ys' where z: "z = (xs', ys')" by (cases z)
      have "unat (len * SPRITE_BSIZE) \<le> length xs'" "unat len \<le> length ys'"
        using pack_lengths [OF Done [unfolded z]] p1(2) [OF some(2)] p2(2) [OF some(3)] by auto
      from rest [OF this] show ?thesis
        using False by (simp add: ppu_write_sprites_def m1 m2 some Done z Let_def)
    qed (use False pack_no_hang [of ss 0 "unat len" xs ys] in
        \<open>auto simp: ppu_write_sprites_def m1 m2 some ends_well_def Let_def\<close>)
  qed
qed

end

section \<open>Sessions\<close>

text \<open>
  A process between two calls: the module keeps its invariant, nothing has overwritten the
  kernel, and \<open>ppu_fd\<close> says whether the process holds the device.
\<close>

definition proc_wf :: "host proc \<Rightarrow> bool" where
  "proc_wf p \<longleftrightarrow> ppu_inv (drv (os p)) \<and> \<not> corrupted (os p) \<and> alloc_ok (os p)
     \<and> (if ppu_fd p = -1 then open_fd (os p) = None else host_owns (ppu_fd p) (os p))"

lemma owner_wf: "game.owner p \<longleftrightarrow> proc_wf p \<and> ppu_fd p \<noteq> -1"
  by (auto simp: game.owner_def game.sees_def proc_wf_def host_owns_def)

lemma enable_wf:
  assumes "proc_wf p"
  shows "(\<exists>msg. PpuLib.ppu_enable host_sys p = Abort (NoWayMsg (Some msg)))
    \<or> (\<exists>r p'. PpuLib.ppu_enable host_sys p = Done (r, p') \<and> r \<in> {0, -1} \<and> proc_wf p')"
proof (cases "ppu_fd p = -1")
  case False
  then show ?thesis by (simp add: ppu_enable_def)
next
  case True
  let ?w = "tick (os p)"
  obtain r d where o: "PpuDriver.ppu_open (drv ?w) = (r, d)" by fastforce
  have w: "ppu_inv (drv ?w)" "\<not> corrupted ?w" "alloc_ok ?w" "open_fd ?w = None"
    using assms True dma_complete_inv by (auto simp: proc_wf_def tick_def alloc_ok_def split: list.split)
  have "ppu_inv d" using ppu_open_inv [OF w(1)] by (simp add: o)
  moreover have "r = 0 \<or> r = - EBUSY" "r = 0 \<longrightarrow> ppu_lock d = 1"
    using o by (auto simp: PpuDriver.ppu_open_def Let_def split: if_splits)
  ultimately show ?thesis
    using True w by (auto simp: ppu_enable_def host_sys_def host_open_def o Let_def proc_wf_def host_owns_def alloc_ok_def)
qed

lemma disable_wf:
  assumes "proc_wf p"
  shows "(\<exists>msg. ppu_disable host_sys p = Abort (NoWayMsg (Some msg))) \<or> ppu_disable host_sys p = Hangs
    \<or> (\<exists>p'. ppu_disable host_sys p = Done p' \<and> proc_wf p')"
proof (cases "ppu_fd p = -1")
  case True
  then show ?thesis by (simp add: ppu_disable_def)
next
  case False
  then have own: "host_owns (ppu_fd p) (os p)" using assms by (simp add: proc_wf_def)
  then have inv: "ppu_inv (drv (os p))" "ppu_lock (drv (os p)) = 1" by (simp_all add: host_owns_def)
  have "ppu_release (sched (os p)) (drv (os p)) = Spins
      \<or> (\<exists>es. ppu_release (sched (os p)) (drv (os p)) = Returns (0, ppu_released (drv (os p)), es))"
    using ppu_release_owned [OF inv] by (auto split: option.splits list.splits)
  then show ?thesis
    using own False ppu_inv_released [OF inv(1)]
    by (auto simp: ppu_disable_def host_sys_def host_close_def host_owns_def proc_wf_def alloc_ok_def)
qed

definition call_result :: "ppu_lib_call \<Rightarrow> (int \<times> host proc) outcome \<Rightarrow> bool" where
  "call_result c m \<longleftrightarrow> (case m of
       Done (r, p) \<Rightarrow> r \<in> {0, -1} \<and> proc_wf p
     | Abort rep \<Rightarrow> (\<exists>msg. rep = NoWayMsg (Some msg)) \<or> writes_sprites c
     | Hangs \<Rightarrow> c = LDisable
     | Undef \<Rightarrow> writes_sprites c)"

text \<open>Without the device every call but the first is refused, a sprite write by the assertion.\<close>

lemma sprites_without_device:
  assumes "proc_wf p" and "ppu_fd p = -1"
  shows "call_result (LSprites sprites len k) (ppu_write_sprites host_sys sprites len k p)"
proof -
  have m: "\<exists>b q. do_malloc host_sys j p = (b, q) \<and> ppu_fd q = -1 \<and> open_fd (os q) = None"
    if "ppu_fd p = -1" "open_fd (os p) = None" for j and p :: "host proc"
    using that by (auto simp: do_malloc_def host_sys_def host_malloc_def split: option.split)
  obtain b1 p1 where m1: "do_malloc host_sys (unat (len * SPRITE_BSIZE)) p = (b1, p1)"
    "ppu_fd p1 = -1" "open_fd (os p1) = None" using m [of p "unat (len * SPRITE_BSIZE)"] assms by (force simp: proc_wf_def)
  obtain b2 p2 where m2: "do_malloc host_sys (unat len) p1 = (b2, p2)"
    "ppu_fd p2 = -1" "open_fd (os p2) = None" using m [OF m1(2,3), of "unat len"] by blast
  have "\<not> bit (len * 4) 0" using bit_push_bit_iff [of 2 len 0] by (simp add: push_bit_eq_mult)
  moreover have "bit (-1 :: u32) 0" by simp
  ultimately have "len * SPRITE_BSIZE \<noteq> -1" by auto
  then have "sint (len * SPRITE_BSIZE) \<noteq> sint (-1 :: u32)" by (metis signed_word_eqI)
  then have "sint (len * SPRITE_BSIZE) \<noteq> -1" by simp
  moreover have "do_pwrite host_sys buf n a p2 = ((-1, EBADF), p2)" for buf n a
    using m2 by (simp add: do_pwrite_def host_sys_def host_pwrite_def)
  ultimately show ?thesis
    using game.pack_no_hang [of "the sprites" 0 "unat len" "the b1" "the b2"]
    by (cases "pack_sprites (the sprites) 0 (unat len) (the b1) (the b2)")
       (auto simp: call_result_def ppu_write_sprites_def m1 m2 Let_def)
qed

lemma refused_result: "call_result c (Abort (NoWayMsg (Some msg)))"
  by (simp add: call_result_def)

lemma answered_result: "game.answered m \<Longrightarrow> call_result c m"
  by (auto simp: game.answered_def call_result_def owner_wf)

lemma call_sound:
  assumes wf: "proc_wf p" and fit: "arrays_fit c"
  shows "call_result c (lib_exec host_sys c p)"
proof (cases "c = LEnable \<or> c = LDisable")
  case True
  then show ?thesis using enable_wf [OF wf] disable_wf [OF wf] by (auto simp: call_result_def)
next
  case other: False
  show ?thesis
  proof (cases "ppu_fd p = -1")
    case True
    then show ?thesis
      using other wf sprites_without_device [OF wf True]
      by (cases c) (simp_all add: refused_result ppu_update_def ppu_write_vram_def ppu_write_tiles_horizontal_def
          ppu_write_tiles_vertical_def ppu_write_pattern_def ppu_write_palette_def ppu_set_bgcolor_def
          ppu_set_scroll_def ppu_set_layer_enable_def)
  next
    case False
    then obtain v where s: "game.sees v p" using wf owner_wf by (auto simp: game.owner_def)
    show ?thesis
    proof (cases c)
      case (LSprites sprites len k)
      have "game.ends_well (ppu_write_sprites host_sys sprites len k p)"
        by (rule game.sprites_end) (use s in \<open>auto simp: game.owner_def\<close>)
      then show ?thesis
        by (auto simp: LSprites call_result_def game.ends_well_def owner_wf split: outcome.split)
    qed (use other s fit in \<open>auto intro!: answered_result game.registers_answered game.vram_answered
        game.horizontal_answered game.vertical_answered game.pattern_answered game.palette_answered\<close>)
  qed
qed

section \<open>Property\<close>

text \<open>C2. Whatever sequence of calls a game makes, with whatever arguments, as
  long as its arrays are as long as it says: every call that returns returns 0 or -1 and
  leaves the module's invariant, the kernel's memory and the process' hold of the device
  intact; if the game is aborted, it is by one of the library's own messages; it can hang
  only in giving up the device; and nothing it does is undefined.  The one exception is the
  sprite write, which can run past its buffers, and whose assertion is all that refuses a
  process without the device.\<close>

theorem ppu_library_sound:
  assumes "proc_wf p" and "list_all arrays_fit cs"
  shows "case lib_run host_sys cs p of
       Done (rs, p') \<Rightarrow> set rs \<subseteq> {0, -1} \<and> length rs = length cs \<and> proc_wf p'
     | Abort rep \<Rightarrow> (\<exists>msg. rep = NoWayMsg (Some msg)) \<or> list_ex writes_sprites cs
     | Hangs \<Rightarrow> LDisable \<in> set cs
     | Undef \<Rightarrow> list_ex writes_sprites cs"
  using assms
proof (induction cs arbitrary: p)
  case (Cons c cs)
  have r: "call_result c (lib_exec host_sys c p)" using Cons.prems by (simp add: call_sound)
  show ?case
  proof (cases "lib_exec host_sys c p")
    case (Done z)
    obtain r1 p1 where z: "z = (r1, p1)" by (cases z)
    have p1: "r1 \<in> {0, -1}" "proc_wf p1" using r by (simp_all add: Done z call_result_def)
    show ?thesis
      using Cons.IH [OF p1(2)] Cons.prems p1(1)
      by (cases "lib_run host_sys cs p1") (auto simp: Done z)
  qed (use r in \<open>auto simp: call_result_def\<close>)
qed simp

theorem ppu_library_sound_witness:
  "\<exists>p'. lib_run host_sys [LBgcolor 7, LTilesVertical None 1 LAYER_BG 0 0 0] demo_proc
      = Abort (NoWayMsg (Some ''Tile array is NULL!''))
    \<and> lib_run host_sys [LBgcolor 7, LUpdate] demo_proc = Done ([0, 0], p') \<and> proc_wf p'"
proof -
  have fd: "ppu_fd demo_proc = 3" by (simp add: demo_proc_def)
  have wf: "proc_wf demo_proc" using demo_holds by (simp add: proc_wf_def holds_ppu_def host_owns_def fd)
  obtain p1 where p1: "ppu_set_bgcolor host_sys 7 demo_proc = Done (0, p1)" "host_ready (os p1)" "game.sees
      ((host_look (os demo_proc))\<lparr>v_bgcolor := 7 AND COLOR_24MASK\<rparr>) p1" "ppu_fd p1 = 3"
    using game.bgcolor_run(1) [OF demo_holds [folded sees_holds] demo_ready, of 7] fd by auto
  obtain p2 where p2: "ppu_update host_sys p1 = Done (0, p2)" using game.update_run(1) [OF p1(3,2)] by blast
  have run: "lib_run host_sys [LBgcolor 7, LUpdate] demo_proc = Done ([0, 0], p2)" by (simp add: p1(1) p2)
  then have "proc_wf p2" using ppu_library_sound [OF wf, of "[LBgcolor 7, LUpdate]"] by simp
  moreover have "lib_run host_sys [LBgcolor 7, LTilesVertical None 1 LAYER_BG 0 0 0] demo_proc
      = Abort (NoWayMsg (Some ''Tile array is NULL!''))"
    by (simp add: p1(1)) (simp add: ppu_write_tiles_vertical_def p1(4))
  ultimately show ?thesis using run by blast
qed

end
