(* ===== verification/PpuConcurrent.thy ===== *)
theory PpuConcurrent
  imports PpuDriver
begin

text \<open>
  The handlers of \<^verbatim>\<open>Kernel/ppu/ppu.c\<close> running at the same time on several
  threads: every access to the locks, to the copied bytes and to the device is a step of its
  own, and steps of different threads and of the device interleave freely.
\<close>

section \<open>Threads\<close>

datatype ppu_req = QOpen | QRelease | QWrite ubuf u32 u64 | QIoctl ppu_cmd u32

text \<open>
  Where a thread is.  A copying write has the bytes still to be stored and where the next
  one goes; a clearing release has the number of bytes already cleared, and one that resets
  the device the register writes still to be done, the start of the transfer last.
\<close>

datatype ppu_pc =
    Idle
  | WCopy ubuf u32 u64 "u8 list" nat
  | IMmio ppu_cmd u32
  | IUnlock ppu_cmd u32 int
  | RSpin
  | RClear nat
  | RRegs "(u32 \<times> u32) list"
  | RSpin2
  | RUnlockVram
  | RUnlockPpu

text \<open>
  \<open>opened\<close> says that the device file is open and not yet being closed, and \<open>rets\<close> is the log
  of the calls that have returned, newest first.
\<close>

record ppu_conc =
  kd :: ppu_drv
  pcs :: "nat \<Rightarrow> ppu_pc"
  opened :: bool
  rets :: "(ppu_req \<times> int) list"

definition go :: "nat \<Rightarrow> ppu_pc \<Rightarrow> ppu_drv \<Rightarrow> ppu_conc \<Rightarrow> ppu_conc" where
  "go t pc d c = c\<lparr>kd := d, pcs := (pcs c)(t := pc)\<rparr>"

definition ret :: "nat \<Rightarrow> ppu_req \<Rightarrow> int \<Rightarrow> ppu_drv \<Rightarrow> ppu_conc \<Rightarrow> ppu_conc" where
  "ret t q r d c = (go t Idle d c)\<lparr>rets := (q, r) # rets c\<rparr>"

definition release_regs :: "ppu_drv \<Rightarrow> (u32 \<times> u32) list" where
  "release_regs s = [(PPU_BGSCROLL_OFFSET, 0), (PPU_FGSCROLL_OFFSET, 0), (PPU_BGCOLOR_OFFSET, 0),
     (PPU_ENABLE_OFFSET, 0), (PPU_DMA_ADDR_OFFSET, vram_addr_p s)]"

fun ioctl_reg :: "ppu_cmd \<Rightarrow> u32 option" where
  "ioctl_reg IOCTL_PPU_SET_BGSCROLL = Some PPU_BGSCROLL_OFFSET"
| "ioctl_reg IOCTL_PPU_SET_FGSCROLL = Some PPU_FGSCROLL_OFFSET"
| "ioctl_reg IOCTL_PPU_SET_BGCOLOR = Some PPU_BGCOLOR_OFFSET"
| "ioctl_reg IOCTL_PPU_SET_ENABLE = Some PPU_ENABLE_OFFSET"
| "ioctl_reg _ = None"

section \<open>Steps\<close>

text \<open>
  The kernel calls the write and ioctl handlers only for an open file and the release when
  the last reference to it is dropped, that is when no other handler of the file runs.
\<close>

inductive pstep :: "ppu_conc \<Rightarrow> ppu_conc \<Rightarrow> bool" where
  open_xchg: "pcs c t = Idle \<Longrightarrow> ppu_open (kd c) = (r, d) \<Longrightarrow>
    pstep c ((ret t QOpen r d c)\<lparr>opened := opened c \<or> r = 0\<rparr>)"
| write_bounds: "pcs c t = Idle \<Longrightarrow> opened c \<Longrightarrow> ubuf_ok buf \<Longrightarrow> vfs_pos off len \<Longrightarrow>
    sint (off + ucast len) > int VRAM_SIZE \<Longrightarrow>
    pstep c (ret t (QWrite buf len off) (- EINVAL) (kd c) c)"
| write_busy: "pcs c t = Idle \<Longrightarrow> opened c \<Longrightarrow> ubuf_ok buf \<Longrightarrow> vfs_pos off len \<Longrightarrow>
    \<not> sint (off + ucast len) > int VRAM_SIZE \<Longrightarrow> vram_lock (kd c) = 1 \<Longrightarrow>
    pstep c (ret t (QWrite buf len off) (- EBUSY) ((kd c)\<lparr>vram_lock := 1\<rparr>) c)"
| write_lock: "pcs c t = Idle \<Longrightarrow> opened c \<Longrightarrow> ubuf_ok buf \<Longrightarrow> vfs_pos off len \<Longrightarrow>
    \<not> sint (off + ucast len) > int VRAM_SIZE \<Longrightarrow> vram_lock (kd c) \<noteq> 1 \<Longrightarrow>
    pstep c (go t (WCopy buf len off (fst (buf (unat len))) (vram_addr_v (kd c) + unat (ucast off :: u32)))
      ((kd c)\<lparr>vram_lock := 1\<rparr>) c)"
| write_byte: "pcs c t = WCopy buf len off (b # bs) addr \<Longrightarrow>
    pstep c (go t (WCopy buf len off bs (Suc addr))
      ((kd c)\<lparr>vram_block := (vram_block (kd c))[addr := b]\<rparr>) c)"
| write_unlock: "pcs c t = WCopy buf len off [] addr \<Longrightarrow>
    pstep c (ret t (QWrite buf len off) (if snd (buf (unat len)) \<noteq> 0 then - EFAULT else sint len)
      ((kd c)\<lparr>vram_lock := 0\<rparr>) c)"
| ioctl_busy: "pcs c t = Idle \<Longrightarrow> opened c \<Longrightarrow> vram_lock (kd c) = 1 \<Longrightarrow>
    pstep c (ret t (QIoctl cmd a) (- EBUSY) ((kd c)\<lparr>vram_lock := 1\<rparr>) c)"
| ioctl_lock: "pcs c t = Idle \<Longrightarrow> opened c \<Longrightarrow> vram_lock (kd c) \<noteq> 1 \<Longrightarrow>
    pstep c (go t (IMmio cmd a) ((kd c)\<lparr>vram_lock := 1\<rparr>) c)"
| ioctl_update: "pcs c t = IMmio IOCTL_PPU_UPDATE a \<Longrightarrow>
    pstep c (ret t (QIoctl IOCTL_PPU_UPDATE a) 0
      (mmio_write PPU_DMA_ADDR_OFFSET (vram_addr_p (kd c)) (kd c)) c)"
| ioctl_mmio: "pcs c t = IMmio cmd a \<Longrightarrow> ioctl_reg cmd = Some reg \<Longrightarrow>
    pstep c (go t (IUnlock cmd a 0) (mmio_write reg a (kd c)) c)"
| ioctl_default: "pcs c t = IMmio (PPU_OTHER n) a \<Longrightarrow>
    pstep c (go t (IUnlock (PPU_OTHER n) a (- EINVAL)) (kd c) c)"
| ioctl_unlock: "pcs c t = IUnlock cmd a r \<Longrightarrow>
    pstep c (ret t (QIoctl cmd a) r ((kd c)\<lparr>vram_lock := 0\<rparr>) c)"
| release_closed: "opened c \<Longrightarrow> \<forall>u. pcs c u = Idle \<Longrightarrow> ppu_lock (kd c) = 0 \<Longrightarrow>
    pstep c ((ret t QRelease (-1) ((kd c)\<lparr>ppu_lock := 0\<rparr>) c)\<lparr>opened := False\<rparr>)"
| release_start: "opened c \<Longrightarrow> \<forall>u. pcs c u = Idle \<Longrightarrow> ppu_lock (kd c) \<noteq> 0 \<Longrightarrow>
    pstep c ((go t RSpin ((kd c)\<lparr>ppu_lock := 1\<rparr>) c)\<lparr>opened := False\<rparr>)"
| release_spin: "pcs c t = RSpin \<Longrightarrow> vram_lock (kd c) = 1 \<Longrightarrow>
    pstep c (go t RSpin ((kd c)\<lparr>vram_lock := 1\<rparr>) c)"
| release_locked: "pcs c t = RSpin \<Longrightarrow> vram_lock (kd c) \<noteq> 1 \<Longrightarrow>
    pstep c (go t (RClear 0) ((kd c)\<lparr>vram_lock := 1\<rparr>) c)"
| release_clear: "pcs c t = RClear k \<Longrightarrow> k < VRAM_SIZE + 8 \<Longrightarrow>
    pstep c (go t (RClear (Suc k)) ((kd c)\<lparr>vram_block := (vram_block (kd c))[k := 0]\<rparr>) c)"
| release_cleared: "pcs c t = RClear (VRAM_SIZE + 8) \<Longrightarrow>
    pstep c (go t (RRegs (release_regs (kd c))) (kd c) c)"
| release_reg: "pcs c t = RRegs ((reg, v) # rs) \<Longrightarrow>
    pstep c (go t (if rs = [] then RSpin2 else RRegs rs) (mmio_write reg v (kd c)) c)"
| release_spin2: "pcs c t = RSpin2 \<Longrightarrow> vram_lock (kd c) = 1 \<Longrightarrow>
    pstep c (go t RSpin2 ((kd c)\<lparr>vram_lock := 1\<rparr>) c)"
| release_relocked: "pcs c t = RSpin2 \<Longrightarrow> vram_lock (kd c) \<noteq> 1 \<Longrightarrow>
    pstep c (go t RUnlockVram ((kd c)\<lparr>vram_lock := 1\<rparr>) c)"
| release_unlock_vram: "pcs c t = RUnlockVram \<Longrightarrow>
    pstep c (go t RUnlockPpu ((kd c)\<lparr>vram_lock := 0\<rparr>) c)"
| release_unlock_ppu: "pcs c t = RUnlockPpu \<Longrightarrow>
    pstep c (ret t QRelease 0 ((kd c)\<lparr>ppu_lock := 0\<rparr>) c)"
| dma_done: "dma_pending (dev (kd c)) \<Longrightarrow> pstep c (c\<lparr>kd := dma_complete (kd c)\<rparr>)"

inductive_cases pstepE: "pstep c d"

section \<open>Atomic handlers\<close>

inductive atomic_call :: "ppu_drv \<Rightarrow> (ppu_req \<times> int) option \<Rightarrow> ppu_drv \<Rightarrow> bool" where
  atomic_open: "ppu_open s = (r, t) \<Longrightarrow> atomic_call s (Some (QOpen, r)) t"
| atomic_release: "ppu_release es s = Returns (r, t, es') \<Longrightarrow> atomic_call s (Some (QRelease, r)) t"
| atomic_write: "ubuf_ok buf \<Longrightarrow> vfs_pos off len \<Longrightarrow> ppu_write buf len off s = Returns (r, off', t) \<Longrightarrow>
    atomic_call s (Some (QWrite buf len off, r)) t"
| atomic_ioctl: "ppu_ioctl cmd a s = (r, t) \<Longrightarrow> atomic_call s (Some (QIoctl cmd a, r)) t"
| atomic_dma: "atomic_call s None (dma_complete s)"

text \<open>
  A write or ioctl that was refused because the VRAM lock was taken is not compared: on its
  own it is refused only while a transfer is pending.
\<close>

fun counted :: "ppu_req \<times> int \<Rightarrow> bool" where
  "counted (q, r) \<longleftrightarrow> r \<noteq> - EBUSY \<or> q = QOpen"

definition answers :: "ppu_conc \<Rightarrow> (ppu_req \<times> int) list" where
  "answers c = filter counted (rets c)"

section \<open>What a state in the middle stands for\<close>

text \<open>The driver after the first spin loop of a release, and after it has started the transfer.\<close>

definition spun :: "ppu_drv \<Rightarrow> ppu_drv" where
  "spun a = (dma_complete a)\<lparr>vram_lock := 1\<rparr>"

definition sent :: "ppu_drv \<Rightarrow> ppu_drv" where
  "sent a = foldl (\<lambda>s (reg, v). mmio_write reg v s) ((spun a)\<lparr>vram_block := zeros (VRAM_SIZE + 8)\<rparr>)
     (release_regs a)"

text \<open>The driver \<open>d\<close> while a thread at \<open>pc\<close> has come part of the way from the state \<open>a\<close>.\<close>

fun midway :: "ppu_pc \<Rightarrow> ppu_drv \<Rightarrow> ppu_drv \<Rightarrow> bool" where
  "midway Idle a d \<longleftrightarrow> d = a"
| "midway (WCopy buf len off bs addr) a d \<longleftrightarrow>
     \<not> dma_pending (dev a) \<and> ubuf_ok buf \<and> vfs_pos off len \<and> unat off + unat len \<le> VRAM_SIZE
     \<and> (\<exists>ds. fst (buf (unat len)) = ds @ bs \<and> addr = vram_addr_v a + unat off + length ds
          \<and> d = a\<lparr>vram_lock := 1, vram_block := blit (vram_addr_v a + unat off) ds (vram_block a)\<rparr>)"
| "midway (IMmio cmd x) a d \<longleftrightarrow> \<not> dma_pending (dev a) \<and> d = a\<lparr>vram_lock := 1\<rparr>"
| "midway (IUnlock cmd x r) a d \<longleftrightarrow> \<not> dma_pending (dev a) \<and> vram_lock d = 1 \<and>
     cmd \<noteq> IOCTL_PPU_UPDATE \<and> ppu_ioctl cmd x a = (r, d\<lparr>vram_lock := 0\<rparr>)"
| "midway RSpin a d \<longleftrightarrow> d = a \<or> d = dma_complete a"
| "midway (RClear k) a d \<longleftrightarrow> k \<le> VRAM_SIZE + 8 \<and> d = (spun a)\<lparr>vram_block := blit 0 (zeros k) (vram_block a)\<rparr>"
| "midway (RRegs rs) a d \<longleftrightarrow> rs \<noteq> [] \<and> (\<exists>ds. release_regs a = ds @ rs \<and>
     d = foldl (\<lambda>s (reg, v). mmio_write reg v s) ((spun a)\<lparr>vram_block := zeros (VRAM_SIZE + 8)\<rparr>) ds)"
| "midway RSpin2 a d \<longleftrightarrow> d = sent a \<or> d = dma_complete (sent a)"
| "midway RUnlockVram a d \<longleftrightarrow> d = (ppu_released a)\<lparr>vram_lock := 1, ppu_lock := 1\<rparr>"
| "midway RUnlockPpu a d \<longleftrightarrow> d = (ppu_released a)\<lparr>ppu_lock := 1\<rparr>"

text \<open>At most one thread is inside, and what it has done so far is all that separates the
  driver from the abstract one.\<close>

fun phase_ok :: "ppu_pc \<Rightarrow> bool \<Rightarrow> int \<Rightarrow> bool" where
  "phase_ok Idle fl l \<longleftrightarrow> (fl \<longleftrightarrow> l = 1)"
| "phase_ok (WCopy buf len off bs addr) fl l \<longleftrightarrow> fl \<and> l = 1"
| "phase_ok (IMmio cmd x) fl l \<longleftrightarrow> fl \<and> l = 1"
| "phase_ok (IUnlock cmd x r) fl l \<longleftrightarrow> fl \<and> l = 1"
| "phase_ok _ fl l \<longleftrightarrow> \<not> fl \<and> l = 1"

definition conc_rel :: "ppu_conc \<Rightarrow> ppu_drv \<Rightarrow> bool" where
  "conc_rel c a \<longleftrightarrow> ppu_inv a \<and> (\<exists>t pc. pcs c = (\<lambda>_. Idle)(t := pc) \<and> midway pc a (kd c)
     \<and> phase_ok pc (opened c) (ppu_lock a))"

subsection \<open>Each step keeps the correspondence\<close>

lemma inv_locks:
  assumes "ppu_inv a"
  shows "vram_lock a \<noteq> 1 \<longleftrightarrow> \<not> dma_pending (dev a)" and "vram_lock a \<noteq> 1 \<Longrightarrow> vram_lock a = 0"
    and "vram_lock a = 1 \<Longrightarrow> a\<lparr>vram_lock := 1\<rparr> = a" and "ppu_lock a = 1 \<Longrightarrow> a\<lparr>ppu_lock := 1\<rparr> = a"
    and "length (vram_block a) = VRAM_SIZE + 8" and "vram_addr_v a \<le> 8"
  using assms by (cases a; force simp: ppu_inv_def)+

lemma midway_write_lock:
  assumes inv: "ppu_inv a" and free: "vram_lock a \<noteq> 1" and ok: "ubuf_ok buf" and pos: "vfs_pos off len"
    and fits: "\<not> sint (off + ucast len) > int VRAM_SIZE"
  shows "midway (WCopy buf len off (fst (buf (unat len))) (vram_addr_v a + unat (ucast off :: u32))) a
    (a\<lparr>vram_lock := 1\<rparr>)"
proof -
  have l: "unat off + unat len \<le> VRAM_SIZE"
    using fits vfs_pos_sum(1) [OF pos] by (simp only: of_nat_less_iff not_less)
  then have "unat (ucast off :: u32) = unat off" by (intro unat_low_offset [of _ VRAM_SIZE]) simp_all
  moreover have "\<not> dma_pending (dev a)" using free inv_locks(1) [OF inv] by simp
  ultimately show ?thesis using l ok pos by (cases a) simp
qed

lemma midway_write_byte:
  assumes inv: "ppu_inv a" and mid: "midway (WCopy buf len off (b # bs) addr) a d"
  shows "midway (WCopy buf len off bs (Suc addr)) a (d\<lparr>vram_block := (vram_block d)[addr := b]\<rparr>)"
    and "addr < length (vram_block d)"
proof -
  obtain ds where ds: "fst (buf (unat len)) = ds @ b # bs" "addr = vram_addr_v a + unat off + length ds"
    "d = a\<lparr>vram_lock := 1, vram_block := blit (vram_addr_v a + unat off) ds (vram_block a)\<rparr>"
    using mid by auto
  have "length (fst (buf (unat len))) \<le> unat len" using mid by (simp add: ubuf_ok_def)
  then have fits: "addr < length (vram_block a)"
    using mid ds(1,2) inv_locks(5,6) [OF inv] by simp
  then have "(blit (vram_addr_v a + unat off) ds (vram_block a))[addr := b]
      = blit (vram_addr_v a + unat off) (ds @ [b]) (vram_block a)"
    using ds(2) by (simp add: blit_append blit_one)
  then show "midway (WCopy buf len off bs (Suc addr)) a (d\<lparr>vram_block := (vram_block d)[addr := b]\<rparr>)"
    using mid ds by auto
  show "addr < length (vram_block d)" using fits ds by simp
qed

lemma midway_write_unlock:
  assumes inv: "ppu_inv a" and mid: "midway (WCopy buf len off [] addr) a d"
  shows "\<exists>off'. ppu_write buf len off a
    = Returns (if snd (buf (unat len)) \<noteq> 0 then - EFAULT else sint len, off', d\<lparr>vram_lock := 0\<rparr>)"
proof -
  let ?bs = "fst (buf (unat len))"
  have d: "d = a\<lparr>vram_lock := 1, vram_block := blit (vram_addr_v a + unat off) ?bs (vram_block a)\<rparr>"
    and fits: "unat off + unat len \<le> VRAM_SIZE" and pos: "vfs_pos off len" and free: "vram_lock a \<noteq> 1"
    using mid inv_locks(1) [OF inv] by auto
  have "length ?bs \<le> unat len" using mid by (simp add: ubuf_ok_def)
  then have w: "mem_write (vram_addr_v a + unat off) ?bs (vram_block a)
      = Some (blit (vram_addr_v a + unat off) ?bs (vram_block a))"
    using fits inv_locks(5,6) [OF inv] by simp
  have "sint len = int (unat len)" using fits by (intro sint_len) simp
  then show ?thesis
    using fits free by (simp add: ppu_write_nat [OF pos] w d del: mem_write_Some of_nat_unat)
qed

lemma midway_ioctl:
  assumes inv: "ppu_inv a"
  shows "vram_lock a \<noteq> 1 \<Longrightarrow> midway (IMmio cmd x) a (a\<lparr>vram_lock := 1\<rparr>)"
    and "midway (IMmio IOCTL_PPU_UPDATE x) a d \<Longrightarrow>
      ppu_ioctl IOCTL_PPU_UPDATE x a = (0, mmio_write PPU_DMA_ADDR_OFFSET (vram_addr_p d) d)"
    and "midway (IMmio (PPU_OTHER n) x) a d \<Longrightarrow> midway (IUnlock (PPU_OTHER n) x (- EINVAL)) a d"
  using inv_locks(1) [OF inv] by (auto simp: ppu_ioctl_def Let_def)

lemma midway_mmio:
  assumes inv: "ppu_inv a" and mid: "midway (IMmio cmd x) a d" and reg: "ioctl_reg cmd = Some reg"
  shows "midway (IUnlock cmd x 0) a (mmio_write reg x d)"
  using mid reg inv_locks(1) [OF inv] by (cases cmd) (simp_all add: ppu_ioctl_def mmio_write_def)

lemma ioctl_effect:
  assumes "ppu_inv a" and "cmd \<noteq> IOCTL_PPU_UPDATE" and "ppu_ioctl cmd x a = (r, t)"
  shows "ppu_lock t = ppu_lock a" and "dma_pending (dev t) = dma_pending (dev a)"
  using assms by (auto simp: ppu_ioctl_eq split: ppu_cmd.splits if_splits)

lemma spun_sel:
  assumes "ppu_inv a"
  shows "vram_block (spun a) = vram_block a" "vram_addr_p (spun a) = vram_addr_p a"
    "ppu_lock (spun a) = ppu_lock a" "\<not> dma_pending (dev (spun a))" "vram_lock (spun a) = 1"
  by (simp_all add: spun_def dma_complete_def ppu_irq_def)

lemma midway_spin:
  assumes inv: "ppu_inv a" and mid: "midway RSpin a d" and free: "vram_lock d \<noteq> 1"
  shows "midway (RClear 0) a (d\<lparr>vram_lock := 1\<rparr>)"
proof -
  have "d\<lparr>vram_lock := 1\<rparr> = spun a"
    using mid free inv_locks(1) [OF inv] by (auto simp: spun_def)
  then show ?thesis using spun_sel(1) [OF inv] by (cases "spun a") (simp add: zeros_def)
qed

lemma midway_clear:
  assumes inv: "ppu_inv a" and mid: "midway (RClear k) a d"
  shows "k < VRAM_SIZE + 8 \<Longrightarrow> midway (RClear (Suc k)) a (d\<lparr>vram_block := (vram_block d)[k := 0]\<rparr>)"
    and "k = VRAM_SIZE + 8 \<Longrightarrow> midway (RRegs (release_regs d)) a d"
proof -
  show "midway (RClear (Suc k)) a (d\<lparr>vram_block := (vram_block d)[k := 0]\<rparr>)" if k: "k < VRAM_SIZE + 8"
  proof -
    have "zeros (Suc k) = zeros k @ [0]" by (simp add: zeros_def replicate_append_same)
    then have "blit 0 (zeros (Suc k)) (vram_block a) = (blit 0 (zeros k) (vram_block a))[k := 0]"
      using k inv_locks(5) [OF inv] by (simp add: blit_append blit_one)
    then show ?thesis using mid k by (simp del: One_nat_def)
  qed
  show "midway (RRegs (release_regs d)) a d" if "k = VRAM_SIZE + 8"
    using mid that inv_locks(5) [OF inv]
    by (simp add: blit_whole release_regs_def spun_sel [OF inv])
qed

text \<open>Only the last of the register writes of a release starts a transfer.\<close>

lemma release_regs_split:
  assumes "release_regs a = ds @ rs" and "rs \<noteq> []"
  shows "\<forall>(reg, v) \<in> set ds. reg \<noteq> PPU_DMA_ADDR_OFFSET"
  using assms by (auto simp: release_regs_def Cons_eq_append_conv)

lemma mmio_other_idle:
  "\<forall>(reg, v) \<in> set ds. reg \<noteq> PPU_DMA_ADDR_OFFSET \<Longrightarrow>
   dma_pending (dev (foldl (\<lambda>s (reg, v). mmio_write reg v s) s ds)) = dma_pending (dev s)"
proof (induction ds arbitrary: s)
  case (Cons rv ds)
  then have "dma_pending (dev (mmio_write (fst rv) (snd rv) s)) = dma_pending (dev s)"
    by (auto simp: mmio_write_def)
  with Cons show ?case by (simp add: split_beta)
qed simp

lemma midway_regs_idle: "ppu_inv a \<Longrightarrow> midway (RRegs rs) a d \<Longrightarrow> \<not> dma_pending (dev d)"
  by (auto simp: mmio_other_idle release_regs_split spun_sel)

lemma midway_reg:
  assumes "midway (RRegs ((reg, v) # rs)) a d"
  shows "midway (if rs = [] then RSpin2 else RRegs rs) a (mmio_write reg v d)"
proof -
  obtain ds where ds: "release_regs a = ds @ (reg, v) # rs"
    "d = foldl (\<lambda>s (reg, v). mmio_write reg v s) ((spun a)\<lparr>vram_block := zeros (VRAM_SIZE + 8)\<rparr>) ds"
    using assms by auto
  show ?thesis
  proof (cases "rs = []")
    case True
    with ds show ?thesis by (simp add: sent_def)
  next
    case False
    with ds have "release_regs a = (ds @ [(reg, v)]) @ rs" "mmio_write reg v d
        = foldl (\<lambda>s (reg, v). mmio_write reg v s) ((spun a)\<lparr>vram_block := zeros (VRAM_SIZE + 8)\<rparr>) (ds @ [(reg, v)])"
      by simp_all
    with False show ?thesis unfolding midway.simps if_not_P [OF False] by blast
  qed
qed

lemma sent_released:
  assumes "ppu_inv a" and "ppu_lock a = 1"
  shows "vram_lock (sent a) = 1" "dma_pending (dev (sent a))"
    "dma_complete (sent a) = (ppu_released a)\<lparr>ppu_lock := 1\<rparr>"
  using assms
  by (cases a; cases "dev a"; cases "dma_pending (dev a)";
      simp add: sent_def spun_def release_regs_def mmio_write_def dma_complete_def ppu_irq_def ppu_released_def)+

lemma midway_spin2:
  assumes "ppu_inv a" "ppu_lock a = 1" and "midway RSpin2 a d" "vram_lock d \<noteq> 1"
  shows "midway RUnlockVram a (d\<lparr>vram_lock := 1\<rparr>)"
  using assms sent_released [OF assms(1,2)] by (auto simp: ppu_released_def)

lemma release_whole: "ppu_inv a \<Longrightarrow> ppu_lock a = 1 \<Longrightarrow> ppu_release [True, True] a = Returns (0, ppu_released a, [])"
  by (simp add: ppu_release_owned first_spin_rest_def)

text \<open>The device can end a transfer only where the correspondence allows for it.\<close>

lemma midway_dma:
  assumes inv: "ppu_inv a" and pend: "dma_pending (dev d)" and mid: "midway pc a d" "pc \<noteq> Idle" "ppu_lock a = 1"
  shows "midway pc a (dma_complete d)"
proof -
  have idem: "\<not> dma_pending (dev (dma_complete s))" for s by (simp add: dma_complete_def ppu_irq_def)
  show ?thesis
  proof (cases pc)
    case (IUnlock cmd x r)
    then have i: "\<not> dma_pending (dev a)" "cmd \<noteq> IOCTL_PPU_UPDATE" "ppu_ioctl cmd x a = (r, d\<lparr>vram_lock := 0\<rparr>)"
      using mid by auto
    from ioctl_effect(2) [OF inv i(2,3)] i(1) pend show ?thesis by simp
  next
    case (RRegs rs)
    then show ?thesis using midway_regs_idle [OF inv, of rs d] mid pend by simp
  qed (use mid pend idem spun_sel(4) [OF inv] in \<open>auto simp: ppu_released_def\<close>)
qed

text \<open>What the other threads see of the locks.\<close>

lemma midway_locks:
  assumes inv: "ppu_inv a" and mid: "midway pc a d" "pc \<noteq> Idle" "ppu_lock a = 1"
  shows "ppu_lock d = 1" and "pc = WCopy buf len off bs addr \<or> pc = IMmio cmd x \<or> pc = IUnlock cmd x r \<Longrightarrow> vram_lock d = 1"
proof -
  have fold: "ppu_lock (foldl (\<lambda>s (reg, v). mmio_write reg v s) s ds) = ppu_lock s" for s ds
    by (induction ds arbitrary: s) (auto simp: mmio_write_def)
  show "ppu_lock d = 1"
  proof (cases pc)
    case (IUnlock cmd x r)
    then have i: "cmd \<noteq> IOCTL_PPU_UPDATE" "ppu_ioctl cmd x a = (r, d\<lparr>vram_lock := 0\<rparr>)" using mid by auto
    from ioctl_effect(1) [OF inv i] mid(3) show ?thesis by simp
  qed (use mid spun_sel(3) [OF inv] sent_released [OF inv mid(3)] in
      \<open>auto simp: fold sent_def dma_complete_def ppu_irq_def ppu_released_def\<close>)
  show "vram_lock d = 1" if "pc = WCopy buf len off bs addr \<or> pc = IMmio cmd x \<or> pc = IUnlock cmd x r"
    using that mid by auto
qed

section \<open>The threads together\<close>

lemma go_sel [simp]:
  "kd (go t pc d c) = d" "pcs (go t pc d c) = (pcs c)(t := pc)" "opened (go t pc d c) = opened c"
  "rets (go t pc d c) = rets c"
  by (simp_all add: go_def)

lemma ret_sel [simp]:
  "kd (ret t q r d c) = d" "pcs (ret t q r d c) = (pcs c)(t := Idle)" "opened (ret t q r d c) = opened c"
  "rets (ret t q r d c) = (q, r) # rets c"
  by (simp_all add: ret_def)

lemma answers_simps [simp]:
  "answers (go t pc d c) = answers c"
  "answers (ret t q r d c) = (if counted (q, r) then (q, r) # answers c else answers c)"
  "answers (c\<lparr>opened := fl\<rparr>) = answers c" "answers (c\<lparr>kd := d\<rparr>) = answers c"
  by (simp_all add: answers_def)

lemma conc_relI:
  "ppu_inv a \<Longrightarrow> pcs c = (\<lambda>_. Idle)(t := pc) \<Longrightarrow> midway pc a (kd c) \<Longrightarrow> phase_ok pc (opened c) (ppu_lock a)
   \<Longrightarrow> conc_rel c a"
  by (auto simp: conc_rel_def)

lemma conc_active:
  assumes "conc_rel c a" and "pcs c t \<noteq> Idle"
  shows "ppu_inv a" "pcs c = (\<lambda>_. Idle)(t := pcs c t)" "midway (pcs c t) a (kd c)"
    "phase_ok (pcs c t) (opened c) (ppu_lock a)" "ppu_lock a = 1"
proof -
  obtain u pc where c: "ppu_inv a" "pcs c = (\<lambda>_. Idle)(u := pc)" "midway pc a (kd c)"
    "phase_ok pc (opened c) (ppu_lock a)"
    using assms(1) by (auto simp: conc_rel_def)
  then have "u = t" using assms(2) by (cases "u = t") auto
  with c show "ppu_inv a" "pcs c = (\<lambda>_. Idle)(t := pcs c t)" "midway (pcs c t) a (kd c)"
    "phase_ok (pcs c t) (opened c) (ppu_lock a)" by simp_all
  then show "ppu_lock a = 1" using assms(2) by (cases "pcs c t") simp_all
qed

lemma conc_outside:
  assumes "conc_rel c a" and "pcs c t = Idle"
  shows "pcs c = (\<lambda>_. Idle) \<and> kd c = a \<and> (opened c \<longleftrightarrow> ppu_lock a = 1)
    \<or> ppu_lock (kd c) = 1 \<and> ppu_lock a = 1 \<and> (opened c \<longrightarrow> vram_lock (kd c) = 1)"
proof -
  obtain u pc where c: "ppu_inv a" "pcs c = (\<lambda>_. Idle)(u := pc)" "midway pc a (kd c)"
    "phase_ok pc (opened c) (ppu_lock a)"
    using assms(1) by (auto simp: conc_rel_def)
  show ?thesis
  proof (cases "pc = Idle")
    case True
    with c show ?thesis by auto
  next
    case False
    then have "ppu_lock a = 1" using c(4) by (cases pc) simp_all
    moreover have "vram_lock (kd c) = 1" if "opened c"
      using that c(3,4) False by (cases pc) auto
    ultimately show ?thesis using midway_locks(1) [OF c(1,3) False] by simp
  qed
qed

lemma conc_inv: "conc_rel c a \<Longrightarrow> ppu_inv a"
  by (auto simp: conc_rel_def)

lemma conc_same:
  "conc_rel c a \<Longrightarrow> kd d = kd c \<Longrightarrow> pcs d = pcs c \<Longrightarrow> opened d = opened c \<Longrightarrow> conc_rel d a"
  by (simp add: conc_rel_def)

text \<open>The three ways in which a step may show.\<close>

definition shows_as :: "ppu_conc \<Rightarrow> ppu_drv \<Rightarrow> ppu_conc \<Rightarrow> bool" where
  "shows_as c a d \<longleftrightarrow> (conc_rel d a \<and> answers d = answers c)
    \<or> (\<exists>b. conc_rel d b \<and> atomic_call a None b \<and> answers d = answers c)
    \<or> (\<exists>b e. conc_rel d b \<and> atomic_call a (Some e) b \<and> answers d = e # answers c)"

lemma shows_silent: "conc_rel d a \<Longrightarrow> answers d = answers c \<Longrightarrow> shows_as c a d"
  by (simp add: shows_as_def)

lemma shows_event:
  "conc_rel d b \<Longrightarrow> atomic_call a (Some e) b \<Longrightarrow> answers d = e # answers c \<Longrightarrow> shows_as c a d"
  unfolding shows_as_def by blast

lemma step_open:
  assumes rel: "conc_rel c a" and t: "pcs c t = Idle" and op: "ppu_open (kd c) = (r, d)"
  shows "shows_as c a ((ret t QOpen r d c)\<lparr>opened := opened c \<or> r = 0\<rparr>)"
  using conc_outside [OF rel t]
proof (elim disjE conjE)
  assume idle: "pcs c = (\<lambda>_. Idle)" "kd c = a" and fl: "opened c \<longleftrightarrow> ppu_lock a = 1"
  have inv: "ppu_inv d" using ppu_open_inv [OF conc_inv [OF rel]] op idle by simp
  have "ppu_lock a = 0 \<or> ppu_lock a = 1" using conc_inv [OF rel] by (auto simp: ppu_inv_def)
  then have "conc_rel ((ret t QOpen r d c)\<lparr>opened := opened c \<or> r = 0\<rparr>) d"
    using inv op idle fl by (intro conc_relI [where t = t and pc = Idle]) (auto simp: ppu_open_def)
  then show ?thesis
    using op idle by (rule_tac shows_event [of _ d]) (auto intro: atomic_open)
next
  assume l: "ppu_lock (kd c) = 1" "ppu_lock a = 1"
  then have "r = - EBUSY" "d = kd c" using op by (cases "kd c"; auto simp: ppu_open_def)+
  moreover have "ppu_open a = (- EBUSY, a)"
    using l(2) inv_locks(4) [OF conc_inv [OF rel]] by (simp add: ppu_open_def)
  moreover have "(pcs c)(t := Idle) = pcs c" using t by auto
  ultimately show ?thesis
    using rel by (intro shows_event [of _ a]) (auto intro: atomic_open conc_same)
qed

text \<open>A refused call changes nothing.\<close>

lemma step_refused:
  assumes "conc_rel c a" and "pcs c t = Idle" and "vram_lock (kd c) = 1"
    and "\<not> counted (q, r)"
  shows "shows_as c a (ret t q r ((kd c)\<lparr>vram_lock := 1\<rparr>) c)"
  using assms by (intro shows_silent conc_same [OF assms(1)]) (auto simp: lock_idem)

lemma step_bounds:
  assumes rel: "conc_rel c a" and t: "pcs c t = Idle" and ok: "ubuf_ok buf" "vfs_pos off len"
    and out: "sint (off + ucast len) > int VRAM_SIZE"
  shows "shows_as c a (ret t (QWrite buf len off) (- EINVAL) (kd c) c)"
proof (rule shows_event)
  show "conc_rel (ret t (QWrite buf len off) (- EINVAL) (kd c) c) a"
    using t by (intro conc_same [OF rel]) auto
  show "atomic_call a (Some (QWrite buf len off, - EINVAL)) a"
    using ok out by (intro atomic_write [where off' = off]) (simp_all add: ppu_write_def)
qed simp

text \<open>Taking the VRAM lock for a write or an ioctl.\<close>

lemma step_enter:
  assumes rel: "conc_rel c a" and t: "pcs c t = Idle" and fl: "opened c" and free: "vram_lock (kd c) \<noteq> 1"
    and mid: "ppu_inv a \<Longrightarrow> vram_lock a \<noteq> 1 \<Longrightarrow> kd c = a \<Longrightarrow> midway pc a ((kd c)\<lparr>vram_lock := 1\<rparr>)"
    and ph: "phase_ok pc True 1"
  shows "shows_as c a (go t pc ((kd c)\<lparr>vram_lock := 1\<rparr>) c)"
proof -
  have idle: "pcs c = (\<lambda>_. Idle)" "kd c = a" "ppu_lock a = 1"
    using conc_outside [OF rel t] fl free by auto
  have "midway pc a ((kd c)\<lparr>vram_lock := 1\<rparr>)" using mid conc_inv [OF rel] free idle(2) by simp
  then show ?thesis
    using idle fl ph conc_inv [OF rel] by (intro shows_silent conc_relI [where t = t and pc = pc]) auto
qed

text \<open>A step inside a handler that shows nothing.\<close>

lemma step_inside:
  assumes rel: "conc_rel c a" and t: "pcs c t = pc" "pc \<noteq> Idle"
    and mid: "ppu_inv a \<Longrightarrow> ppu_lock a = 1 \<Longrightarrow> midway pc a (kd c) \<Longrightarrow> midway pc' a d"
    and ph: "\<And>fl. phase_ok pc fl 1 \<Longrightarrow> phase_ok pc' fl 1"
  shows "shows_as c a (go t pc' d c)"
proof -
  have act: "pcs c t \<noteq> Idle" using t by simp
  note c = conc_active [OF rel act, unfolded t(1)]
  show ?thesis
    using c mid ph by (intro shows_silent conc_relI [where t = t and pc = pc']) (simp_all add: c(2))
qed

text \<open>The step that ends a handler: everything it did shows at this moment.\<close>

lemma step_return:
  assumes rel: "conc_rel c a" and t: "pcs c t = pc" "pc \<noteq> Idle"
    and atom: "ppu_inv a \<Longrightarrow> ppu_lock a = 1 \<Longrightarrow> midway pc a (kd c) \<Longrightarrow> atomic_call a (Some (q, r)) d"
    and inv: "ppu_inv a \<Longrightarrow> ppu_lock a = 1 \<Longrightarrow> midway pc a (kd c) \<Longrightarrow> ppu_inv d"
    and ph: "\<And>fl. phase_ok pc fl 1 \<Longrightarrow> ppu_lock a = 1 \<Longrightarrow> ppu_inv a \<Longrightarrow> midway pc a (kd c) \<Longrightarrow> fl = (ppu_lock d = 1)"
    and cnt: "counted (q, r)"
  shows "shows_as c a (ret t q r d c)"
proof -
  have act: "pcs c t \<noteq> Idle" using t by simp
  note c = conc_active [OF rel act, unfolded t(1)]
  have "opened c = (ppu_lock d = 1)" using c ph by simp
  then have "conc_rel (ret t q r d c) d"
    using c inv by (intro conc_relI [where t = t and pc = Idle]) (simp_all add: c(2))
  then show ?thesis using atom [OF c(1,5,3)] cnt by (intro shows_event) simp_all
qed

lemma step_dma:
  assumes rel: "conc_rel c a" and pend: "dma_pending (dev (kd c))"
  shows "shows_as c a (c\<lparr>kd := dma_complete (kd c)\<rparr>)"
proof -
  obtain u pc where c: "ppu_inv a" "pcs c = (\<lambda>_. Idle)(u := pc)" "midway pc a (kd c)"
    "phase_ok pc (opened c) (ppu_lock a)"
    using rel by (auto simp: conc_rel_def)
  show ?thesis
  proof (cases "pc = Idle")
    case True
    have "ppu_lock (dma_complete a) = ppu_lock a" by (simp add: dma_complete_def ppu_irq_def)
    then have "conc_rel (c\<lparr>kd := dma_complete (kd c)\<rparr>) (dma_complete a)"
      using c True dma_complete_inv [OF c(1)] by (intro conc_relI [where t = u and pc = Idle]) simp_all
    then show ?thesis unfolding shows_as_def using atomic_dma [of a] by auto
  next
    case False
    then have "ppu_lock a = 1" using c(4) by (cases pc) simp_all
    then have "midway pc a (dma_complete (kd c))" using midway_dma [OF c(1) pend c(3) False] by simp
    then show ?thesis using c by (intro shows_silent conc_relI [where t = u and pc = pc]) simp_all
  qed
qed

lemma step_release_start:
  assumes rel: "conc_rel c a" and fl: "opened c" and idle: "\<forall>u. pcs c u = Idle"
  shows "ppu_lock (kd c) \<noteq> 0"
    and "shows_as c a ((go t RSpin ((kd c)\<lparr>ppu_lock := 1\<rparr>) c)\<lparr>opened := False\<rparr>)"
proof -
  have p: "pcs c = (\<lambda>_. Idle)" using idle by auto
  then obtain a': "kd c = a" "ppu_lock a = 1" "ppu_inv a"
    using rel fl by (auto simp: conc_rel_def dest: fun_cong split: if_splits)
  then show "ppu_lock (kd c) \<noteq> 0" by simp
  show "shows_as c a ((go t RSpin ((kd c)\<lparr>ppu_lock := 1\<rparr>) c)\<lparr>opened := False\<rparr>)"
    using a' p by (intro shows_silent conc_relI [where t = t and pc = RSpin]) (simp_all add: inv_locks(4))
qed

text \<open>The last step of each handler.\<close>

lemma step_write_unlock:
  assumes rel: "conc_rel c a" and t: "pcs c t = WCopy buf len off [] addr"
  shows "shows_as c a (ret t (QWrite buf len off) (if snd (buf (unat len)) \<noteq> 0 then - EFAULT else sint len)
    ((kd c)\<lparr>vram_lock := 0\<rparr>) c)"
proof (rule step_return [OF rel t])
  assume m: "ppu_inv a" "ppu_lock a = 1" "midway (WCopy buf len off [] addr) a (kd c)"
  from midway_write_unlock [OF m(1,3)] obtain off' where w: "ppu_write buf len off a
    = Returns (if snd (buf (unat len)) \<noteq> 0 then - EFAULT else sint len, off', (kd c)\<lparr>vram_lock := 0\<rparr>)" by blast
  have ok: "ubuf_ok buf" "vfs_pos off len" using m(3) by simp_all
  show "atomic_call a (Some (QWrite buf len off, if snd (buf (unat len)) \<noteq> 0 then - EFAULT else sint len))
      ((kd c)\<lparr>vram_lock := 0\<rparr>)"
    by (rule atomic_write [OF ok w])
  show "ppu_inv ((kd c)\<lparr>vram_lock := 0\<rparr>)" using ppu_write_inv [OF m(1) ok] w by auto
next
  have act: "pcs c t \<noteq> Idle" using t by simp
  have "midway (WCopy buf len off [] addr) a (kd c)" using conc_active(3) [OF rel act] t by simp
  then have "unat len \<le> VRAM_SIZE" by simp
  then have "sint len = int (unat len)" by (intro sint_len) simp
  then have "0 \<le> sint len" by (simp only: of_nat_0_le_iff)
  then show "counted (QWrite buf len off, if snd (buf (unat len)) \<noteq> 0 then - EFAULT else sint len)"
    by auto
qed auto

lemma step_update:
  assumes rel: "conc_rel c a" and t: "pcs c t = IMmio IOCTL_PPU_UPDATE x"
  shows "shows_as c a (ret t (QIoctl IOCTL_PPU_UPDATE x) 0
    (mmio_write PPU_DMA_ADDR_OFFSET (vram_addr_p (kd c)) (kd c)) c)"
proof (rule step_return [OF rel t])
  assume m: "ppu_inv a" "ppu_lock a = 1" "midway (IMmio IOCTL_PPU_UPDATE x) a (kd c)"
  note io = midway_ioctl(2) [OF m(1,3)]
  show "atomic_call a (Some (QIoctl IOCTL_PPU_UPDATE x, 0))
      (mmio_write PPU_DMA_ADDR_OFFSET (vram_addr_p (kd c)) (kd c))" by (rule atomic_ioctl [OF io])
  show "ppu_inv (mmio_write PPU_DMA_ADDR_OFFSET (vram_addr_p (kd c)) (kd c))"
    using ppu_ioctl_inv [OF m(1), of IOCTL_PPU_UPDATE x] io by simp
qed (auto simp: mmio_write_def)

lemma step_ioctl_unlock:
  assumes rel: "conc_rel c a" and t: "pcs c t = IUnlock cmd x r"
  shows "shows_as c a (ret t (QIoctl cmd x) r ((kd c)\<lparr>vram_lock := 0\<rparr>) c)"
proof (rule step_return [OF rel t])
  assume m: "ppu_inv a" "ppu_lock a = 1" "midway (IUnlock cmd x r) a (kd c)"
  then have io: "ppu_ioctl cmd x a = (r, (kd c)\<lparr>vram_lock := 0\<rparr>)" by simp
  show "atomic_call a (Some (QIoctl cmd x, r)) ((kd c)\<lparr>vram_lock := 0\<rparr>)" by (rule atomic_ioctl [OF io])
  show "ppu_inv ((kd c)\<lparr>vram_lock := 0\<rparr>)" using ppu_ioctl_inv [OF m(1), of cmd x] io by simp
next
  fix fl assume m: "phase_ok (IUnlock cmd x r) fl 1" "ppu_lock a = 1" "ppu_inv a" "midway (IUnlock cmd x r) a (kd c)"
  then show "fl = (ppu_lock ((kd c)\<lparr>vram_lock := 0\<rparr>) = 1)"
    using ioctl_effect(1) [OF m(3), of cmd x r "(kd c)\<lparr>vram_lock := 0\<rparr>"] by simp
next
  have act: "pcs c t \<noteq> Idle" using t by simp
  then have "ppu_inv a" "midway (IUnlock cmd x r) a (kd c)"
    using conc_active(1,3) [OF rel act] t by simp_all
  then show "counted (QIoctl cmd x, r)" by (cases cmd) (auto simp: ppu_ioctl_eq)
qed simp

lemma step_release_unlock:
  assumes rel: "conc_rel c a" and t: "pcs c t = RUnlockPpu"
  shows "shows_as c a (ret t QRelease 0 ((kd c)\<lparr>ppu_lock := 0\<rparr>) c)"
proof (rule step_return [OF rel t])
  assume m: "ppu_inv a" "ppu_lock a = 1" "midway RUnlockPpu a (kd c)"
  have fin: "(kd c)\<lparr>ppu_lock := 0\<rparr> = ppu_released a" using m(3) by (simp add: ppu_released_def)
  show "atomic_call a (Some (QRelease, 0)) ((kd c)\<lparr>ppu_lock := 0\<rparr>)"
    unfolding fin by (rule atomic_release [OF release_whole [OF m(1,2)]])
  show "ppu_inv ((kd c)\<lparr>ppu_lock := 0\<rparr>)" unfolding fin by (rule ppu_inv_released [OF m(1)])
qed auto

text \<open>Every step of the threads and of the device is invisible or one atomic call.\<close>

lemma pstep_simulates:
  assumes rel: "conc_rel c a" and step: "pstep c d"
  shows "shows_as c a d"
  using step
proof (cases rule: pstep.cases)
  case (open_xchg t r d')
  then show ?thesis using step_open [OF rel] by simp
next
  case (write_bounds t buf off len)
  then show ?thesis using step_bounds [OF rel] by simp
next
  case (write_busy t buf off len)
  then show ?thesis using step_refused [OF rel] by simp
next
  case (write_lock t buf off len)
  have "shows_as c a (go t (WCopy buf len off (fst (buf (unat len)))
      (vram_addr_v (kd c) + unat (ucast off :: u32))) ((kd c)\<lparr>vram_lock := 1\<rparr>) c)"
  proof (rule step_enter [OF rel write_lock(2,3,7)])
    assume "ppu_inv a" "vram_lock a \<noteq> 1" "kd c = a"
    then show "midway (WCopy buf len off (fst (buf (unat len)))
        (vram_addr_v (kd c) + unat (ucast off :: u32))) a ((kd c)\<lparr>vram_lock := 1\<rparr>)"
      using midway_write_lock write_lock by simp
  qed simp
  then show ?thesis using write_lock by simp
next
  case (write_byte t buf len off b bs addr)
  have "shows_as c a (go t (WCopy buf len off bs (Suc addr))
      ((kd c)\<lparr>vram_block := (vram_block (kd c))[addr := b]\<rparr>) c)"
    by (rule step_inside [OF rel write_byte(2)]) (auto intro: midway_write_byte(1) simp del: midway.simps)
  then show ?thesis using write_byte by simp
next
  case (write_unlock t buf len off addr)
  then show ?thesis using step_write_unlock [OF rel] by simp
next
  case (ioctl_busy t cmd x)
  then show ?thesis using step_refused [OF rel] by simp
next
  case (ioctl_lock t cmd x)
  have "shows_as c a (go t (IMmio cmd x) ((kd c)\<lparr>vram_lock := 1\<rparr>) c)"
    by (rule step_enter [OF rel ioctl_lock(2,3,4)]) (auto intro: midway_ioctl(1) simp del: midway.simps)
  then show ?thesis using ioctl_lock by simp
next
  case (ioctl_update t x)
  then show ?thesis using step_update [OF rel] by simp
next
  case (ioctl_mmio t cmd x reg)
  have "shows_as c a (go t (IUnlock cmd x 0) (mmio_write reg x (kd c)) c)"
    by (rule step_inside [OF rel ioctl_mmio(2)])
      (use ioctl_mmio(3) in \<open>auto intro: midway_mmio simp del: midway.simps\<close>)
  then show ?thesis using ioctl_mmio by simp
next
  case (ioctl_default t n x)
  have "shows_as c a (go t (IUnlock (PPU_OTHER n) x (- EINVAL)) (kd c) c)"
    by (rule step_inside [OF rel ioctl_default(2)]) (auto intro: midway_ioctl(3) simp del: midway.simps)
  then show ?thesis using ioctl_default by simp
next
  case (ioctl_unlock t cmd x r)
  then show ?thesis using step_ioctl_unlock [OF rel] by simp
next
  case (release_closed t)
  then show ?thesis using step_release_start(1) [OF rel] by simp
next
  case (release_start t)
  then show ?thesis using step_release_start(2) [OF rel] by simp
next
  case (release_spin t)
  have "shows_as c a (go t RSpin (kd c) c)" by (rule step_inside [OF rel release_spin(2)]) auto
  then show ?thesis using release_spin by (simp add: lock_idem)
next
  case (release_locked t)
  have "shows_as c a (go t (RClear 0) ((kd c)\<lparr>vram_lock := 1\<rparr>) c)"
    by (rule step_inside [OF rel release_locked(2)])
      (use release_locked(3) in \<open>auto intro: midway_spin simp del: midway.simps\<close>)
  then show ?thesis using release_locked by simp
next
  case (release_clear t k)
  have "shows_as c a (go t (RClear (Suc k)) ((kd c)\<lparr>vram_block := (vram_block (kd c))[k := 0]\<rparr>) c)"
    by (rule step_inside [OF rel release_clear(2)])
      (use release_clear(3) in \<open>auto intro: midway_clear(1) simp del: midway.simps\<close>)
  then show ?thesis using release_clear by simp
next
  case (release_cleared t)
  have "shows_as c a (go t (RRegs (release_regs (kd c))) (kd c) c)"
    by (rule step_inside [OF rel release_cleared(2)]) (auto intro: midway_clear(2) simp del: midway.simps)
  then show ?thesis using release_cleared by simp
next
  case (release_reg t reg v rs)
  have "shows_as c a (go t (if rs = [] then RSpin2 else RRegs rs) (mmio_write reg v (kd c)) c)"
    by (rule step_inside [OF rel release_reg(2)]) (auto dest: midway_reg simp del: midway.simps split: if_splits)
  then show ?thesis using release_reg by simp
next
  case (release_spin2 t)
  have "shows_as c a (go t RSpin2 (kd c) c)" by (rule step_inside [OF rel release_spin2(2)]) auto
  then show ?thesis using release_spin2 by (simp add: lock_idem)
next
  case (release_relocked t)
  have "shows_as c a (go t RUnlockVram ((kd c)\<lparr>vram_lock := 1\<rparr>) c)"
    by (rule step_inside [OF rel release_relocked(2)])
      (use release_relocked(3) in \<open>auto intro: midway_spin2 simp del: midway.simps\<close>)
  then show ?thesis using release_relocked by simp
next
  case (release_unlock_vram t)
  have "shows_as c a (go t RUnlockPpu ((kd c)\<lparr>vram_lock := 0\<rparr>) c)"
    by (rule step_inside [OF rel release_unlock_vram(2)]) (auto simp: ppu_released_def)
  then show ?thesis using release_unlock_vram by simp
next
  case (release_unlock_ppu t)
  then show ?thesis using step_release_unlock [OF rel] by simp
next
  case dma_done
  then show ?thesis using step_dma [OF rel] by simp
qed

interpretation ppu_threads: atomicity pstep answers atomic_call conc_rel
proof unfold_locales
  show "(conc_rel d a \<and> answers d = answers c)
    \<or> (\<exists>b. conc_rel d b \<and> atomic_call a None b \<and> answers d = answers c)
    \<or> (\<exists>b e. conc_rel d b \<and> atomic_call a (Some e) b \<and> answers d = e # answers c)"
    if "conc_rel c a" "pstep c d" for c a d
    using pstep_simulates [OF that] by (simp only: shows_as_def)
qed

text \<open>No thread runs yet, and the module has just been probed.\<close>

definition fresh :: "ppu_drv \<Rightarrow> ppu_conc" where
  "fresh s = \<lparr>kd = s, pcs = (\<lambda>_. Idle), opened = False, rets = []\<rparr>"

lemma fresh_rel: "ppu_init s \<Longrightarrow> conc_rel (fresh s) s"
  by (rule conc_relI [where t = 0 and pc = Idle])
    (auto simp: fresh_def intro: ppu_module.inv_init, simp add: ppu_init_def)

lemma fresh_answers [simp]: "answers (fresh s) = []"
  by (simp add: fresh_def answers_def)

lemma fresh_reach: "ppu_init s \<Longrightarrow> pstep\<^sup>*\<^sup>* (fresh s) c \<Longrightarrow> \<exists>a. conc_rel c a"
  using ppu_threads.rel_reach fresh_rel by blast

text \<open>The places of a handler between taking and giving up the VRAM lock.\<close>

fun in_vram :: "ppu_pc \<Rightarrow> bool" where
  "in_vram (WCopy buf len off bs addr) = True"
| "in_vram (IMmio cmd x) = True"
| "in_vram (IUnlock cmd x r) = True"
| "in_vram (RClear k) = True"
| "in_vram (RRegs rs) = True"
| "in_vram RUnlockVram = True"
| "in_vram _ = False"

lemma midway_in_vram:
  assumes inv: "ppu_inv a" and mid: "midway pc a d" and "in_vram pc"
  shows "vram_lock d = 1 \<and> \<not> dma_pending (dev d)"
proof (cases pc)
  case (IUnlock cmd x r)
  then have i: "\<not> dma_pending (dev a)" "vram_lock d = 1" "cmd \<noteq> IOCTL_PPU_UPDATE"
    "ppu_ioctl cmd x a = (r, d\<lparr>vram_lock := 0\<rparr>)"
    using mid by auto
  from ioctl_effect(2) [OF inv i(3,4)] i(1,2) show ?thesis by simp
next
  case (RRegs rs)
  obtain ds where ds: "d = foldl (\<lambda>s (reg, v). mmio_write reg v s) ((spun a)\<lparr>vram_block := zeros (VRAM_SIZE + 8)\<rparr>) ds"
    using mid RRegs by auto
  have "vram_lock (foldl (\<lambda>s (reg, v). mmio_write reg v s) s ds) = vram_lock s" for s
    by (induction ds arbitrary: s) (auto simp: mmio_write_def)
  then show ?thesis using ds midway_regs_idle [OF inv, of rs d] mid RRegs spun_sel(5) [OF inv] by simp
qed (use assms spun_sel [OF inv] in \<open>auto simp: ppu_released_def\<close>)

end
