(* ===== verification/PpuConcurrent_Props.thy ===== *)
theory PpuConcurrent_Props
  imports PpuConcurrent PpuDriver_Props
begin

text \<open>
  The properties of the interleaved handlers of the graphics module: mutual exclusion,
  atomicity and the absence of deadlock.
\<close>

section \<open>Handlers finish\<close>

text \<open>
  In a fair run a handler that stays able to take its next step takes it, and the device
  completes the transfers it is given; nothing is assumed of a handler that spins on the lock.
\<close>

definition can_go :: "nat \<Rightarrow> ppu_conc \<Rightarrow> bool" where
  "can_go t c \<longleftrightarrow> (\<exists>d. pstep c d \<and> pcs d t \<noteq> pcs c t)"

definition fair_run :: "(nat \<Rightarrow> ppu_conc) \<Rightarrow> bool" where
  "fair_run \<sigma> \<longleftrightarrow> (\<forall>i. pstep (\<sigma> i) (\<sigma> (Suc i)) \<or> \<sigma> (Suc i) = \<sigma> i)
     \<and> (\<forall>t i. (\<forall>j \<ge> i. pcs (\<sigma> j) t \<noteq> Idle \<and> can_go t (\<sigma> j)) \<longrightarrow> (\<exists>j \<ge> i. pcs (\<sigma> (Suc j)) t \<noteq> pcs (\<sigma> j) t))
     \<and> (\<forall>i. dma_pending (dev (kd (\<sigma> i))) \<longrightarrow> (\<exists>j \<ge> i. \<not> dma_pending (dev (kd (\<sigma> j)))))"

text \<open>How many steps of its own a handler has before it at most.\<close>

fun to_do :: "ppu_pc \<Rightarrow> nat" where
  "to_do Idle = 0"
| "to_do (WCopy buf len off bs addr) = Suc (length bs)"
| "to_do (IMmio cmd x) = 2"
| "to_do (IUnlock cmd x r) = 1"
| "to_do RSpin = VRAM_SIZE + 8 + 10"
| "to_do (RClear k) = VRAM_SIZE + 8 - k + 9"
| "to_do (RRegs rs) = length rs + 3"
| "to_do RSpin2 = 3"
| "to_do RUnlockVram = 2"
| "to_do RUnlockPpu = 1"

lemma to_do_less: "pstep c d \<Longrightarrow> pcs c t \<noteq> Idle \<Longrightarrow> pcs d t = pcs c t \<or> to_do (pcs d t) < to_do (pcs c t)"
  by (cases rule: pstep.cases) (auto simp: release_regs_def split: if_splits)

abbreviation spinning :: "ppu_pc \<Rightarrow> bool" where
  "spinning pc \<equiv> pc = RSpin \<or> pc = RSpin2"

lemma go_step: "pstep c (go t pc d c) \<Longrightarrow> pc \<noteq> pcs c t \<Longrightarrow> can_go t c"
  "pstep c (ret t q r d c) \<Longrightarrow> pcs c t \<noteq> Idle \<Longrightarrow> can_go t c"
  unfolding can_go_def by (metis go_sel(2) fun_upd_same, metis ret_sel(2) fun_upd_same)

lemma able_mmio:
  assumes p: "pcs c t = IMmio cmd x"
  shows "can_go t c"
proof -
  consider "cmd = IOCTL_PPU_UPDATE" | n where "cmd = PPU_OTHER n" | reg where "ioctl_reg cmd = Some reg"
    by (cases cmd) auto
  then show ?thesis
  proof cases
    case 1
    with p have "pcs c t = IMmio IOCTL_PPU_UPDATE x" by simp
    from go_step(2) [OF pstep.ioctl_update [OF this]] p show ?thesis by simp
  next
    case 2
    with p have "pcs c t = IMmio (PPU_OTHER n) x" by simp
    from go_step(1) [OF pstep.ioctl_default [OF this]] p show ?thesis by simp
  next
    case 3
    from go_step(1) [OF pstep.ioctl_mmio [OF p 3]] p show ?thesis by simp
  qed
qed

lemma able_copy:
  assumes p: "pcs c t = WCopy buf len off bs addr"
  shows "can_go t c"
proof (cases bs)
  case Nil
  with p have "pcs c t = WCopy buf len off [] addr" by simp
  from go_step(2) [OF pstep.write_unlock [OF this]] p show ?thesis by simp
next
  case (Cons b bs')
  with p have q: "pcs c t = WCopy buf len off (b # bs') addr" by simp
  from go_step(1) [OF pstep.write_byte [OF q]] q show ?thesis by simp
qed

lemma able_unlock:
  "pcs c t = IUnlock cmd x r \<Longrightarrow> can_go t c" "pcs c t = RUnlockVram \<Longrightarrow> can_go t c"
  "pcs c t = RUnlockPpu \<Longrightarrow> can_go t c"
  using go_step(2) [OF pstep.ioctl_unlock] go_step(1) [OF pstep.release_unlock_vram]
    go_step(2) [OF pstep.release_unlock_ppu] by fastforce+

text \<open>The spin loops wait for the device only.\<close>

lemma able:
  assumes rel: "conc_rel c a" and busy: "pcs c t \<noteq> Idle" and free: "spinning (pcs c t) \<longrightarrow> \<not> dma_pending (dev (kd c))"
  shows "can_go t c"
proof -
  note act = conc_active [OF rel busy]
  show ?thesis
  proof (cases "pcs c t")
    case RSpin
    with act(3) free inv_locks(1) [OF act(1)] have "vram_lock (kd c) \<noteq> 1"
      by (auto simp: dma_complete_def ppu_irq_def split: if_splits)
    from pstep.release_locked [OF RSpin this] RSpin show ?thesis by (intro go_step(1)) auto
  next
    case RSpin2
    with act(3) free sent_released [OF act(1,5)] have "vram_lock (kd c) \<noteq> 1" by (auto simp: ppu_released_def)
    from pstep.release_relocked [OF RSpin2 this] RSpin2 show ?thesis by (intro go_step(1)) auto
  next
    case (RClear k)
    then have "k < VRAM_SIZE + 8 \<or> k = VRAM_SIZE + 8" using act(3) by auto
    then show ?thesis
      using go_step(1) [OF pstep.release_clear [OF RClear]] go_step(1) [OF pstep.release_cleared [of c t]] RClear
      by auto
  next
    case (RRegs rs)
    then obtain reg v rs' where "rs = (reg, v) # rs'" using act(3) by (cases rs) auto
    with RRegs have p: "pcs c t = RRegs ((reg, v) # rs')" by simp
    from go_step(1) [OF pstep.release_reg [OF p]] p show ?thesis by (simp split: if_splits)
  qed (use busy in \<open>simp_all add: able_mmio able_copy able_unlock\<close>)
qed

text \<open>While a thread spins, no step gives the device a transfer.\<close>

lemma pending_step:
  "pstep c d \<Longrightarrow> dma_pending (dev (kd d)) \<Longrightarrow>
   dma_pending (dev (kd c)) \<or> (\<exists>u cmd x. pcs c u = IMmio cmd x) \<or> (\<exists>u rs. pcs c u = RRegs rs)"
proof (induction rule: pstep.induct)
  case (open_xchg c t r d)
  then show ?case by (auto simp: ppu_open_def Let_def split: if_splits)
next
  case (dma_done c)
  then show ?case by simp
qed (simp_all, blast+)

lemma still_free:
  assumes rel: "conc_rel c a" and spin: "spinning (pcs c t)" and free: "\<not> dma_pending (dev (kd c))" and step: "pstep c d"
  shows "\<not> dma_pending (dev (kd d))"
proof -
  have "pcs c t \<noteq> Idle" using spin by auto
  note alone = fun_cong [OF conc_active(2) [OF rel this]]
  have "pcs c u \<noteq> IMmio cmd x \<and> pcs c u \<noteq> RRegs rs" for u cmd x rs
    using alone [of u] spin by (cases "u = t") auto
  then show ?thesis using pending_step [OF step] free by blast
qed

lemma fair_runD:
  assumes "fair_run \<sigma>"
  shows "pstep (\<sigma> i) (\<sigma> (Suc i)) \<or> \<sigma> (Suc i) = \<sigma> i"
    and "(\<And>j. i \<le> j \<Longrightarrow> pcs (\<sigma> j) t \<noteq> Idle \<and> can_go t (\<sigma> j)) \<Longrightarrow> \<exists>j \<ge> i. pcs (\<sigma> (Suc j)) t \<noteq> pcs (\<sigma> j) t"
    and "\<exists>j \<ge> i. \<not> dma_pending (dev (kd (\<sigma> j)))"
  using assms unfolding fair_run_def by (blast, blast, metis order_refl)

lemma run_rel:
  assumes "ppu_init s" and "\<sigma> 0 = fresh s" and "\<forall>i. pstep (\<sigma> i) (\<sigma> (Suc i)) \<or> \<sigma> (Suc i) = \<sigma> i"
  shows "\<exists>a. conc_rel (\<sigma> i) a"
proof -
  have "pstep\<^sup>*\<^sup>* (fresh s) (\<sigma> i)"
  proof (induction i)
    case (Suc i)
    then show ?case using assms(3) rtranclp.rtrancl_into_rtrancl [of pstep "fresh s"] by metis
  qed (simp add: assms(2))
  with fresh_reach [OF assms(1)] show ?thesis by blast
qed

text \<open>A handler leaves every place it comes to.\<close>

lemma moves_on:
  assumes rel: "\<forall>i. \<exists>a. conc_rel (\<sigma> i) a" and fair: "fair_run \<sigma>" and busy: "pcs (\<sigma> i) t \<noteq> Idle"
  shows "\<exists>j \<ge> i. pcs (\<sigma> (Suc j)) t \<noteq> pcs (\<sigma> j) t"
proof (rule ccontr)
  assume "\<not> ?thesis"
  then have stay: "pcs (\<sigma> (Suc j)) t = pcs (\<sigma> j) t" if "i \<le> j" for j using that by blast
  have same: "pcs (\<sigma> j) t = pcs (\<sigma> i) t" if "i \<le> j" for j
    using that by (induction j rule: dec_induct) (simp_all add: stay)
  obtain k where k: "i \<le> k" "\<not> dma_pending (dev (kd (\<sigma> k)))" using fair_runD(3) [OF fair, of i] by blast
  have free: "\<not> dma_pending (dev (kd (\<sigma> j)))" if "k \<le> j" "spinning (pcs (\<sigma> i) t)" for j
    using that
  proof (induction j rule: dec_induct)
    case (step j)
    obtain a where "conc_rel (\<sigma> j) a" using rel by blast
    moreover have "pcs (\<sigma> j) t = pcs (\<sigma> i) t" by (rule same) (rule order_trans [OF k(1) step.hyps(1)])
    with step.prems have "spinning (pcs (\<sigma> j) t)" by (simp only:)
    moreover have "\<not> dma_pending (dev (kd (\<sigma> j)))" using step.IH step.prems by blast
    ultimately have "pstep (\<sigma> j) d \<Longrightarrow> \<not> dma_pending (dev (kd d))" for d by (rule still_free)
    with fair_runD(1) [OF fair, of j] show ?case
      using \<open>\<not> dma_pending (dev (kd (\<sigma> j)))\<close> by metis
  qed (rule k(2))
  have "pcs (\<sigma> j) t \<noteq> Idle \<and> can_go t (\<sigma> j)" if "k \<le> j" for j
  proof -
    obtain a where "conc_rel (\<sigma> j) a" using rel by blast
    moreover have "pcs (\<sigma> j) t = pcs (\<sigma> i) t" by (rule same) (rule order_trans [OF k(1) that])
    ultimately show ?thesis using able [of "\<sigma> j" a t] free [OF that] busy by simp
  qed
  from fair_runD(2) [OF fair this] obtain j where "k \<le> j" "pcs (\<sigma> (Suc j)) t \<noteq> pcs (\<sigma> j) t" by blast
  with stay [of j] k(1) show False by simp
qed

lemma first_move:
  fixes f :: "nat \<Rightarrow> 'a"
  assumes "\<exists>j \<ge> i. f (Suc j) \<noteq> f j"
  shows "\<exists>j \<ge> i. f j = f i \<and> f (Suc j) \<noteq> f j"
proof -
  let ?P = "\<lambda>j. i \<le> j \<and> f (Suc j) \<noteq> f j"
  from assms have P: "?P (LEAST j. ?P j)" by (metis (mono_tags, lifting) LeastI)
  have "f j = f i" if "i \<le> j" "j \<le> (LEAST j. ?P j)" for j
    using that
  proof (induction j rule: dec_induct)
    case (step j)
    then have "\<not> ?P j" using not_less_Least [of j ?P] by simp
    with step show ?case by simp
  qed simp
  with P show ?thesis by blast
qed

lemma finishes:
  assumes rel: "\<forall>i. \<exists>a. conc_rel (\<sigma> i) a" and fair: "fair_run \<sigma>"
  shows "\<exists>j \<ge> i. pcs (\<sigma> j) t = Idle"
proof (induction "to_do (pcs (\<sigma> i) t)" arbitrary: i rule: less_induct)
  case less
  show ?case
  proof (cases "pcs (\<sigma> i) t = Idle")
    case False
    from first_move [OF moves_on [OF rel fair False]]
    obtain j where j: "i \<le> j" "pcs (\<sigma> j) t = pcs (\<sigma> i) t" "pcs (\<sigma> (Suc j)) t \<noteq> pcs (\<sigma> j) t" by blast
    then have "pstep (\<sigma> j) (\<sigma> (Suc j))" using fair_runD(1) [OF fair, of j] by auto
    from to_do_less [OF this, of t] j False have "to_do (pcs (\<sigma> (Suc j)) t) < to_do (pcs (\<sigma> i) t)" by simp
    from less [OF this] j(1) show ?thesis by (meson Suc_leD order_trans)
  qed blast
qed

section \<open>Properties\<close>

text \<open>C9. However the handlers of any number of threads and the device interleave
  after the probe, at most one thread is inside a handler that has taken the VRAM lock or is
  closing the file; while it is between taking and giving up the lock, the lock is held and
  the device is not transferring; a write stores only inside the VRAM image; and while the
  device transfers, no step changes a byte of VRAM.\<close>

theorem ppu_threads_exclusive:
  assumes "ppu_init s" and "pstep\<^sup>*\<^sup>* (fresh s) c"
  shows "(\<forall>t u. pcs c t \<noteq> Idle \<longrightarrow> pcs c u \<noteq> Idle \<longrightarrow> t = u)
    \<and> (\<forall>t. in_vram (pcs c t) \<longrightarrow> vram_lock (kd c) = 1 \<and> \<not> dma_pending (dev (kd c)))
    \<and> (\<forall>t buf len off b bs addr. pcs c t = WCopy buf len off (b # bs) addr \<longrightarrow>
         vram_addr_v (kd c) \<le> addr \<and> addr < vram_addr_v (kd c) + VRAM_SIZE)
    \<and> (\<forall>d. pstep c d \<longrightarrow> dma_pending (dev (kd c)) \<longrightarrow> vram_block (kd d) = vram_block (kd c))"
proof -
  obtain a where rel: "conc_rel c a" using fresh_reach [OF assms] by blast
  note act = conc_active [OF rel]
  have one: "\<forall>t u. pcs c t \<noteq> Idle \<longrightarrow> pcs c u \<noteq> Idle \<longrightarrow> t = u"
    using act(2) by (metis fun_upd_apply)
  have lock: "vram_lock (kd c) = 1 \<and> \<not> dma_pending (dev (kd c))" if "in_vram (pcs c t)" for t
  proof -
    have "pcs c t \<noteq> Idle" using that by auto
    from midway_in_vram [OF act(1,3) [OF this] that] show ?thesis .
  qed
  have range: "vram_addr_v (kd c) \<le> addr \<and> addr < vram_addr_v (kd c) + VRAM_SIZE"
    if p: "pcs c t = WCopy buf len off (b # bs) addr" for t buf len off b bs addr
  proof -
    have "pcs c t \<noteq> Idle" using p by simp
    then have mid: "midway (WCopy buf len off (b # bs) addr) a (kd c)" using act(3) p by metis
    then have "length (fst (buf (unat len))) \<le> unat len" by (simp add: ubuf_ok_def)
    then show ?thesis using mid by auto
  qed
  have frozen: "vram_block (kd d) = vram_block (kd c)" if "pstep c d" "dma_pending (dev (kd c))" for d
    using that(1)
  proof (cases rule: pstep.cases)
    case (write_byte t buf len off b bs addr)
    then show ?thesis using lock [of t] that(2) by simp
  next
    case (release_clear t k)
    then show ?thesis using lock [of t] that(2) by simp
  qed (auto simp: mmio_write_def dma_complete_def ppu_irq_def ppu_open_def Let_def)
  show ?thesis using one lock range frozen by blast
qed

text \<open>C5. When no thread is inside a handler, the state of the module and the
  results that the calls have returned, less the writes and ioctls answered with EBUSY, are
  those of some sequence of atomic handler calls and completed transfers, in the order in
  which the calls returned, from the probed module.  The side condition is needed: a write or
  ioctl that comes while another handler holds the VRAM lock is answered with EBUSY, which no
  handler that runs alone would answer then; it changes nothing.\<close>

theorem ppu_handlers_atomic:
  assumes "ppu_init s" and "pstep\<^sup>*\<^sup>* (fresh s) c" and "\<forall>t. pcs c t = Idle"
  shows "history atomic_call s (filter (\<lambda>(q, r). r \<noteq> - EBUSY \<or> q = QOpen) (rets c)) (kd c)"
proof -
  obtain b where b: "conc_rel c b" "history atomic_call s (answers c) b"
    using ppu_threads.atomic_run [OF assms(2) fresh_rel [OF assms(1)]] by auto
  have "kd c = b" using b(1) assms(3) by (auto simp: conc_rel_def dest: fun_cong split: if_splits)
  moreover have "answers c = filter (\<lambda>(q, r). r \<noteq> - EBUSY \<or> q = QOpen) (rets c)"
    unfolding answers_def by (rule filter_cong) auto
  ultimately show ?thesis using b(2) by simp
qed

text \<open>C10. In every fair run from the probed module, however the handlers of any
  number of threads interleave, every handler that has started returns: a thread is outside
  the module again and again.  Fair means that a handler that could take its next step from
  some time on does take it, and that the device completes its transfers; that a spinning
  handler can go on is proved, not assumed.\<close>

theorem ppu_threads_finish:
  assumes "ppu_init s" and "\<sigma> 0 = fresh s" and "fair_run \<sigma>"
  shows "\<exists>j \<ge> i. pcs (\<sigma> j) t = Idle"
proof (rule finishes)
  show "\<forall>i. \<exists>a. conc_rel (\<sigma> i) a"
    using run_rel [of s \<sigma>] assms unfolding fair_run_def by blast
qed (rule assms(3))

text \<open>A probed module, and one on which a process has opened the file, a write of two threads
  overlaps and one of them is refused.\<close>

definition demo_write :: "ppu_req" where
  "demo_write = QWrite (user_mem [7]) 1 16"

definition demo_opened :: ppu_conc where
  "demo_opened = \<lparr>kd = demo_drv, pcs = (\<lambda>_. Idle), opened = True, rets = [(QOpen, 0)]\<rparr>"

definition demo_copying :: ppu_conc where
  "demo_copying = go 1 (WCopy (user_mem [7]) 1 16 [7] 16) (demo_drv\<lparr>vram_lock := 1\<rparr>) demo_opened"

lemma demo_step_open: "pstep (fresh demo_probed) demo_opened"
proof -
  have "pstep (fresh demo_probed) ((ret 1 QOpen 0 demo_drv (fresh demo_probed))\<lparr>opened := opened (fresh demo_probed) \<or> (0 :: int) = 0\<rparr>)"
    by (rule pstep.open_xchg) (simp_all add: fresh_def ppu_open_def demo_probed_def demo_drv_def)
  also have "(ret 1 QOpen 0 demo_drv (fresh demo_probed))\<lparr>opened := opened (fresh demo_probed) \<or> (0 :: int) = 0\<rparr>
      = demo_opened"
    by (simp add: demo_opened_def ret_def go_def fresh_def fun_upd_idem)
  finally show ?thesis .
qed

lemma demo_step_lock: "pstep demo_opened demo_copying"
proof -
  have "pstep demo_opened (go 1 (WCopy (user_mem [7]) 1 16 (fst (user_mem [7] (unat (1 :: u32))))
      (vram_addr_v (kd demo_opened) + unat (ucast (16 :: u64) :: u32))) ((kd demo_opened)\<lparr>vram_lock := 1\<rparr>) demo_opened)"
    by (rule pstep.write_lock) (simp_all add: demo_opened_def vfs_pos_def)
  also have "go 1 (WCopy (user_mem [7]) 1 16 (fst (user_mem [7] (unat (1 :: u32))))
      (vram_addr_v (kd demo_opened) + unat (ucast (16 :: u64) :: u32))) ((kd demo_opened)\<lparr>vram_lock := 1\<rparr>) demo_opened
      = demo_copying"
    by (simp add: demo_copying_def demo_opened_def user_mem_def demo_drv_def)
  finally show ?thesis .
qed

lemma demo_copying_reach: "pstep\<^sup>*\<^sup>* (fresh demo_probed) demo_copying"
  using demo_step_open demo_step_lock by (meson rtranclp.rtrancl_into_rtrancl rtranclp.rtrancl_refl)

theorem ppu_threads_exclusive_witness:
  "vram_lock (kd demo_copying) = 1 \<and> {t. pcs demo_copying t \<noteq> Idle} = {1}"
proof -
  have "pcs demo_copying 1 \<noteq> Idle" "in_vram (pcs demo_copying 1)"
    by (simp_all add: demo_copying_def)
  then show ?thesis
    using ppu_threads_exclusive [OF demo_probed_init demo_copying_reach] by blast
qed

text \<open>The copying write goes on after a write of another thread has been refused.\<close>

definition demo_returned :: ppu_conc where
  "demo_returned = ret 1 demo_write 1
     (demo_drv\<lparr>vram_block := (vram_block demo_drv)[16 := 7]\<rparr>) (ret 2 demo_write (- EBUSY) demo_drv demo_opened)"

lemma demo_returned_reach: "pstep\<^sup>*\<^sup>* (fresh demo_probed) demo_returned"
proof -
  let ?b = "ret 2 demo_write (- EBUSY) (kd demo_copying) demo_copying"
  let ?c = "go 1 (WCopy (user_mem [7]) 1 16 [] (Suc 16))
      ((kd ?b)\<lparr>vram_block := (vram_block (kd ?b))[16 := 7]\<rparr>) ?b"
  have "pstep demo_copying (ret 2 demo_write (- EBUSY) ((kd demo_copying)\<lparr>vram_lock := 1\<rparr>) demo_copying)"
    unfolding demo_write_def
    by (rule pstep.write_busy) (simp_all add: demo_copying_def demo_opened_def vfs_pos_def)
  then have 1: "pstep demo_copying ?b" by (simp add: demo_copying_def)
  have 2: "pstep ?b (go 1 (WCopy (user_mem [7]) 1 16 [] (Suc 16))
      ((kd ?b)\<lparr>vram_block := (vram_block (kd ?b))[16 := 7]\<rparr>) ?b)"
    by (rule pstep.write_byte) (simp add: demo_copying_def)
  have "pstep ?c (ret 1 demo_write (if snd (user_mem [7] (unat (1 :: u32))) \<noteq> 0 then - EFAULT else sint (1 :: u32))
      ((kd ?c)\<lparr>vram_lock := 0\<rparr>) ?c)"
    unfolding demo_write_def by (rule pstep.write_unlock) simp
  also have "ret 1 demo_write (if snd (user_mem [7] (unat (1 :: u32))) \<noteq> 0 then - EFAULT else sint (1 :: u32))
      ((kd ?c)\<lparr>vram_lock := 0\<rparr>) ?c = demo_returned"
    by (simp add: user_mem_def demo_copying_def demo_returned_def ret_def go_def demo_opened_def demo_drv_def
        fun_eq_iff)
  finally have 3: "pstep ?c demo_returned" .
  note steps = rtranclp.rtrancl_into_rtrancl [where r = pstep]
  have "pstep\<^sup>*\<^sup>* (fresh demo_probed) ?b" by (rule steps [OF demo_copying_reach]) (rule 1)
  then have "pstep\<^sup>*\<^sup>* (fresh demo_probed) ?c" by (rule steps) (rule 2)
  then show ?thesis by (rule steps) (rule 3)
qed

theorem ppu_handlers_atomic_witness:
  "history atomic_call demo_probed [(demo_write, 1), (QOpen, 0)] (kd demo_returned)"
proof -
  have "\<forall>t. pcs demo_returned t = Idle" by (simp add: demo_returned_def demo_opened_def)
  from ppu_handlers_atomic [OF demo_probed_init demo_returned_reach this]
  show ?thesis by (simp add: demo_returned_def demo_opened_def demo_write_def)
qed

text \<open>The same write, run to its end.\<close>

definition demo_stored :: ppu_conc where
  "demo_stored = go 1 (WCopy (user_mem [7]) 1 16 [] 17)
     ((kd demo_copying)\<lparr>vram_block := (vram_block (kd demo_copying))[16 := 7]\<rparr>) demo_copying"

definition demo_written :: ppu_conc where
  "demo_written = ret 1 demo_write 1 ((kd demo_stored)\<lparr>vram_lock := 0\<rparr>) demo_stored"

definition demo_run :: "nat \<Rightarrow> ppu_conc" where
  "demo_run i = (if i = 0 then fresh demo_probed else if i = 1 then demo_opened else if i = 2 then demo_copying
     else if i = 3 then demo_stored else demo_written)"

lemma demo_step_store: "pstep demo_copying demo_stored"
proof -
  have "pcs demo_copying 1 = WCopy (user_mem [7]) 1 16 [7] 16" by (simp add: demo_copying_def)
  from pstep.write_byte [OF this] show ?thesis by (simp add: demo_stored_def)
qed

lemma demo_step_unlock: "pstep demo_stored demo_written"
proof -
  have "pcs demo_stored 1 = WCopy (user_mem [7]) 1 16 [] 17" by (simp add: demo_stored_def)
  from pstep.write_unlock [OF this] show ?thesis by (simp add: demo_written_def demo_write_def user_mem_def)
qed

lemma demo_fair_run: "fair_run demo_run"
proof -
  have "pstep (demo_run i) (demo_run (Suc i)) \<or> demo_run (Suc i) = demo_run i" for i
  proof -
    consider "i = 0" | "i = 1" | "i = 2" | "i = 3" | "4 \<le> i" by linarith
    then show ?thesis
      by cases (simp_all add: demo_run_def demo_step_open demo_step_lock demo_step_store demo_step_unlock)
  qed
  moreover have "pcs (demo_run j) t = Idle" if "4 \<le> j" for j t
    using that by (simp add: demo_run_def demo_written_def demo_stored_def demo_copying_def demo_opened_def)
  then have "\<not> (\<forall>j \<ge> i. pcs (demo_run j) t \<noteq> Idle \<and> can_go t (demo_run j))" for i t
    by (meson max.cobounded1 max.cobounded2)
  moreover have "\<not> dma_pending (dev (kd (demo_run i)))" for i
    by (simp add: demo_run_def demo_written_def demo_stored_def demo_copying_def demo_opened_def fresh_def demo_probed_def)
  ultimately show ?thesis unfolding fair_run_def by blast
qed

theorem ppu_threads_finish_witness:
  "pcs (demo_run 2) 1 \<noteq> Idle \<and> (\<exists>j \<ge> 2. pcs (demo_run j) 1 = Idle)"
proof -
  have "demo_run 0 = fresh demo_probed" by (simp add: demo_run_def)
  from ppu_threads_finish [OF demo_probed_init this demo_fair_run, of 2 1] show ?thesis
    by (simp add: demo_run_def demo_copying_def)
qed

end
