(* ===== verification/Scanf.thy ===== *)
theory Scanf
  imports Noway
begin

text \<open>
  \<open>fscanf\<close> of the C library, as far as the loaders of \<^verbatim>\<open>Library/src/ppu.c\<close> use
  it: directives for white space, for a character and for an unsigned hexadecimal number of
  a maximal width.  A stream is the list of the characters that are still to be read.
\<close>

section \<open>Characters\<close>

definition is_space :: "char \<Rightarrow> bool" where
  "is_space c \<longleftrightarrow> (let n = of_char c :: nat in n = 32 \<or> (9 \<le> n \<and> n \<le> 13))"

definition hex_digit :: "char \<Rightarrow> nat option" where
  "hex_digit c = (let n = of_char c :: nat in
     if 48 \<le> n \<and> n \<le> 57 then Some (n - 48)
     else if 65 \<le> n \<and> n \<le> 70 then Some (n - 55)
     else if 97 \<le> n \<and> n \<le> 102 then Some (n - 87)
     else None)"

abbreviation is_hex :: "char \<Rightarrow> bool" where
  "is_hex c \<equiv> hex_digit c \<noteq> None"

definition hex_val :: "string \<Rightarrow> u32" where
  "hex_val ds = foldl (\<lambda>v c. 16 * v + of_nat (the (hex_digit c))) 0 ds"

section \<open>Conversions\<close>

fun take_hex :: "nat \<Rightarrow> string \<Rightarrow> string \<times> string" where
  "take_hex (Suc n) (c # s) =
     (if is_hex c then (let (ds, r) = take_hex n s in (c # ds, r)) else ([], c # s))"
| "take_hex n s = ([], s)"

text \<open>
  The number at the front of a stream: an optional sign, an optional \<open>0x\<close> and digits, the
  whole not longer than \<open>n\<close>.  \<open>None\<close> is a matching failure; what was read stays read.
  \<open>strtoul\<close> cannot overflow with the widths of the program, which are at most eight.
\<close>

definition hex_item :: "nat \<Rightarrow> string \<Rightarrow> u32 option \<times> string" where
  "hex_item n s =
     (let signed = (n > 0 \<and> s \<noteq> [] \<and> hd s \<in> {CHR ''-'', CHR ''+''});
          neg = (signed \<and> hd s = CHR ''-'');
          (s, n) = (if signed then (tl s, n - 1) else (s, n));
          (s, n) = (if 2 \<le> n \<and> take 2 s \<in> {''0x'', ''0X''} then (drop 2 s, n - 2) else (s, n));
          (ds, r) = take_hex n s
      in (if ds = [] then None else Some (if neg then - hex_val ds else hex_val ds), r))"

section \<open>Formats\<close>

datatype directive = Skip | Lit char | HexField nat

abbreviation (input) EOF :: int where "EOF \<equiv> -1"

text \<open>
  What a call returns, the numbers it has stored in order, and the rest of the stream.  It
  returns the count of the numbers, or \<open>EOF\<close> if the stream ends before the first.
\<close>

fun scan :: "directive list \<Rightarrow> string \<Rightarrow> u32 list \<Rightarrow> int \<times> u32 list \<times> string" where
  "scan [] s vs = (int (length vs), vs, s)"
| "scan (Skip # fmt) s vs = scan fmt (dropWhile is_space s) vs"
| "scan (Lit c # fmt) s vs =
     (case s of
        [] \<Rightarrow> (if vs = [] then EOF else int (length vs), vs, [])
      | d # s' \<Rightarrow> if d = c then scan fmt s' vs else (int (length vs), vs, s))"
| "scan (HexField n # fmt) s vs =
     (let s = dropWhile is_space s
      in if s = [] then (if vs = [] then EOF else int (length vs), vs, [])
         else case hex_item n s of
                (None, r) \<Rightarrow> (int (length vs), vs, r)
              | (Some v, r) \<Rightarrow> scan fmt r (vs @ [v]))"

declare scan.simps(4) [simp del]

definition fscanf :: "directive list \<Rightarrow> string \<Rightarrow> int \<times> u32 list \<times> string" where
  "fscanf fmt s = scan fmt s []"

section \<open>Reading digits\<close>

definition digits :: "nat \<Rightarrow> string \<Rightarrow> bool" where
  "digits n ds \<longleftrightarrow> length ds = n \<and> list_all is_hex ds"

lemma hex_not_special:
  "hex_digit c = Some d \<Longrightarrow> \<not> is_space c"
  "is_hex c \<Longrightarrow> c \<noteq> CHR ''-'' \<and> c \<noteq> CHR ''+'' \<and> c \<noteq> CHR ''x'' \<and> c \<noteq> CHR ''X''"
  by (auto simp: hex_digit_def is_space_def Let_def split: if_splits)

lemma take_hex_digits:
  "list_all is_hex ds \<Longrightarrow> length ds \<le> n \<Longrightarrow> length ds = n \<or> r = [] \<or> \<not> is_hex (hd r)
   \<Longrightarrow> take_hex n (ds @ r) = (ds, r)"
proof (induction ds arbitrary: n)
  case Nil
  then show ?case by (cases n; cases r) auto
next
  case (Cons d ds)
  then show ?case by (cases n) auto
qed

lemma dropWhile_hex: "digits n ds \<Longrightarrow> n \<noteq> 0 \<Longrightarrow> dropWhile is_space (ds @ r) = ds @ r"
  by (cases ds) (auto simp: digits_def dest: hex_not_special(1))

text \<open>
  A field of \<open>k\<close> digits is read by a directive of width \<open>k\<close>, or of a larger one if neither a
  digit nor an \<open>x\<close> follows.
\<close>

definition field_end :: "string \<Rightarrow> bool" where
  "field_end r \<longleftrightarrow> r = [] \<or> (\<not> is_hex (hd r) \<and> hd r \<noteq> CHR ''x'' \<and> hd r \<noteq> CHR ''X'')"

lemma hex_item_digits:
  assumes "digits k ds" and "0 < k" "k \<le> n" and "k = n \<or> field_end r"
  shows "hex_item n (ds @ r) = (Some (hex_val ds), r)"
proof -
  obtain d es where ds: "ds = d # es" using assms(1,2) by (cases ds) (auto simp: digits_def)
  have d: "is_hex d" "list_all is_hex es" "length es = k - 1" using assms(1) by (auto simp: ds digits_def)
  have sign: "d \<noteq> CHR ''-''" "d \<noteq> CHR ''+''" using hex_not_special(2) [OF d(1)] by auto
  have pre: "\<not> (2 \<le> n \<and> take 2 (d # es @ r) \<in> {''0x'', ''0X''})"
  proof (cases es)
    case Nil
    then have "k = 1" using d(3) assms(2) by simp
    then show ?thesis using assms(3,4) Nil by (cases r) (auto simp: field_end_def)
  next
    case (Cons e es')
    then have "e \<noteq> CHR ''x''" "e \<noteq> CHR ''X''" using d(2) hex_not_special(2) [of e] by auto
    then show ?thesis using Cons by auto
  qed
  have t: "take_hex n (d # es @ r) = (d # es, r)"
    using take_hex_digits [of ds n r] assms by (auto simp: ds digits_def field_end_def)
  show ?thesis unfolding hex_item_def using sign pre t by (auto simp: ds Let_def)
qed

lemma scan_field:
  assumes "digits k ds" and "0 < k" "k \<le> n" and "k = n \<or> field_end r"
  shows "scan (HexField n # fmt) (ds @ r) vs = scan fmt r (vs @ [hex_val ds])"
proof -
  have "ds \<noteq> []" using assms(1,2) by (auto simp: digits_def)
  then show ?thesis
    using dropWhile_hex [OF assms(1), of r] assms(2) hex_item_digits [OF assms] by (simp add: Let_def scan.simps(4))
qed

lemma scan_field_exact: "digits k ds \<Longrightarrow> 0 < k \<Longrightarrow> scan (HexField k # fmt) (ds @ r) vs = scan fmt r (vs @ [hex_val ds])"
  using scan_field [of k ds k r] by simp

lemma scan_field_empty: "scan (HexField n # fmt) [] [] = (EOF, [], [])"
  by (simp add: scan.simps(4))

text \<open>White space is skipped up to what starts with none.\<close>

definition blank :: "string \<Rightarrow> bool" where
  "blank ws \<longleftrightarrow> list_all is_space ws"

lemma dropWhile_blank: "blank ws \<Longrightarrow> r = [] \<or> \<not> is_space (hd r) \<Longrightarrow> dropWhile is_space (ws @ r) = r"
  by (induction ws; cases r) (auto simp: blank_def)

subsection \<open>The value of digits\<close>

text \<open>Pixel \<open>k\<close> of a pattern row, counted from the low end.\<close>

definition nibble :: "nat \<Rightarrow> u32 \<Rightarrow> u32" where
  "nibble k v = drop_bit (4 * k) v AND 0xF"

lemma hex_val_snoc: "hex_val (ds @ [c]) = 16 * hex_val ds + of_nat (the (hex_digit c))"
  by (simp add: hex_val_def)

lemma hex_digit_less: "hex_digit c = Some d \<Longrightarrow> d < 16"
  by (auto simp: hex_digit_def Let_def split: if_splits)

lemma hex_val_nat: "digits n ds \<Longrightarrow> n \<le> 8 \<Longrightarrow> unat (hex_val ds) < 16 ^ n"
proof (induction n arbitrary: ds)
  case 0
  then show ?case by (simp add: digits_def hex_val_def)
next
  case (Suc n)
  then obtain es c where ds: "ds = es @ [c]" by (cases ds rule: rev_cases) (auto simp: digits_def)
  then have es: "digits n es" and c: "is_hex c" using Suc.prems by (auto simp: digits_def)
  have e: "unat (hex_val es) < 16 ^ n" using Suc.IH [OF es] Suc.prems by simp
  have d: "the (hex_digit c) < 16" using c hex_digit_less by auto
  have p: "(16 :: nat) ^ n \<le> 16 ^ 7" using Suc.prems by (intro power_increasing) auto
  then have small: "16 * unat (hex_val es) + the (hex_digit c) < 2 ^ 32" using e d by simp
  have "hex_val ds = of_nat (16 * unat (hex_val es) + the (hex_digit c))"
    by (simp add: ds hex_val_snoc)
  then have "unat (hex_val ds) = 16 * unat (hex_val es) + the (hex_digit c)"
    using small by (simp only: unat_of_nat_u32)
  then show ?case using e d by simp
qed

lemma unat_nibble: "unat (nibble k v) = unat v div 16 ^ k mod 16"
proof -
  have "nibble k v = take_bit 4 (drop_bit (4 * k) v)"
    by (simp add: nibble_def take_bit_eq_mask mask_eq_exp_minus_1)
  moreover have "take_bit 32 (unat v) = unat v"
    by (rule take_bit_nat_eq_self) (rule unat_u32_less)
  ultimately have "unat (nibble k v) = take_bit 4 (drop_bit (4 * k) (unat v))"
    by (simp add: unsigned_take_bit_eq unsigned_drop_bit_eq)
  then show ?thesis by (simp add: take_bit_eq_mod drop_bit_eq_div power_mult)
qed

lemma unat_hex_val_snoc:
  assumes "digits n es" and "n < 8" and "hex_digit c = Some d"
  shows "unat (hex_val (es @ [c])) = 16 * unat (hex_val es) + d"
proof -
  have e: "unat (hex_val es) < 16 ^ n" using hex_val_nat [OF assms(1)] assms(2) by simp
  have p: "(16 :: nat) ^ n \<le> 16 ^ 7" using assms(2) by (intro power_increasing) auto
  have "16 * unat (hex_val es) + d < 2 ^ 32" using e p hex_digit_less [OF assms(3)] by simp
  moreover have "hex_val (es @ [c]) = of_nat (16 * unat (hex_val es) + d)"
    using assms(3) by (simp add: hex_val_snoc)
  ultimately show ?thesis by (simp only: unat_of_nat_u32)
qed

text \<open>The digit at place \<open>k\<close> of the text is the nibble at place \<open>n - 1 - k\<close> of the number.\<close>

lemma nibble_hex_val:
  "digits n ds \<Longrightarrow> n \<le> 8 \<Longrightarrow> k < n \<Longrightarrow>
   unat (nibble (n - 1 - k) (hex_val ds)) = the (hex_digit (ds ! k))"
proof (induction n arbitrary: ds)
  case (Suc n)
  then obtain es c where ds: "ds = es @ [c]" by (cases ds rule: rev_cases) (auto simp: digits_def)
  then obtain d where es: "digits n es" and c: "hex_digit c = Some d"
    using Suc.prems by (auto simp: digits_def)
  have d: "d < 16" by (rule hex_digit_less [OF c])
  have v: "unat (hex_val ds) = 16 * unat (hex_val es) + d"
    unfolding ds by (rule unat_hex_val_snoc [OF es _ c]) (use Suc.prems in simp)
  have l: "length es = n" using es by (simp add: digits_def)
  show ?case
  proof (cases "k = n")
    case True
    then show ?thesis using l c d by (simp add: unat_nibble v) (simp add: ds nth_append)
  next
    case False
    then have k: "k < n" using Suc.prems by simp
    then have s: "Suc n - 1 - k = Suc (n - 1 - k)" by simp
    have "(16 * unat (hex_val es) + d) div 16 ^ Suc j = unat (hex_val es) div 16 ^ j" for j
      using d by (simp add: div_mult2_eq)
    then have "unat (nibble (Suc n - 1 - k) (hex_val ds)) = unat (nibble (n - 1 - k) (hex_val es))"
      by (simp only: s unat_nibble v)
    also have "\<dots> = the (hex_digit (es ! k))" by (rule Suc.IH [OF es _ k]) (use Suc.prems in simp)
    finally show ?thesis using k l by (simp add: ds nth_append)
  qed
qed simp

end
