(* ===== verification/PpuLoaders.thy ===== *)
theory PpuLoaders
  imports PpuData Scanf
begin

text \<open>
  The functions of \<^verbatim>\<open>Library/src/ppu.c\<close> that load tiles, patterns and palettes
  from text files.
\<close>

section \<open>Files\<close>

text \<open>
  What the functions find in the system: the text of the file, or \<open>None\<close> when it cannot be
  opened, what \<open>fclose\<close> returns, and the text of \<open>errno\<close>.
\<close>

record text_file =
  content :: "string option"
  close_ret :: int
  err_text :: string

text \<open>A variable whose address was passed as the \<open>i\<close>-th argument after the format.\<close>

definition stored :: "u32 list \<Rightarrow> nat \<Rightarrow> u32 \<Rightarrow> u32" where
  "stored vs i old = (if i < length vs then vs ! i else old)"

section \<open>Tile maps\<close>

definition tile_format :: "directive list" where
  "tile_format = [Lit CHR ''('', HexField 3, Lit CHR '','', HexField 1, Lit CHR '','', HexField 1,
     Lit CHR '')'', Skip]"

text \<open>
  The loop with \<open>n\<close> turns left of the \<open>len\<close>.  The three variables keep what the last
  successful conversion stored in them, and what they hold before the first is \<open>a b c\<close> of
  the caller.
\<close>

fun tilemap_loop :: "nat \<Rightarrow> nat \<Rightarrow> u32 \<Rightarrow> u32 \<Rightarrow> u32 \<Rightarrow> string \<Rightarrow> tile_t list \<Rightarrow> tile_t list outcome" where
  "tilemap_loop 0 i a b c s tilemap = Done tilemap"
| "tilemap_loop (Suc n) i a b c s tilemap =
     (let (result, vs, s) = fscanf tile_format s;
          a = stored vs 0 a; b = stored vs 1 b; c = stored vs 2 c
      in and_then (ppu_make_tile a b c) (\<lambda>tiledata.
         if i < length tilemap then
           (let tilemap = tilemap[i := tiledata]
            in if result \<noteq> EOF then tilemap_loop n (Suc i) a b c s tilemap else Done tilemap)
         else Undef))"

text \<open>\<open>junk\<close> is what the three uninitialised variables hold.\<close>

definition ppu_load_tilemap :: "text_file \<Rightarrow> u32 \<times> u32 \<times> u32 \<Rightarrow> tile_t list option \<Rightarrow> u32
    \<Rightarrow> tile_t list outcome" where
  "ppu_load_tilemap f junk tilemap len =
     nowaymsg (tilemap = None) ''Tile array is NULL!''
    (if len = 0 then Done (the tilemap)
     else
       nowaymsg (content f = None) (err_text f)
      (case junk of (a, b, c) \<Rightarrow>
       and_then (tilemap_loop (unat len) 0 a b c (the (content f)) (the tilemap))
        (\<lambda>tilemap. nowaymsg (close_ret f = EOF) (err_text f) (Done tilemap))))"

section \<open>Patterns\<close>

definition rev_nibbles :: "u32 \<Rightarrow> u32" where
  "rev_nibbles v =
     (let v = push_bit 4 (v AND 0x0F0F0F0F) OR drop_bit 4 (v AND 0xF0F0F0F0);
          v = push_bit 8 (v AND 0x00FF00FF) OR drop_bit 8 (v AND 0xFF00FF00)
      in push_bit 16 (v AND 0x0000FFFF) OR drop_bit 16 (v AND 0xFFFF0000))"

text \<open>The three loops visit tile row, pixel row and tile column in this order.\<close>

definition tile_cells :: "u32 \<Rightarrow> nat \<Rightarrow> (u32 \<times> nat \<times> u32) list" where
  "tile_cells width tile =
     concat (map (\<lambda>row. map (\<lambda>px. (of_nat tile, row, of_nat px)) [0..<unat width])
       [0..<TILEPATTERN_HEIGHT])"

definition load_cells :: "u32 \<Rightarrow> u32 \<Rightarrow> (u32 \<times> nat \<times> u32) list" where
  "load_cells width height = concat (map (tile_cells width) [0..<unat height])"

definition pattern_format :: "u32 \<Rightarrow> u32 \<Rightarrow> directive list" where
  "pattern_format width px = (if px = width - 1 then [HexField 8, Skip] else [HexField 8])"

definition set_pxrow :: "nat \<Rightarrow> nat \<Rightarrow> u32 \<Rightarrow> pattern_t list \<Rightarrow> pattern_t list" where
  "set_pxrow i row v pattern = pattern[i := (pattern ! i)\<lparr>pxrow := (pxrow (pattern ! i))[row := v]\<rparr>]"

fun read_cells :: "text_file \<Rightarrow> u32 \<Rightarrow> u32 \<Rightarrow> (u32 \<times> nat \<times> u32) list \<Rightarrow> string \<Rightarrow> pattern_t list
    \<Rightarrow> pattern_t list outcome" where
  "read_cells f width height [] s pattern = Done pattern"
| "read_cells f width height ((tile, row, px) # cells) s pattern =
     (let (result, vs, s) = fscanf (pattern_format width px) s
      in nowaymsg (result \<noteq> 1) (err_text f)
        (let row_pattern = rev_nibbles (vs ! 0);
             i = px + tile * height
         in if unat i < length pattern
            then read_cells f width height cells s (set_pxrow (unat i) row row_pattern pattern)
            else Undef))"

definition ppu_load_pattern :: "text_file \<Rightarrow> pattern_t list option \<Rightarrow> u32 \<Rightarrow> u32
    \<Rightarrow> pattern_t list outcome" where
  "ppu_load_pattern f pattern width height =
     nowaymsg (pattern = None) ''Tile array is NULL!''
    (nowaymsg (width = 0) ''Pattern width cannot be 0!''
    (nowaymsg (height = 0) ''Pattern height cannot be 0!''
    (nowaymsg (content f = None) (err_text f)
    (read_cells f width height (load_cells width height) (the (content f)) (the pattern)))))"

section \<open>Palettes\<close>

definition palette_format :: "directive list" where
  "palette_format = [HexField 6, Skip]"

text \<open>The loop with \<open>n\<close> of its sixteen turns left; \<open>color\<close> is uninitialised before the first.\<close>

fun palette_loop :: "nat \<Rightarrow> nat \<Rightarrow> u32 \<Rightarrow> string \<Rightarrow> palette_t \<Rightarrow> palette_t outcome" where
  "palette_loop 0 count color s palette = Done palette"
| "palette_loop (Suc n) count color s palette =
     (let (result, vs, s) = fscanf palette_format s;
          color = stored vs 0 color
      in if count > 0 \<and> \<not> count - 1 < length (colors palette) then Undef
         else
           (let palette = (if count > 0 then palette\<lparr>colors := (colors palette)[count - 1 := color]\<rparr>
                           else palette)
            in if result \<noteq> EOF then palette_loop n (Suc count) color s palette else Done palette))"

definition ppu_load_palette :: "text_file \<Rightarrow> u32 \<Rightarrow> palette_t option \<Rightarrow> palette_t outcome" where
  "ppu_load_palette f junk palette =
     nowaymsg (palette = None) ''Palette is NULL!''
    (nowaymsg (content f = None) (err_text f)
    (and_then (palette_loop 16 0 junk (the (content f)) (the palette))
      (\<lambda>palette. nowaymsg (close_ret f = EOF) (err_text f) (Done palette))))"

end
