(* ===== verification/PpuLoaders_Props.thy ===== *)
theory PpuLoaders_Props
  imports PpuLoaders Prelude
begin

text \<open>
  The properties of the loaders: what well-formed text files load as.
\<close>

section \<open>Tile maps\<close>

text \<open>An entry of a tile map file is the three hexadecimal fields and the blanks after it.\<close>

record entry =
  e_addr :: string
  e_pal :: string
  e_mir :: string
  e_gap :: string

definition entry_text :: "entry \<Rightarrow> string" where
  "entry_text e = ''('' @ e_addr e @ '','' @ e_pal e @ '','' @ e_mir e @ '')'' @ e_gap e"

definition entry_ok :: "entry \<Rightarrow> bool" where
  "entry_ok e \<longleftrightarrow> digits 3 (e_addr e) \<and> digits 1 (e_pal e) \<and> digits 1 (e_mir e) \<and> blank (e_gap e)
     \<and> hex_val (e_addr e) \<le> PATTERN_MAXADDR \<and> hex_val (e_mir e) \<le> MIRROR_MAXVAL"

definition entry_tile :: "entry \<Rightarrow> tile_t" where
  "entry_tile e = ucast (push_bit 6 (hex_val (e_addr e)) OR push_bit 2 (hex_val (e_pal e))
     OR hex_val (e_mir e))"

definition entries_text :: "entry list \<Rightarrow> string" where
  "entries_text es = concat (map entry_text es)"

lemma entries_text_simps [simp]:
  "entries_text [] = []" "entries_text (e # es) = entry_text e @ entries_text es"
  by (simp_all add: entries_text_def)

lemma entries_start: "entries_text es = [] \<or> \<not> is_space (hd (entries_text es))"
  by (cases es) (simp_all add: entry_text_def is_space_def)

lemma scan_entry:
  assumes "entry_ok e"
  shows "fscanf tile_format (entry_text e @ entries_text es)
    = (3, [hex_val (e_addr e), hex_val (e_pal e), hex_val (e_mir e)], entries_text es)"
proof -
  have "blank (e_gap e)" using assms by (simp add: entry_ok_def)
  then have "dropWhile is_space (e_gap e @ entries_text es) = entries_text es"
    using entries_start by (rule dropWhile_blank)
  then show ?thesis
    using assms by (simp add: fscanf_def tile_format_def entry_text_def entry_ok_def scan_field_exact)
qed

lemma scan_no_entry: "fscanf tile_format [] = (EOF, [], [])"
  by (simp add: fscanf_def tile_format_def)

lemma digit_pal: "digits 1 ds \<Longrightarrow> \<not> hex_val ds \<ge> TILELAYER_MAX_PALETTES"
  using hex_val_nat [of 1 ds] by (simp add: word_le_nat_alt)

lemma entry_tile_made:
  "entry_ok e \<Longrightarrow> ppu_make_tile (hex_val (e_addr e)) (hex_val (e_pal e)) (hex_val (e_mir e)) = Done (entry_tile e)"
  using digit_pal [of "e_pal e"]
  by (simp add: ppu_make_tile_def entry_ok_def entry_tile_def not_less [symmetric])

text \<open>
  The loop from an entry it has read, with \<open>e\<close> as the values left in the variables: at the
  end of the file it stores the tile of \<open>e\<close> once more.
\<close>

lemma tilemap_loop_entries:
  assumes "list_all entry_ok es" and "entry_ok e" and "i + n \<le> length tilemap"
  shows "tilemap_loop n i (hex_val (e_addr e)) (hex_val (e_pal e)) (hex_val (e_mir e)) (entries_text es) tilemap
    = Done (blit i (map entry_tile (take n (es @ [last (e # es)]))) tilemap)"
  using assms
proof (induction n arbitrary: i e es tilemap)
  case (Suc n)
  show ?case
  proof (cases es)
    case Nil
    then show ?thesis
      using Suc.prems by (simp add: scan_no_entry stored_def entry_tile_made blit_one)
  next
    case (Cons d ds)
    have "tilemap_loop n (Suc i) (hex_val (e_addr d)) (hex_val (e_pal d)) (hex_val (e_mir d))
        (entries_text ds) (tilemap[i := entry_tile d])
      = Done (blit (Suc i) (map entry_tile (take n (ds @ [last (d # ds)]))) (tilemap[i := entry_tile d]))"
      using Suc.prems Cons by (intro Suc.IH) auto
    then show ?thesis
      using Suc.prems Cons by (simp add: scan_entry stored_def entry_tile_made blit_Cons)
  qed
qed simp


text \<open>The junk is read only when the file has no entry.\<close>

lemma tilemap_first:
  assumes "entry_ok e" and "n \<noteq> 0"
  shows "tilemap_loop n i a b c (entry_text e @ entries_text es) tilemap
    = tilemap_loop n i (hex_val (e_addr e)) (hex_val (e_pal e)) (hex_val (e_mir e))
        (entry_text e @ entries_text es) tilemap"
  using assms by (cases n) (simp_all add: scan_entry stored_def)

text \<open>C24. From a file of well-formed entries \<open>(XXX,X,X)\<close> with blanks between them,
  the first \<open>len\<close> are loaded in order, each as the tile whose fields are its numbers; when the
  file has fewer, the element after the last is overwritten as well, with the last tile once
  more, and the elements after that are as they were.\<close>

theorem load_tilemap_spec:
  assumes src: "content f = Some (entries_text es)" "close_ret f \<noteq> EOF"
    and es: "list_all entry_ok es" "es \<noteq> []" and len: "unat len \<le> length tilemap"
  shows "ppu_load_tilemap f junk (Some tilemap) len
    = Done (blit 0 (map entry_tile (take (unat len) (es @ [last es]))) tilemap)"
proof (cases "len = 0")
  case True
  then show ?thesis by (simp add: ppu_load_tilemap_def)
next
  case False
  obtain e ds where e: "es = e # ds" using es(2) by (cases es) auto
  obtain a b c where junk: "junk = (a, b, c)" by (cases junk)
  have n: "unat len \<noteq> 0" using False by (simp add: unat_eq_0)
  have "tilemap_loop (unat len) 0 a b c (entries_text es) tilemap
      = Done (blit 0 (map entry_tile (take (unat len) (es @ [last (e # es)]))) tilemap)"
    using es len n tilemap_loop_entries [of es e 0 "unat len" tilemap]
      tilemap_first [of e "unat len" 0 a b c ds tilemap] by (simp add: e)
  then show ?thesis using src False e by (simp add: ppu_load_tilemap_def junk)
qed

definition demo_entries :: "entry list" where
  "demo_entries = [\<lparr>e_addr = ''3FF'', e_pal = ''F'', e_mir = ''3'', e_gap = '' ''\<rparr>,
     \<lparr>e_addr = ''001'', e_pal = ''1'', e_mir = ''0'', e_gap = ''''\<rparr>]"

theorem load_tilemap_spec_witness:
  "ppu_load_tilemap \<lparr>content = Some ''(3FF,F,3) (001,1,0)'', close_ret = 0, err_text = []\<rparr> (0, 0, 0)
     (Some [9, 9, 9, 9]) 4 = Done [65535, 68, 68, 9]"
proof -
  have ok: "list_all entry_ok demo_entries"
    by (simp add: demo_entries_def entry_ok_def digits_def blank_def is_space_def hex_digit_def hex_val_def)
  have entries: "entries_text demo_entries = ''(3FF,F,3) (001,1,0)''"
    by (simp add: demo_entries_def entry_text_def)
  have tiles: "map entry_tile demo_entries = [65535, 68]"
    by (simp add: demo_entries_def entry_tile_def hex_val_def hex_digit_def)
  show ?thesis
    using load_tilemap_spec [of "\<lparr>content = Some ''(3FF,F,3) (001,1,0)'', close_ret = 0, err_text = []\<rparr>"
        demo_entries 4 "[9, 9, 9, 9]" "(0, 0, 0)"] ok entries tiles
    by (simp add: demo_entries_def blit_def)
qed

section \<open>Palettes\<close>

text \<open>A line of a palette file is six digits and the blanks after them.\<close>

definition colour_ok :: "string \<times> string \<Rightarrow> bool" where
  "colour_ok l \<longleftrightarrow> digits 6 (fst l) \<and> blank (snd l)"

definition colours_text :: "(string \<times> string) list \<Rightarrow> string" where
  "colours_text ls = concat (map (\<lambda>(ds, gap). ds @ gap) ls)"

definition colour :: "string \<times> string \<Rightarrow> u32" where
  "colour l = hex_val (fst l)"

lemma colours_start: "list_all colour_ok ls \<Longrightarrow> colours_text ls = [] \<or> \<not> is_space (hd (colours_text ls))"
  by (cases ls; cases "fst (hd ls)")
    (auto simp: colours_text_def colour_ok_def digits_def dest: hex_not_special(1))

lemma scan_colour:
  assumes "colour_ok l" and "list_all colour_ok ls"
  shows "fscanf palette_format (colours_text (l # ls)) = (1, [colour l], colours_text ls)"
proof -
  obtain ds gap where l: "l = (ds, gap)" by (cases l)
  have "dropWhile is_space (gap @ colours_text ls) = colours_text ls"
    using assms(1) colours_start [OF assms(2)] by (intro dropWhile_blank) (simp_all add: l colour_ok_def)
  then show ?thesis
    using assms(1) by (simp add: l colours_text_def fscanf_def palette_format_def colour_ok_def
        scan_field_exact colour_def)
qed

lemma scan_no_colour: "fscanf palette_format (colours_text []) = (EOF, [], [])"
  by (simp add: fscanf_def palette_format_def scan_field_empty colours_text_def)

text \<open>The loop after its first turn, with \<open>k\<close> colours stored and \<open>c\<close> the last value read.\<close>

lemma palette_loop_colours:
  assumes "list_all colour_ok ls" and "k + n \<le> length (colors pal)"
  shows "palette_loop n (Suc k) c (colours_text ls) pal
    = Done (pal\<lparr>colors := blit k (take n (map colour ls @ [last (c # map colour ls)])) (colors pal)\<rparr>)"
  using assms
proof (induction n arbitrary: k c ls pal)
  case (Suc n)
  show ?case
  proof (cases ls)
    case Nil
    then show ?thesis using Suc.prems by (simp add: scan_no_colour stored_def blit_one)
  next
    case (Cons d ds)
    have "palette_loop n (Suc (Suc k)) (colour d) (colours_text ds) (pal\<lparr>colors := (colors pal)[k := colour d]\<rparr>)
      = Done (pal\<lparr>colors := blit (Suc k) (take n (map colour ds @ [last (colour d # map colour ds)]))
          ((colors pal)[k := colour d])\<rparr>)"
      using Suc.prems Cons Suc.IH [of ds "Suc k" "pal\<lparr>colors := (colors pal)[k := colour d]\<rparr>" "colour d"]
      by simp
    then show ?thesis
      using Suc.prems Cons by (simp add: scan_colour stored_def blit_Cons Let_def)
  qed
qed simp

text \<open>C25. A palette file of one colour in six digits per line loads without its first
  line: the colours of the following fifteen lines are stored in order, and when the file has
  fewer than sixteen lines the last colour is stored once more after them.  In particular a
  file of fifteen lines, the format the header describes, loses its first colour and repeats
  its last.\<close>

theorem load_palette_spec:
  assumes src: "content f = Some (colours_text ls)" "close_ret f \<noteq> EOF"
    and ls: "list_all colour_ok ls" and pal: "palette_ok pal"
  shows "ppu_load_palette f junk (Some pal) = Done (if ls = [] then pal else
      pal\<lparr>colors := blit 0 (take 15 (tl (map colour ls) @ [last (map colour ls)])) (colors pal)\<rparr>)"
proof (cases ls)
  case Nil
  have "palette_loop 16 0 junk (colours_text []) pal = Done pal"
    using palette_loop.simps(2) [of 15 0 junk "colours_text []" pal]
    by (simp add: scan_no_colour stored_def)
  then show ?thesis using src Nil by (simp add: ppu_load_palette_def)
next
  case (Cons l ds)
  have "palette_loop 16 0 junk (colours_text ls) pal
      = palette_loop 15 (Suc 0) (colour l) (colours_text ds) pal"
    using ls Cons palette_loop.simps(2) [of 15 0 junk "colours_text ls" pal]
    by (simp add: scan_colour stored_def)
  also have "\<dots> = Done (pal\<lparr>colors := blit 0 (take 15 (map colour ds @ [last (colour l # map colour ds)]))
      (colors pal)\<rparr>)"
    using ls Cons pal by (intro palette_loop_colours) (simp_all add: palette_ok_def)
  finally show ?thesis using src Cons by (simp add: ppu_load_palette_def)
qed

theorem load_palette_spec_witness:
  "\<exists>p. ppu_load_palette \<lparr>content = Some ''FF0000 00FF00'', close_ret = 0, err_text = []\<rparr> 0
     (Some \<lparr>colors = map (\<lambda>_. 7) [0..<15]\<rparr>) = Done p \<and> take 3 (colors p) = [0xFF00, 0xFF00, 7]"
proof -
  let ?ls = "[(''FF0000'', '' ''), (''00FF00'', [])]"
  have "list_all colour_ok ?ls"
    by (simp add: colour_ok_def digits_def blank_def is_space_def hex_digit_def)
  moreover have "colours_text ?ls = ''FF0000 00FF00''" by (simp add: colours_text_def)
  moreover have "map colour ?ls = [0xFF0000, 0xFF00]" by (simp add: colour_def hex_val_def hex_digit_def)
  ultimately show ?thesis
    using load_palette_spec [of "\<lparr>content = Some ''FF0000 00FF00'', close_ret = 0, err_text = []\<rparr>" ?ls
        "\<lparr>colors = map (\<lambda>_. 7) [0..<15]\<rparr>" 0]
    by (simp add: palette_ok_def blit_def upt_rec)
qed

end
