(* ===== verification/PpuPatternFile.thy ===== *)
theory PpuPatternFile
  imports PpuLoaders
begin

text \<open>
  The loading of pattern files: the reversal of the nibbles, the text of a file of
  patterns, and where its rows are stored.
\<close>

section \<open>Patterns\<close>

text \<open>The three swaps of \<open>rev_nibbles\<close> reverse the order of the eight nibbles.\<close>

lemma nibble_bit: "bit (nibble k v) n \<longleftrightarrow> n < 4 \<and> bit v (4 * k + n)"
proof -
  have "nibble k v = take_bit 4 (drop_bit (4 * k) v)"
    by (simp add: nibble_def take_bit_eq_mask mask_eq_exp_minus_1)
  then show ?thesis by (simp add: bit_simps)
qed

lemma swap_index:
  fixes v :: u32
  assumes "n < 32"
  shows "bit (push_bit 4 (v AND 0x0F0F0F0F) OR drop_bit 4 (v AND 0xF0F0F0F0)) n
      \<longleftrightarrow> bit v (if n mod 8 < 4 then n + 4 else n - 4)"
    and "bit (push_bit 8 (v AND 0x00FF00FF) OR drop_bit 8 (v AND 0xFF00FF00)) n
      \<longleftrightarrow> bit v (if n mod 16 < 8 then n + 8 else n - 8)"
    and "bit (push_bit 16 (v AND 0x0000FFFF) OR drop_bit 16 (v AND 0xFFFF0000)) n
      \<longleftrightarrow> bit v (if n < 16 then n + 16 else n - 16)"
proof -
  have upt: "set [0..<32] = {0, 1, 2, 3, 4, 5, 6, 7, 8, 9, 10, 11, 12, 13, 14, 15, 16, 17, 18, 19, 20,
      21, 22, 23, 24, 25, 26, 27, 28, 29, 30, 31}"
    by code_simp
  have "n \<in> set [0..<32]" using assms by simp
  then have n: "n \<in> {0, 1, 2, 3, 4, 5, 6, 7, 8, 9, 10, 11, 12, 13, 14, 15, 16, 17, 18, 19, 20,
      21, 22, 23, 24, 25, 26, 27, 28, 29, 30, 31}" by (simp only: upt)
  show "bit (push_bit 4 (v AND 0x0F0F0F0F) OR drop_bit 4 (v AND 0xF0F0F0F0)) n
      \<longleftrightarrow> bit v (if n mod 8 < 4 then n + 4 else n - 4)"
    using n by (elim insertE emptyE; simp only:; simp add: bit_simps)
  show "bit (push_bit 8 (v AND 0x00FF00FF) OR drop_bit 8 (v AND 0xFF00FF00)) n
      \<longleftrightarrow> bit v (if n mod 16 < 8 then n + 8 else n - 8)"
    using n by (elim insertE emptyE; simp only:; simp add: bit_simps)
  show "bit (push_bit 16 (v AND 0x0000FFFF) OR drop_bit 16 (v AND 0xFFFF0000)) n
      \<longleftrightarrow> bit v (if n < 16 then n + 16 else n - 16)"
    using n by (elim insertE emptyE; simp only:; simp add: bit_simps)
qed

lemma swap_bits:
  fixes v :: u32
  assumes "k < 8" and "n < 4"
  shows "bit (push_bit 4 (v AND 0x0F0F0F0F) OR drop_bit 4 (v AND 0xF0F0F0F0)) (4 * k + n)
      \<longleftrightarrow> bit v (4 * (if even k then k + 1 else k - 1) + n)"
    and "bit (push_bit 8 (v AND 0x00FF00FF) OR drop_bit 8 (v AND 0xFF00FF00)) (4 * k + n)
      \<longleftrightarrow> bit v (4 * (if even (k div 2) then k + 2 else k - 2) + n)"
    and "bit (push_bit 16 (v AND 0x0000FFFF) OR drop_bit 16 (v AND 0xFFFF0000)) (4 * k + n)
      \<longleftrightarrow> bit v (4 * (if k < 4 then k + 4 else k - 4) + n)"
proof -
  have i: "4 * k + n < 32" using assms by simp
  have kn: "k \<in> {0, 1, 2, 3, 4, 5, 6, 7}" "n \<in> {0, 1, 2, 3}" using assms by auto
  have "(if (4 * k + n) mod 8 < 4 then 4 * k + n + 4 else 4 * k + n - 4)
      = 4 * (if even k then k + 1 else k - 1) + n"
    using kn by (elim insertE emptyE; simp)
  then show "bit (push_bit 4 (v AND 0x0F0F0F0F) OR drop_bit 4 (v AND 0xF0F0F0F0)) (4 * k + n)
      \<longleftrightarrow> bit v (4 * (if even k then k + 1 else k - 1) + n)"
    by (simp only: swap_index(1) [OF i])
  have "(if (4 * k + n) mod 16 < 8 then 4 * k + n + 8 else 4 * k + n - 8)
      = 4 * (if even (k div 2) then k + 2 else k - 2) + n"
    using kn by (elim insertE emptyE; simp)
  then show "bit (push_bit 8 (v AND 0x00FF00FF) OR drop_bit 8 (v AND 0xFF00FF00)) (4 * k + n)
      \<longleftrightarrow> bit v (4 * (if even (k div 2) then k + 2 else k - 2) + n)"
    by (simp only: swap_index(2) [OF i])
  have "(if 4 * k + n < 16 then 4 * k + n + 16 else 4 * k + n - 16)
      = 4 * (if k < 4 then k + 4 else k - 4) + n"
    using kn by (elim insertE emptyE; simp)
  then show "bit (push_bit 16 (v AND 0x0000FFFF) OR drop_bit 16 (v AND 0xFFFF0000)) (4 * k + n)
      \<longleftrightarrow> bit v (4 * (if k < 4 then k + 4 else k - 4) + n)"
    by (simp only: swap_index(3) [OF i])
qed

lemma rev_nibbles_bit:
  assumes "k < 8" and "n < 4"
  shows "bit (rev_nibbles v) (4 * k + n) \<longleftrightarrow> bit v (4 * (7 - k) + n)"
proof -
  define v1 where "v1 = push_bit 4 (v AND 0x0F0F0F0F) OR drop_bit 4 (v AND 0xF0F0F0F0)"
  define v2 where "v2 = push_bit 8 (v1 AND 0x00FF00FF) OR drop_bit 8 (v1 AND 0xFF00FF00)"
  let ?a = "if k < 4 then k + 4 else k - 4"
  let ?b = "if even (?a div 2) then ?a + 2 else ?a - 2"
  let ?c = "if even ?b then ?b + 1 else ?b - 1"
  have k: "k \<in> {0, 1, 2, 3, 4, 5, 6, 7}" using assms by auto
  then have ab: "?a < 8" "?b < 8" "?c = 7 - k" by auto
  have "bit (rev_nibbles v) (4 * k + n) \<longleftrightarrow> bit v2 (4 * ?a + n)"
    unfolding rev_nibbles_def Let_def v1_def [symmetric] v2_def [symmetric] by (rule swap_bits(3) [OF assms])
  also have "\<dots> \<longleftrightarrow> bit v1 (4 * ?b + n)"
    unfolding v2_def by (rule swap_bits(2) [OF ab(1) assms(2)])
  also have "\<dots> \<longleftrightarrow> bit v (4 * ?c + n)"
    unfolding v1_def by (rule swap_bits(1) [OF ab(2) assms(2)])
  finally show ?thesis by (simp only: ab(3))
qed

lemma nibble_rev: "k < 8 \<Longrightarrow> nibble k (rev_nibbles v) = nibble (7 - k) v"
  by (rule bit_eqI) (auto simp: nibble_bit rev_nibbles_bit)

lemma nibbles_eqI:
  assumes "\<And>k. k < 8 \<Longrightarrow> nibble k a = nibble k b"
  shows "a = b"
proof (rule bit_word_eqI)
  fix n assume "n < LENGTH(32)"
  then have k: "n div 4 < 8" by simp
  have n: "4 * (n div 4) + n mod 4 = n" by simp
  have "bit (nibble (n div 4) a) (n mod 4) \<longleftrightarrow> bit (nibble (n div 4) b) (n mod 4)"
    using assms [OF k] by simp
  then show "bit a n \<longleftrightarrow> bit b n" by (simp add: nibble_bit n)
qed

lemma nibble_text:
  assumes "digits 8 ds" and "k < 8"
  shows "unat (nibble k (rev_nibbles (hex_val ds))) = the (hex_digit (ds ! k))"
  using nibble_hex_val [OF assms(1), of k] assms(2) by (simp add: nibble_rev)

text \<open>C26. On the number that eight hexadecimal digits denote, the masks and
  shifts of the loader compute what reading the same digits from right to left denotes, and
  doing it twice gives the number back.\<close>

theorem rev_nibbles_reference:
  "(digits 8 ds \<longrightarrow> rev_nibbles (hex_val ds) = hex_val (rev ds)) \<and> rev_nibbles (rev_nibbles v) = v"
proof (intro conjI impI)
  assume ds: "digits 8 ds"
  then have rds: "digits 8 (rev ds)" by (simp add: digits_def list_all_iff)
  have l: "length ds = 8" using ds by (simp add: digits_def)
  show "rev_nibbles (hex_val ds) = hex_val (rev ds)"
  proof (rule nibbles_eqI)
    fix k :: nat assume k: "k < 8"
    have "unat (nibble k (hex_val (rev ds))) = the (hex_digit (rev ds ! (7 - k)))"
      using nibble_hex_val [OF rds, of "7 - k"] k by simp
    also have "\<dots> = unat (nibble k (rev_nibbles (hex_val ds)))"
      using k l by (simp add: nibble_text [OF ds] rev_nth)
    finally show "nibble k (rev_nibbles (hex_val ds)) = nibble k (hex_val (rev ds))"
      by (simp only: word_unat_eq_iff)
  qed
next
  show "rev_nibbles (rev_nibbles v) = v" by (rule nibbles_eqI) (simp add: nibble_rev)
qed

theorem rev_nibbles_reference_witness:
  "rev_nibbles 0x12345678 = 0x87654321"
  using rev_nibbles_reference [of "''12345678''" 0] by (simp add: digits_def hex_val_def hex_digit_def)

text \<open>
  A pattern file of \<open>width\<close> by \<open>height\<close> tiles: \<open>row t r p\<close> are the eight digits of pixel row
  \<open>r\<close> of the tile in column \<open>p\<close> of tile row \<open>t\<close>, and \<open>gap\<close> the line end, possibly with blank
  lines.
\<close>

definition line_text :: "(nat \<Rightarrow> nat \<Rightarrow> nat \<Rightarrow> string) \<Rightarrow> string \<Rightarrow> nat \<Rightarrow> nat \<Rightarrow> nat \<Rightarrow> string" where
  "line_text row gap width t r = concat (map (row t r) [0..<width]) @ gap"

definition pattern_text :: "(nat \<Rightarrow> nat \<Rightarrow> nat \<Rightarrow> string) \<Rightarrow> string \<Rightarrow> nat \<Rightarrow> nat \<Rightarrow> string" where
  "pattern_text row gap width height =
     concat (map (\<lambda>t. concat (map (line_text row gap width t) [0..<8])) [0..<height])"

text \<open>What a cell takes from the file.\<close>

fun cell_text :: "(nat \<Rightarrow> nat \<Rightarrow> nat \<Rightarrow> string) \<Rightarrow> string \<Rightarrow> u32 \<Rightarrow> u32 \<times> nat \<times> u32 \<Rightarrow> string" where
  "cell_text row gap width (t, r, p) =
     row (unat t) r (unat p) @ (if p = width - 1 then gap else [])"

definition cells_text :: "(nat \<Rightarrow> nat \<Rightarrow> nat \<Rightarrow> string) \<Rightarrow> string \<Rightarrow> u32 \<Rightarrow> (u32 \<times> nat \<times> u32) list \<Rightarrow> string" where
  "cells_text row gap width cells = concat (map (cell_text row gap width) cells)"

definition rows_ok :: "(nat \<Rightarrow> nat \<Rightarrow> nat \<Rightarrow> string) \<Rightarrow> bool" where
  "rows_ok row \<longleftrightarrow> (\<forall>t r p. digits 8 (row t r p))"

lemma cells_text_simps [simp]:
  "cells_text row gap width [] = []"
  "cells_text row gap width (c # cs) = cell_text row gap width c @ cells_text row gap width cs"
  "cells_text row gap width (cs @ ds) = cells_text row gap width cs @ cells_text row gap width ds"
  by (simp_all add: cells_text_def)

lemma map_upt_snoc: "0 < n \<Longrightarrow> map f [0..<n] = map f [0..<n - 1] @ [f (n - 1)]"
  by (cases n) simp_all

lemma line_cells_text:
  assumes "width \<noteq> 0" and "t < 2 ^ 32"
  shows "cells_text row gap width (map (\<lambda>px. (of_nat t, r, of_nat px)) [0..<unat width])
    = line_text row gap (unat width) t r"
proof -
  have w: "unat width \<noteq> 0" using assms(1) by (simp add: unat_eq_0)
  have last: "(of_nat px :: u32) = width - 1 \<longleftrightarrow> px = unat width - 1" if "px < unat width" for px
  proof -
    have "px < 2 ^ 32" using that unat_u32_less [of width] by linarith
    then show ?thesis
      using unat_pred [OF assms(1)] unat_of_nat_u32 [of px] by (auto simp: word_unat_eq_iff)
  qed
  have "map (cell_text row gap width) (map (\<lambda>px. (of_nat t, r, of_nat px)) [0..<unat width])
      = map (\<lambda>px. row t r px @ (if px = unat width - 1 then gap else [])) [0..<unat width]"
    using assms(2) last unat_u32_less [of width] by (auto simp: unat_of_nat_u32)
  also have "\<dots> = map (row t r) [0..<unat width - 1] @ [row t r (unat width - 1) @ gap]"
    using w by (subst map_upt_snoc) (auto intro: map_cong)
  finally have "cells_text row gap width (map (\<lambda>px. (of_nat t, r, of_nat px)) [0..<unat width])
      = concat (map (row t r) [0..<unat width - 1] @ [row t r (unat width - 1) @ gap])"
    by (simp only: cells_text_def)
  then show ?thesis using w by (simp add: line_text_def map_upt_snoc [of "unat width"])
qed

lemma concat_cells_text: "cells_text row gap width (concat css) = concat (map (cells_text row gap width) css)"
  by (induction css) simp_all

lemma load_cells_text:
  assumes "width \<noteq> 0"
  shows "cells_text row gap width (load_cells width height)
    = pattern_text row gap (unat width) (unat height)"
proof -
  have "cells_text row gap width (tile_cells width t)
      = concat (map (line_text row gap (unat width) t) [0..<8])" if "t < unat height" for t
  proof -
    have "t < 2 ^ 32" using that unat_u32_less [of height] by linarith
    then show ?thesis
      by (simp add: tile_cells_def concat_cells_text comp_def line_cells_text [OF assms] del: upt_rec_numeral)
  qed
  then have "map (\<lambda>t. cells_text row gap width (tile_cells width t)) [0..<unat height]
      = map (\<lambda>t. concat (map (line_text row gap (unat width) t) [0..<8])) [0..<unat height]"
    by (intro map_cong) auto
  then show ?thesis by (simp only: load_cells_def pattern_text_def concat_cells_text map_map comp_def)
qed

lemma cells_start: "rows_ok row \<Longrightarrow> cells_text row gap width cs = [] \<or> \<not> is_space (hd (cells_text row gap width cs))"
proof (cases cs)
  case (Cons c ds)
  assume ok: "rows_ok row"
  obtain t r p where c: "c = (t, r, p)" by (cases c)
  have d: "digits 8 (row (unat t) r (unat p))" using ok by (simp add: rows_ok_def)
  then obtain x xs where "row (unat t) r (unat p) = x # xs"
    by (cases "row (unat t) r (unat p)") (auto simp: digits_def)
  then show ?thesis using d Cons c by (auto simp: digits_def dest: hex_not_special(1))
qed simp

lemma scan_cell:
  assumes "rows_ok row" and "blank gap"
  shows "fscanf (pattern_format width p) (cell_text row gap width (t, r, p) @ cells_text row gap width cs)
    = (1, [hex_val (row (unat t) r (unat p))], cells_text row gap width cs)"
proof -
  have d: "digits 8 (row (unat t) r (unat p))" using assms(1) by (simp add: rows_ok_def)
  have "dropWhile is_space (gap @ cells_text row gap width cs) = cells_text row gap width cs"
    by (rule dropWhile_blank [OF assms(2) cells_start [OF assms(1)]])
  then show ?thesis
    using d by (cases "p = width - 1") (simp_all add: fscanf_def pattern_format_def scan_field_exact)
qed

text \<open>The row that a cell stores, and where.\<close>

fun cell_key :: "u32 \<Rightarrow> u32 \<times> nat \<times> u32 \<Rightarrow> nat \<times> nat" where
  "cell_key height (t, r, p) = (unat (p + t * height), r)"

fun cell_val :: "(nat \<Rightarrow> nat \<Rightarrow> nat \<Rightarrow> string) \<Rightarrow> u32 \<times> nat \<times> u32 \<Rightarrow> u32" where
  "cell_val row (t, r, p) = rev_nibbles (hex_val (row (unat t) r (unat p)))"

definition store_cell :: "(nat \<Rightarrow> nat \<Rightarrow> nat \<Rightarrow> string) \<Rightarrow> u32 \<Rightarrow> pattern_t list \<Rightarrow> u32 \<times> nat \<times> u32 \<Rightarrow> pattern_t list" where
  "store_cell row height arr c = set_pxrow (fst (cell_key height c)) (snd (cell_key height c)) (cell_val row c) arr"

lemma length_set_pxrow [simp]: "length (set_pxrow i r v arr) = length arr"
  by (simp add: set_pxrow_def)

lemma store_cell_simp:
  "store_cell row height arr (t, r, p)
   = set_pxrow (unat (p + t * height)) r (rev_nibbles (hex_val (row (unat t) r (unat p)))) arr"
  by (simp add: store_cell_def)

lemma length_store_cell [simp]: "length (store_cell row height arr c) = length arr"
  by (simp add: store_cell_def)

lemma length_store [simp]: "length (foldl (store_cell row height) arr cs) = length arr"
  by (induction cs arbitrary: arr) simp_all

lemma read_cells_run:
  assumes "rows_ok row" and "blank gap" and "\<forall>c \<in> set cs. fst (cell_key height c) < length arr"
  shows "read_cells f width height (cs @ ds) (cells_text row gap width (cs @ ds)) arr
    = read_cells f width height ds (cells_text row gap width ds) (foldl (store_cell row height) arr cs)"
  using assms(3)
proof (induction cs arbitrary: arr)
  case (Cons c cs)
  obtain t r p where c: "c = (t, r, p)" by (cases c)
  have "read_cells f width height (cs @ ds) (cells_text row gap width (cs @ ds)) (store_cell row height arr c)
      = read_cells f width height ds (cells_text row gap width ds)
          (foldl (store_cell row height) (store_cell row height arr c) cs)"
    by (rule Cons.IH) (use Cons.prems in simp)
  then show ?case
    using Cons.prems scan_cell [OF assms(1,2), of width p t r "cs @ ds"] by (simp add: c store_cell_simp)
qed simp

definition patterns_ok :: "pattern_t list \<Rightarrow> bool" where
  "patterns_ok arr \<longleftrightarrow> list_all pattern_ok arr"

lemma patterns_nth: "patterns_ok arr \<Longrightarrow> i < length arr \<Longrightarrow> length (pxrow (arr ! i)) = 8"
  by (simp add: patterns_ok_def list_all_length pattern_ok_def)

lemma set_pxrow_ok: "patterns_ok arr \<Longrightarrow> i < length arr \<Longrightarrow> patterns_ok (set_pxrow i r v arr)"
  by (simp add: patterns_ok_def list_all_length pattern_ok_def set_pxrow_def nth_list_update)

lemma set_pxrow_get:
  "patterns_ok arr \<Longrightarrow> i < length arr \<Longrightarrow> r < 8 \<Longrightarrow>
   pxrow (set_pxrow i r v arr ! j) ! q = (if (i, r) = (j, q) then v else pxrow (arr ! j) ! q)"
  by (auto simp: set_pxrow_def nth_list_update patterns_nth)

definition cells_ok :: "u32 \<Rightarrow> pattern_t list \<Rightarrow> (u32 \<times> nat \<times> u32) list \<Rightarrow> bool" where
  "cells_ok height arr cs \<longleftrightarrow> (\<forall>c \<in> set cs. fst (cell_key height c) < length arr \<and> snd (cell_key height c) < 8)"

lemma store_cell_get:
  assumes "patterns_ok arr" and "cells_ok height arr [c]"
  shows "patterns_ok (store_cell row height arr c)"
    and "pxrow (store_cell row height arr c ! i) ! q
      = (if cell_key height c = (i, q) then cell_val row c else pxrow (arr ! i) ! q)"
  using assms by (auto simp: cells_ok_def store_cell_def prod_eq_iff set_pxrow_get intro: set_pxrow_ok)

text \<open>The last store to a row is what the row holds.\<close>

lemma foldl_store:
  assumes "patterns_ok arr" and "cells_ok height arr cs"
  shows "patterns_ok (foldl (store_cell row height) arr cs)"
    and "\<forall>c \<in> set cs. cell_key height c \<noteq> (i, q) \<Longrightarrow>
      pxrow (foldl (store_cell row height) arr cs ! i) ! q = pxrow (arr ! i) ! q"
    and "c \<in> set cs \<Longrightarrow> cell_key height c = (i, q) \<Longrightarrow>
      \<forall>d \<in> set cs. cell_key height d = (i, q) \<longrightarrow> cell_val row d = cell_val row c \<Longrightarrow>
      pxrow (foldl (store_cell row height) arr cs ! i) ! q = cell_val row c"
  using assms(2)
proof (induction cs rule: rev_induct)
  case Nil
  { case 1 then show ?case using assms(1) by simp }
  { case 2 then show ?case by simp }
  { case 3 then show ?case by simp }
next
  case (snoc d cs)
  have step: "patterns_ok (foldl (store_cell row height) arr cs)"
    "cells_ok height (foldl (store_cell row height) arr cs) [d]" "cells_ok height arr cs"
    if "cells_ok height arr (cs @ [d])"
    using that snoc.IH(1) by (auto simp: cells_ok_def)
  { case 1 then show ?case using store_cell_get(1) step by simp }
  { case 2 then show ?case using store_cell_get(2) [OF step(1,2)] step(3) snoc.IH(2) by simp }
  { case 3
    note get = store_cell_get(2) [OF step(1,2) [OF 3(4)], of row i q]
    show ?case
    proof (cases "cell_key height d = (i, q)")
      case True
      have "cell_val row d = cell_val row c" by (rule 3(3) [rule_format]) (simp_all add: True)
      then show ?thesis using True get by simp
    next
      case False
      then have c: "c \<in> set cs" using 3(1,2) by auto
      have "pxrow (foldl (store_cell row height) arr cs ! i) ! q = cell_val row c"
        by (rule snoc.IH(3) [OF c 3(2) _ step(3) [OF 3(4)]]) (use 3(3) in \<open>intro ballI impI, simp\<close>)
      then show ?thesis using False get by simp
    qed }
qed

section \<open>Where the rows go\<close>

lemma cell_key_nat:
  assumes "p + t * unat height < 2 ^ 32"
  shows "cell_key height (of_nat t, r, of_nat p) = (p + t * unat height, r)"
proof -
  have "(of_nat p + of_nat t * height :: u32) = of_nat (p + t * unat height)" by simp
  then have "unat (of_nat p + of_nat t * height :: u32) = p + t * unat height"
    using assms by (simp only: unat_of_nat_u32)
  then show ?thesis by simp
qed

lemma cell_val_nat:
  "t < 2 ^ 32 \<Longrightarrow> p < 2 ^ 32 \<Longrightarrow> cell_val row (of_nat t, r, of_nat p) = rev_nibbles (hex_val (row t r p))"
  by (simp add: unat_of_nat_u32)

lemma pred_mult: "(n - 1) * h + w \<le> n * h + (w :: nat)"
  by simp

text \<open>The cells of the first \<open>n\<close> tile rows.\<close>

definition first_tiles :: "u32 \<Rightarrow> nat \<Rightarrow> (u32 \<times> nat \<times> u32) list" where
  "first_tiles width n = concat (map (tile_cells width) [0..<n])"

lemma load_cells_first: "load_cells width height = first_tiles width (unat height)"
  by (simp add: load_cells_def first_tiles_def)

lemma first_tiles_Suc: "first_tiles width (Suc n) = first_tiles width n @ tile_cells width n"
  by (simp add: first_tiles_def)

lemma tile_cells_set:
  "set (tile_cells width t) = {(of_nat t, r, of_nat p) | r p. r < 8 \<and> p < unat width}"
  by (auto simp: tile_cells_def simp del: upt_rec_numeral)

lemma tile_cells_range:
  assumes "t * unat height + unat width \<le> length arr" and "length arr < 2 ^ 32"
  shows "cells_ok height arr (tile_cells width t)"
  using assms by (auto simp: cells_ok_def tile_cells_set cell_key_nat simp del: cell_key.simps)

lemma cells_ok_append: "cells_ok height arr (cs @ ds) \<longleftrightarrow> cells_ok height arr cs \<and> cells_ok height arr ds"
  by (auto simp: cells_ok_def)

lemma first_tiles_range:
  "length arr < 2 ^ 32 \<Longrightarrow> n = 0 \<or> (n - 1) * unat height + unat width \<le> length arr \<Longrightarrow>
   cells_ok height arr (first_tiles width n)"
proof (induction n)
  case 0
  then show ?case by (simp add: first_tiles_def cells_ok_def)
next
  case (Suc n)
  have "n = 0 \<or> (n - 1) * unat height + unat width \<le> length arr"
    using Suc.prems(2) pred_mult [of n "unat height" "unat width"] by (metis diff_Suc_1 le_trans nat.distinct(1))
  then show ?case
    using Suc tile_cells_range [of n height width arr] by (simp add: first_tiles_Suc cells_ok_append)
qed

text \<open>One tile row writes a contiguous piece of the array.\<close>

lemma tile_row_get:
  assumes "patterns_ok arr" and "length arr < 2 ^ 32" and "t * unat height + unat width \<le> length arr"
    and "t < 2 ^ 32" and "q < 8"
  shows "pxrow (foldl (store_cell row height) arr (tile_cells width t) ! i) ! q
    = (if t * unat height \<le> i \<and> i < t * unat height + unat width
       then rev_nibbles (hex_val (row t q (i - t * unat height))) else pxrow (arr ! i) ! q)"
proof -
  note ok = tile_cells_range [OF assms(3,2)]
  have key: "cell_key height (of_nat t, r, of_nat p) = (p + t * unat height, r)" if "p < unat width" for r p
    by (rule cell_key_nat) (use that assms(2,3) in linarith)
  show ?thesis
  proof (cases "t * unat height \<le> i \<and> i < t * unat height + unat width")
    case True
    let ?p = "i - t * unat height"
    have p: "?p < unat width" "?p < 2 ^ 32" using True unat_u32_less [of width] by auto
    have "(of_nat t, q, of_nat ?p) \<in> set (tile_cells width t)" using p assms(5) by (auto simp: tile_cells_set)
    then have "pxrow (foldl (store_cell row height) arr (tile_cells width t) ! i) ! q
        = cell_val row (of_nat t, q, of_nat ?p)"
    proof (rule foldl_store(3) [OF assms(1) ok])
      show "cell_key height (of_nat t, q, of_nat ?p) = (i, q)" using key [OF p(1)] True by simp
      show "\<forall>d \<in> set (tile_cells width t). cell_key height d = (i, q)
          \<longrightarrow> cell_val row d = cell_val row (of_nat t, q, of_nat ?p)"
        using key by (auto simp: tile_cells_set simp del: cell_key.simps cell_val.simps)
    qed
    then show ?thesis using True cell_val_nat [OF assms(4) p(2), of row q] by (simp only: simp_thms if_True)
  next
    case False
    then have "\<forall>c \<in> set (tile_cells width t). cell_key height c \<noteq> (i, q)"
      using key by (auto simp: tile_cells_set simp del: cell_key.simps)
    from foldl_store(2) [OF assms(1) ok this] show ?thesis by (simp only: if_not_P [OF False])
  qed
qed

text \<open>Of the tile rows that reach an element the last one stays.\<close>

lemma first_tiles_get:
  assumes "patterns_ok arr" and "length arr < 2 ^ 32" and "unat height \<le> unat width"
    and "n \<noteq> 0" "n \<le> unat height" and "(n - 1) * unat height + unat width \<le> length arr" and "q < 8"
  shows "pxrow (foldl (store_cell row height) arr (first_tiles width n) ! i) ! q
    = (if i < (n - 1) * unat height + unat width
       then rev_nibbles (hex_val (row (min (n - 1) (i div unat height)) q
              (i - min (n - 1) (i div unat height) * unat height)))
       else pxrow (arr ! i) ! q)"
  using assms(4-6)
proof (induction n)
  case (Suc n)
  define h w where "h = unat height" and "w = unat width"
  have h: "0 < h" "h \<le> w" "Suc n \<le> h" using Suc.prems assms(3) by (auto simp: h_def w_def)
  let ?arr = "foldl (store_cell row height) arr (first_tiles width n)"
  have r: "n * h + w \<le> length arr" using Suc.prems by (simp add: h_def w_def)
  have ok: "cells_ok height arr (first_tiles width n)"
    by (intro first_tiles_range [OF assms(2)] disjI2 order_trans [OF pred_mult])
      (use r in \<open>simp add: h_def w_def\<close>)
  have n32: "n < 2 ^ 32" using h(3) unat_u32_less [of height] by (simp add: h_def)
  have step: "pxrow (foldl (store_cell row height) arr (first_tiles width (Suc n)) ! i) ! q
      = (if n * h \<le> i \<and> i < n * h + w then rev_nibbles (hex_val (row n q (i - n * h)))
         else pxrow (?arr ! i) ! q)"
    using tile_row_get [OF foldl_store(1) [OF assms(1) ok], where width = width and t = n and q = q]
      assms(2,7) r n32
    by (simp add: first_tiles_Suc h_def w_def)
  show ?case
  proof (cases "n * h \<le> i")
    case True
    then have "n \<le> i div h" using h(1) by (simp add: less_eq_div_iff_mult_less_eq)
    moreover have "pxrow (?arr ! i) ! q = pxrow (arr ! i) ! q" if "\<not> i < n * h + w"
    proof (cases "n = 0")
      case False
      have "\<not> i < (n - 1) * h + w" "(n - 1) * h + w \<le> length arr"
        using pred_mult [of n h w] that r by linarith+
      then show ?thesis using Suc.IH False h by (simp add: h_def w_def)
    qed (simp add: first_tiles_def)
    ultimately show ?thesis using True by (simp add: step min_def flip: h_def w_def)
  next
    case False
    then have "n \<noteq> 0" by (cases n) simp_all
    have dn: "i div h < n" using False h(1) by (simp add: div_less_iff_less_mult)
    then have d: "i div h \<le> n - 1" using \<open>n \<noteq> 0\<close> by simp
    have "n * h = (n - 1) * h + h" using \<open>n \<noteq> 0\<close> by (cases n) simp_all
    then have i: "i < (n - 1) * h + w" "i < n * h + w" using False h by linarith+
    have "pxrow (?arr ! i) ! q = rev_nibbles (hex_val (row (i div h) q (i - i div h * h)))"
      using Suc.IH \<open>n \<noteq> 0\<close> h order_trans [OF pred_mult r] i d
      by (simp add: min_absorb2 flip: h_def w_def)
    then show ?thesis using False i dn by (simp add: step min_def flip: h_def w_def)
  qed
qed simp

text \<open>What a height larger than the width leads to: the first tile row of index \<open>width\<close> leaves
  the array.\<close>

lemma tile_cells_hd:
  assumes "width \<noteq> 0"
  shows "\<exists>cs. tile_cells width t = (of_nat t, 0, 0) # cs"
proof -
  have w: "[0..<unat width] = 0 # [1..<unat width]"
    using assms by (simp add: upt_conv_Cons unat_gt_0)
  have "[0..<TILEPATTERN_HEIGHT] = 0 # [1..<8]" by (simp add: upt_conv_Cons)
  then show ?thesis by (simp add: tile_cells_def w del: upt_rec_numeral)
qed

lemma load_cells_tall:
  assumes "unat width < unat height" and "width \<noteq> 0"
  shows "\<exists>cs. load_cells width height = first_tiles width (unat width) @ (width, 0, 0) # cs"
proof -
  have "[0..<unat height] = [0..<unat width] @ unat width # [Suc (unat width)..<unat height]"
    using assms(1) upt_add_eq_append [of 0 "unat width" "unat height - unat width"]
    by (simp add: upt_conv_Cons)
  then have "load_cells width height = first_tiles width (unat width) @ tile_cells width (unat width)
      @ concat (map (tile_cells width) [Suc (unat width)..<unat height])"
    by (simp add: load_cells_def first_tiles_def)
  moreover obtain cs where "tile_cells width (unat width) = (of_nat (unat width), 0, 0) # cs"
    using tile_cells_hd [OF assms(2)] by blast
  ultimately show ?thesis by simp
qed

section \<open>Properties\<close>

text \<open>C22. A well-formed file of \<open>width\<close> by \<open>height\<close> tiles, not taller than wide, is
  loaded into an array of that many patterns so that element \<open>i\<close> shows the tile in column
  \<open>i - t * height\<close> of tile row \<open>t\<close>, where \<open>t\<close> is \<open>i div height\<close> but at most the last; pixel
  \<open>k\<close> of a row, from its low end, is digit \<open>k\<close> of the text.  So a square file is loaded row
  by row, while one that is wider than tall, with more than one tile row, overwrites the end
  of every tile row with the start of the next and leaves the last elements of the array as
  they were.\<close>

theorem load_pattern_spec:
  assumes src: "content f = Some (pattern_text row gap (unat width) (unat height))"
    and rows: "rows_ok row" "blank gap" and size: "height \<noteq> 0" "unat height \<le> unat width"
    and arr: "length arr = unat width * unat height" "length arr < 2 ^ 32" "patterns_ok arr"
  shows "\<exists>arr'. ppu_load_pattern f (Some arr) width height = Done arr' \<and> length arr' = length arr
    \<and> (\<forall>i < length arr. \<forall>r < 8.
        if i < (unat height - 1) * unat height + unat width
        then let t = min (unat height - 1) (i div unat height) in
          \<forall>k < 8. unat (nibble k (pxrow (arr' ! i) ! r)) = the (hex_digit (row t r (i - t * unat height) ! k))
        else pxrow (arr' ! i) ! r = pxrow (arr ! i) ! r)"
proof -
  have h: "unat height \<noteq> 0" using size(1) by (simp add: unat_eq_0)
  have w: "width \<noteq> 0" using size(2) h by auto
  have fits: "(unat height - 1) * unat height + unat width \<le> length arr"
  proof -
    have "(unat height - 1) * unat height \<le> (unat height - 1) * unat width" by (rule mult_le_mono2 [OF size(2)])
    moreover have "(unat height - 1) * unat width + unat width = unat width * unat height"
      using h by (cases "unat height") simp_all
    ultimately show ?thesis using arr(1) by linarith
  qed
  let ?cs = "load_cells width height"
  let ?arr' = "foldl (store_cell row height) arr ?cs"
  have ok: "cells_ok height arr ?cs"
    unfolding load_cells_first by (rule first_tiles_range [OF arr(2)]) (use fits in simp)
  have "read_cells f width height (?cs @ []) (cells_text row gap width (?cs @ [])) arr = Done ?arr'"
    using ok by (subst read_cells_run [OF rows]) (auto simp: cells_ok_def)
  then have "ppu_load_pattern f (Some arr) width height = Done ?arr'"
    using src size(1) w by (simp add: ppu_load_pattern_def load_cells_text)
  moreover have "pxrow (?arr' ! i) ! r = (if i < (unat height - 1) * unat height + unat width
      then rev_nibbles (hex_val (row (min (unat height - 1) (i div unat height)) r
        (i - min (unat height - 1) (i div unat height) * unat height)))
      else pxrow (arr ! i) ! r)" if "r < 8" for i r
    unfolding load_cells_first by (rule first_tiles_get [OF arr(3,2) size(2) h order_refl fits that])
  ultimately show ?thesis
    using rows(1) by (intro exI [of _ ?arr']) (simp add: Let_def rows_ok_def nibble_text)
qed

text \<open>C23. A well-formed file that is taller than wide makes the loader write
  beyond the array of its \<open>width * height\<close> patterns.\<close>

theorem load_pattern_overflow:
  assumes src: "content f = Some (pattern_text row gap (unat width) (unat height))"
    and rows: "rows_ok row" "blank gap" and size: "width \<noteq> 0" "unat width < unat height"
    and arr: "length arr = unat width * unat height" "length arr < 2 ^ 32"
  shows "ppu_load_pattern f (Some arr) width height = Undef"
proof -
  obtain cs where cs: "load_cells width height = first_tiles width (unat width) @ (width, 0, 0) # cs"
    using load_cells_tall [OF size(2,1)] by blast
  let ?pre = "first_tiles width (unat width)"
  have w: "unat width \<noteq> 0" using size(1) by (simp add: unat_eq_0)
  have "(unat width - 1) * unat height + unat width \<le> (unat width - 1) * unat height + unat height"
    using size(2) by simp
  also have "\<dots> = unat width * unat height" using w by (cases "unat width") simp_all
  finally have ok: "cells_ok height arr ?pre"
    by (intro first_tiles_range [OF arr(2)] disjI2) (simp only: arr(1))
  have "read_cells f width height (?pre @ (width, 0, 0) # cs) (cells_text row gap width (?pre @ (width, 0, 0) # cs)) arr
      = read_cells f width height ((width, 0, 0) # cs) (cells_text row gap width ((width, 0, 0) # cs))
          (foldl (store_cell row height) arr ?pre)"
    using ok by (intro read_cells_run [OF rows]) (simp add: cells_ok_def)
  also have "\<dots> = Undef"
  proof -
    have "unat (width * height) = unat width * unat height"
      using arr by (simp add: unat_mult_lem [THEN iffD1])
    then show ?thesis
      using scan_cell [OF rows, of width 0 width 0 cs] arr(1) by simp
  qed
  finally show ?thesis
    using src size by (simp add: ppu_load_pattern_def cs [symmetric] load_cells_text unat_gt_0 [symmetric])
qed

definition demo_rows :: "nat \<Rightarrow> nat \<Rightarrow> nat \<Rightarrow> string" where
  "demo_rows t r p = ''F1234567''"

lemma demo_rows_ok: "rows_ok demo_rows"
  by (simp add: rows_ok_def demo_rows_def digits_def hex_digit_def)

definition demo_patterns :: "nat \<Rightarrow> pattern_t list" where
  "demo_patterns n = map (\<lambda>_. \<lparr>pxrow = map (\<lambda>_. 0) [0..<8]\<rparr>) [0..<n]"

lemma demo_patterns_ok: "length (demo_patterns n) = n" "patterns_ok (demo_patterns n)"
  by (simp_all add: demo_patterns_def patterns_ok_def pattern_ok_def list_all_iff del: upt_rec_numeral)

theorem load_pattern_spec_witness:
  "\<exists>arr'. ppu_load_pattern \<lparr>content = Some (pattern_text demo_rows ''  '' 1 1), close_ret = 0, err_text = []\<rparr>
      (Some (demo_patterns 1)) 1 1 = Done arr' \<and> unat (nibble 0 (pxrow (arr' ! 0) ! 7)) = 15"
proof -
  have f: "content \<lparr>content = Some (pattern_text demo_rows ''  '' 1 1), close_ret = 0, err_text = []\<rparr>
      = Some (pattern_text demo_rows ''  '' (unat (1 :: u32)) (unat (1 :: u32)))" by simp
  have b: "blank ''  ''" by (simp add: blank_def is_space_def)
  from load_pattern_spec [OF f demo_rows_ok b, of "demo_patterns 1"] demo_patterns_ok [of 1]
  obtain arr' where "ppu_load_pattern \<lparr>content = Some (pattern_text demo_rows ''  '' 1 1), close_ret = 0,
      err_text = []\<rparr> (Some (demo_patterns 1)) 1 1 = Done arr'"
    "\<forall>r < 8. \<forall>k < 8. unat (nibble k (pxrow (arr' ! 0) ! r)) = the (hex_digit (demo_rows 0 r 0 ! k))"
    by (auto simp: Let_def)
  then show ?thesis by (auto simp: demo_rows_def hex_digit_def)
qed

theorem load_pattern_overflow_witness:
  "ppu_load_pattern \<lparr>content = Some (pattern_text demo_rows ''  '' 1 2), close_ret = 0, err_text = []\<rparr>
      (Some (demo_patterns 2)) 1 2 = Undef"
proof -
  have b: "blank ''  ''" by (simp add: blank_def is_space_def)
  show ?thesis
    using load_pattern_overflow [OF _ demo_rows_ok b, of _ 1 2 "demo_patterns 2"] demo_patterns_ok [of 2]
    by simp
qed

end
