(* ===== verification/ApuDriver.thy ===== *)
theory ApuDriver
  imports Chardev
begin

text \<open>
  The kernel module of the audio processing unit, \<^verbatim>\<open>Kernel/apu/apu.c\<close>, over
  the part of the unit it talks to, the control and buffer registers of
  \<^verbatim>\<open>fpgame/src/apu/apu.sv\<close>.
\<close>

section \<open>The device\<close>

text \<open>
  \<open>queued\<close> is the queued buffer address with its valid bit and \<open>playing\<close> the buffer the
  sample fetcher has taken over and not yet finished.
\<close>

record apu_dev =
  apu_en :: bool
  irq_en :: bool
  queued :: "u32 option"
  playing :: "u32 option"

abbreviation (input) APU_IRQ_ACK :: u32 where "APU_IRQ_ACK \<equiv> 0x01"
abbreviation (input) APU_IRQ_REQ :: u32 where "APU_IRQ_REQ \<equiv> 0x02"
abbreviation (input) APU_ENABLE :: u32 where "APU_ENABLE \<equiv> 0x04"

text \<open>A write of the control register: bit 2 is stored, bit 0 wins over bit 1.\<close>

definition apu_control :: "u32 \<Rightarrow> apu_dev \<Rightarrow> apu_dev" where
  "apu_control c d = d\<lparr>apu_en := bit c 2,
     irq_en := (if bit c 0 then False else if bit c 1 then True else irq_en d)\<rparr>"

definition apu_queue :: "u32 \<Rightarrow> apu_dev \<Rightarrow> apu_dev" where
  "apu_queue a d = d\<lparr>queued := Some a\<rparr>"

text \<open>The fetcher takes the queued buffer over once it has finished the one it plays.\<close>

definition apu_fetch :: "apu_dev \<Rightarrow> apu_dev" where
  "apu_fetch d = (case queued d of None \<Rightarrow> d\<lparr>playing := None\<rparr>
     | Some a \<Rightarrow> d\<lparr>playing := Some a, queued := None\<rparr>)"

definition apu_irq_line :: "apu_dev \<Rightarrow> bool" where
  "apu_irq_line d \<longleftrightarrow> irq_en d \<and> queued d = None"

section \<open>State of the module\<close>

abbreviation (input) APU_CONFIG_OFFSET :: u32 where "APU_CONFIG_OFFSET \<equiv> 0x00"
abbreviation (input) APU_BUF_OFFSET :: u32 where "APU_BUF_OFFSET \<equiv> 0x10"
abbreviation (input) APU_BUF_SIZE :: nat where "APU_BUF_SIZE \<equiv> 512"

text \<open>
  \<open>samples\<close> is the block of both sample buffers, the second starting \<open>APU_BUF_SIZE\<close> bytes
  into it.  \<open>signals\<close> is the log of the processes that were sent the callback signal.
\<close>

record apu_drv =
  samples :: "u8 list"
  active_buf :: u32
  dma_addr :: u32
  req :: int
  pid :: u32
  apu_lock :: int
  write_lock :: int
  signals :: "u32 list"
  adev :: apu_dev

definition apu_mmio_write :: "u32 \<Rightarrow> u32 \<Rightarrow> apu_drv \<Rightarrow> apu_drv" where
  "apu_mmio_write offset val s =
     (if offset = APU_CONFIG_OFFSET then s\<lparr>adev := apu_control val (adev s)\<rparr>
      else if offset = APU_BUF_OFFSET then s\<lparr>adev := apu_queue val (adev s)\<rparr>
      else s)"

text \<open>A pid with no task only leaves a message, so the attempt is what is logged.\<close>

definition send_user_interrupt :: "u32 \<Rightarrow> apu_drv \<Rightarrow> apu_drv" where
  "send_user_interrupt p s = s\<lparr>signals := p # signals s\<rparr>"

section \<open>Handlers\<close>

definition apu_irq :: "apu_drv \<Rightarrow> apu_drv" where
  "apu_irq s =
     (let s = apu_mmio_write APU_CONFIG_OFFSET (APU_IRQ_ACK OR APU_ENABLE) s;
          s = s\<lparr>req := 1\<rparr>
      in if pid s \<noteq> 0 then send_user_interrupt (pid s) s else s)"

definition apu_open :: "apu_drv \<Rightarrow> int \<times> apu_drv" where
  "apu_open s = (let old = apu_lock s; s = s\<lparr>apu_lock := 1\<rparr>
                 in (if old = 0 then 0 else - EBUSY, s))"

datatype apu_cmd = IOCTL_APU_SET_CALLBACK_PID | APU_OTHER nat

definition apu_ioctl :: "apu_cmd \<Rightarrow> u32 \<Rightarrow> apu_drv \<Rightarrow> int \<times> apu_drv" where
  "apu_ioctl ioctl_num ioctl_param s =
     (if ioctl_num \<noteq> IOCTL_APU_SET_CALLBACK_PID then (- EINVAL, s)
      else (0, apu_mmio_write APU_CONFIG_OFFSET (APU_ENABLE OR APU_IRQ_REQ) (s\<lparr>pid := ioctl_param\<rparr>)))"

text \<open>\<open>sample.buf[!sample.active_buf]\<close> as an offset into the block of both.\<close>

definition free_buf :: "apu_drv \<Rightarrow> nat" where
  "free_buf s = (if active_buf s = 0 then APU_BUF_SIZE else 0)"

definition apu_write :: "ubuf option \<Rightarrow> u32 \<Rightarrow> apu_drv \<Rightarrow> (int \<times> apu_drv) kresult" where
  "apu_write buf len s =
     (if unat len > APU_BUF_SIZE \<or> buf = None then Returns (- EINVAL, s)
      else
        (let old = write_lock s; s = s\<lparr>write_lock := 1\<rparr>
         in if old = 1 then Returns (- EBUSY, s)
         else
        (let old = req s; s = s\<lparr>req := 0\<rparr>
         in if old \<noteq> 1 then Returns (- EBUSY, s\<lparr>write_lock := 0\<rparr>)
         else
        (let (bs, left) = the buf (unat len)
         in case mem_write (free_buf s) bs (samples s) of
              None \<Rightarrow> Corrupts
            | Some m \<Rightarrow>
               (if left \<noteq> 0 then
                  (case mem_write (free_buf s) (zeros APU_BUF_SIZE) m of
                     None \<Rightarrow> Corrupts
                   | Some m \<Rightarrow> Returns (- EFAULT, s\<lparr>samples := m, write_lock := 0\<rparr>))
                else
                  (case mem_write (free_buf s + unat len) (zeros (APU_BUF_SIZE - unat len)) m of
                     None \<Rightarrow> Corrupts
                   | Some m \<Rightarrow>
                      (let s = s\<lparr>samples := m\<rparr>;
                           s = apu_mmio_write APU_BUF_OFFSET
                                 (dma_addr s + (if active_buf s = 0 then of_nat APU_BUF_SIZE else 0)) s;
                           s = s\<lparr>active_buf := (if active_buf s = 0 then 1 else 0)\<rparr>;
                           s = s\<lparr>write_lock := 0\<rparr>;
                           s = apu_mmio_write APU_CONFIG_OFFSET (APU_ENABLE OR APU_IRQ_REQ) s
                       in Returns (0, s))))))))"

definition apu_release :: "apu_drv \<Rightarrow> int \<times> apu_drv" where
  "apu_release s =
     (let s = s\<lparr>pid := 0, req := 0\<rparr>;
          s = apu_mmio_write APU_CONFIG_OFFSET 0 s
      in (0, s\<lparr>apu_lock := 0\<rparr>))"

section \<open>Probe and remove\<close>

record apu_probe_env =
  apu_register_ret :: int
  apu_dma_ret :: "(u32 \<times> u8 list) option"
  apu_irq_ret :: int

text \<open>The probe goes on after a failed \<open>request_irq\<close> and returns its error.\<close>

definition apu_probe :: "apu_probe_env \<Rightarrow> kernel_res \<Rightarrow> apu_drv \<Rightarrow> int \<times> kernel_res \<times> apu_drv" where
  "apu_probe env k s =
     (if apu_register_ret env < 0 then (apu_register_ret env, k, s)
      else
        (let k = k\<lparr>chrdev := True, iomap := True\<rparr>
         in case apu_dma_ret env of
              None \<Rightarrow> (-1, k, s)
            | Some (base, blk) \<Rightarrow>
               (let s = s\<lparr>samples := blk, dma_addr := base\<rparr>;
                    k = k\<lparr>dma_block := True\<rparr>;
                    k = (if apu_irq_ret env < 0 then k else k\<lparr>irq_cookie := Some (Some ''apu_irq'')\<rparr>)
                in (apu_irq_ret env, k\<lparr>dev_class := True, dev_node := True\<rparr>, s))))"

text \<open>
  The last register write goes through the mapping; once that has been freed, the write
  uses freed memory.
\<close>

definition apu_remove :: "kernel_res \<Rightarrow> apu_drv \<Rightarrow> (kernel_res \<times> apu_drv) kresult" where
  "apu_remove k s =
     (let k = k\<lparr>dev_node := False, dev_class := False, chrdev := False, iomap := False,
                dma_block := False\<rparr>
      in if \<not> iomap k then Corrupts
         else Returns (free_irq None k, apu_mmio_write APU_CONFIG_OFFSET 0 s))"

section \<open>Calls and events\<close>

datatype apu_call =
    ApuOpen
  | ApuRelease
  | ApuIoctl apu_cmd u32
  | ApuWrite "ubuf option" u32
  | ApuIrq
  | ApuFetch

text \<open>
  The interrupt handler runs when the device holds its line up, and \<open>ApuFetch\<close> is the
  fetcher coming to the end of its buffer.
\<close>

fun apu_exec :: "apu_call \<Rightarrow> apu_drv \<Rightarrow> apu_drv kresult" where
  "apu_exec ApuOpen s = Returns (snd (apu_open s))"
| "apu_exec ApuRelease s = Returns (snd (apu_release s))"
| "apu_exec (ApuIoctl c a) s = Returns (snd (apu_ioctl c a s))"
| "apu_exec (ApuWrite buf len) s =
     (case apu_write buf len s of Returns (r, t) \<Rightarrow> Returns t | Spins \<Rightarrow> Spins | Corrupts \<Rightarrow> Corrupts)"
| "apu_exec ApuIrq s = Returns (if apu_irq_line (adev s) then apu_irq s else s)"
| "apu_exec ApuFetch s = Returns (s\<lparr>adev := apu_fetch (adev s)\<rparr>)"

fun apu_call_ok :: "apu_call \<Rightarrow> bool" where
  "apu_call_ok (ApuWrite (Some buf) len) = ubuf_ok buf"
| "apu_call_ok _ = True"

section \<open>The invariant\<close>

definition buf_addr :: "u32 \<Rightarrow> apu_drv \<Rightarrow> u32" where
  "buf_addr b s = dma_addr s + (if b = 0 then 0 else of_nat APU_BUF_SIZE)"

text \<open>
  A request is open only while nothing is queued; what is queued, and what plays while
  nothing is queued, is the active buffer.
\<close>

definition apu_inv :: "apu_drv \<Rightarrow> bool" where
  "apu_inv s \<longleftrightarrow> length (samples s) = 2 * APU_BUF_SIZE \<and> active_buf s \<in> {0, 1}
     \<and> req s \<in> {0, 1} \<and> apu_lock s \<in> {0, 1} \<and> write_lock s = 0
     \<and> (req s = 1 \<longrightarrow> queued (adev s) = None)
     \<and> (\<forall>a. queued (adev s) = Some a \<longrightarrow> a = buf_addr (active_buf s) s)
     \<and> (\<forall>a. queued (adev s) = None \<longrightarrow> playing (adev s) = Some a \<longrightarrow> a = buf_addr (active_buf s) s)"

definition apu_init :: "apu_drv \<Rightarrow> bool" where
  "apu_init s \<longleftrightarrow> length (samples s) = 2 * APU_BUF_SIZE \<and> active_buf s = 0 \<and> req s = 0 \<and> pid s = 0
     \<and> apu_lock s = 0 \<and> write_lock s = 0 \<and> queued (adev s) = None \<and> playing (adev s) = None"

inductive apu_step :: "apu_drv \<Rightarrow> apu_drv \<Rightarrow> bool" where
  apu_step: "apu_call_ok c \<Longrightarrow> apu_exec c s = Returns t \<Longrightarrow> apu_step s t"

inductive_cases apu_stepE: "apu_step s t"

subsection \<open>Facts about the handlers\<close>

lemma apu_mmio_sel [simp]:
  "samples (apu_mmio_write a v s) = samples s" "active_buf (apu_mmio_write a v s) = active_buf s"
  "dma_addr (apu_mmio_write a v s) = dma_addr s" "req (apu_mmio_write a v s) = req s"
  "pid (apu_mmio_write a v s) = pid s" "apu_lock (apu_mmio_write a v s) = apu_lock s"
  "write_lock (apu_mmio_write a v s) = write_lock s" "signals (apu_mmio_write a v s) = signals s"
  by (simp_all add: apu_mmio_write_def)

lemma apu_control_sel [simp]:
  "queued (apu_control c d) = queued d" "playing (apu_control c d) = playing d"
  by (simp_all add: apu_control_def)

lemma apu_config_sel [simp]:
  "queued (adev (apu_mmio_write 0 v s)) = queued (adev s)"
  "playing (adev (apu_mmio_write 0 v s)) = playing (adev s)"
  by (simp_all add: apu_mmio_write_def)

lemma free_buf_le: "free_buf s \<le> APU_BUF_SIZE"
  by (simp add: free_buf_def)

text \<open>What an accepted write of readable samples leaves behind.\<close>

definition apu_written :: "u8 list \<Rightarrow> apu_drv \<Rightarrow> apu_drv" where
  "apu_written bs s =
     s\<lparr>samples := blit (free_buf s) (bs @ zeros (APU_BUF_SIZE - length bs)) (samples s),
       req := 0, active_buf := (if active_buf s = 0 then 1 else 0),
       adev := (adev s)\<lparr>queued := Some (buf_addr (if active_buf s = 0 then 1 else 0) s),
         apu_en := True, irq_en := True\<rparr>\<rparr>"

lemma control_en_req: "apu_control 6 d = d\<lparr>apu_en := True, irq_en := True\<rparr>"
  by (simp add: apu_control_def bit_simps)

lemma control_ack_en: "apu_control 5 d = d\<lparr>apu_en := True, irq_en := False\<rparr>"
  by (simp add: apu_control_def bit_simps)



lemma apu_write_eq:
  assumes inv: "apu_inv s" and buf: "ubuf_ok buf"
  shows "apu_write (Some buf) len s =
    (if APU_BUF_SIZE < unat len then Returns (- EINVAL, s)
     else if req s \<noteq> 1 then Returns (- EBUSY, s)
     else if snd (buf (unat len)) \<noteq> 0
       then Returns (- EFAULT, s\<lparr>samples := blit (free_buf s) (zeros APU_BUF_SIZE) (samples s), req := 0\<rparr>)
     else Returns (0, apu_written (fst (buf (unat len))) s))"
proof -
  define bs where "bs = fst (buf (unat len))"
  have small: "length bs \<le> unat len" "snd (buf (unat len)) = 0 \<Longrightarrow> length bs = unat len"
    using buf by (simp_all add: ubuf_ok_def bs_def)
  have l: "length (samples s) = 2 * APU_BUF_SIZE" and wl: "write_lock s = 0"
    and ab: "active_buf s \<in> {0, 1}" using inv by (simp_all add: apu_inv_def)
  have f: "free_buf s \<le> APU_BUF_SIZE" by (rule free_buf_le)
  have over: "blit f (zeros APU_BUF_SIZE) (blit f bs m) = blit f (zeros APU_BUF_SIZE) m"
    if "f + APU_BUF_SIZE \<le> length m" "length bs \<le> APU_BUF_SIZE" for f m
    by (rule nth_equalityI) (use that in \<open>auto simp: nth_blit\<close>)
  have quiet: "s\<lparr>write_lock := 0\<rparr> = s" using wl by (cases s) simp
  have quiet_req: "s\<lparr>req := 0, write_lock := 0\<rparr> = s" if "req s \<noteq> 1"
    using wl that inv by (cases s) (auto simp: apu_inv_def)
  consider "APU_BUF_SIZE < unat len" | "unat len \<le> APU_BUF_SIZE" "req s \<noteq> 1"
    | "unat len \<le> APU_BUF_SIZE" "req s = 1" "snd (buf (unat len)) \<noteq> 0"
    | "unat len \<le> APU_BUF_SIZE" "req s = 1" "snd (buf (unat len)) = 0" by linarith
  then show ?thesis
  proof cases
    case 1
    then show ?thesis by (simp add: apu_write_def)
  next
    case 2
    then show ?thesis using wl quiet_req by (simp add: apu_write_def Let_def)
  next
    case 3
    have fits: "free_buf s + length bs \<le> length (samples s)" using 3(1) small(1) l f by linarith
    have fits2: "free_buf s + APU_BUF_SIZE \<le> length (samples s)" using l f by linarith
    have bs: "length bs \<le> APU_BUF_SIZE" using 3(1) small(1) by linarith
    have w1: "mem_write (free_buf s) bs (samples s) = Some (blit (free_buf s) bs (samples s))"
      using fits by simp
    have w2: "mem_write (free_buf s) (zeros APU_BUF_SIZE) (blit (free_buf s) bs (samples s))
        = Some (blit (free_buf s) (zeros APU_BUF_SIZE) (samples s))"
      using fits fits2 over [OF fits2 bs] by simp
    have fb: "free_buf (s\<lparr>write_lock := 1, req := 0\<rparr>) = free_buf s" by (simp add: free_buf_def)
    have "apu_write (Some buf) len s = Returns (- EFAULT, s\<lparr>write_lock := 1, req := 0,
        samples := blit (free_buf s) (zeros APU_BUF_SIZE) (samples s), write_lock := 0\<rparr>)"
      using 3 wl by (simp add: apu_write_def Let_def split_beta bs_def [symmetric] fb w1 w2 del: mem_write_Some)
    also have "s\<lparr>write_lock := 1, req := 0, samples := m, write_lock := 0\<rparr> = s\<lparr>samples := m, req := 0\<rparr>" for m
      using wl by (cases s) simp
    finally show ?thesis using 3 by simp
  next
    case 4
    have n: "length bs = unat len" by (rule small(2) [OF 4(3)])
    have fits: "free_buf s + length bs \<le> length (samples s)" using 4(1) small(1) l f by linarith
    have fits2: "free_buf s + unat len + (APU_BUF_SIZE - unat len) \<le> length (samples s)"
      using 4(1) l f by linarith
    have w1: "mem_write (free_buf s) bs (samples s) = Some (blit (free_buf s) bs (samples s))"
      using fits by simp
    have w2: "mem_write (free_buf s + unat len) (zeros (APU_BUF_SIZE - unat len)) (blit (free_buf s) bs (samples s))
        = Some (blit (free_buf s) (bs @ zeros (APU_BUF_SIZE - length bs)) (samples s))"
      using fits fits2 n by (simp add: blit_append)
    have fb: "free_buf (s\<lparr>write_lock := 1, req := 0\<rparr>) = free_buf s" by (simp add: free_buf_def)
    show ?thesis
      using 4 wl ab
      by (simp add: apu_write_def Let_def split_beta bs_def [symmetric] fb w1 w2 del: mem_write_Some)
        (cases s, auto simp: apu_mmio_write_def control_en_req apu_queue_def apu_written_def buf_addr_def)
  qed
qed


text \<open>The handlers unfolded in a state of the invariant, for the proofs about sequences of calls.\<close>

lemma apu_irq_eq: "apu_irq s = s\<lparr>adev := (adev s)\<lparr>apu_en := True, irq_en := False\<rparr>, req := 1,
    signals := (if pid s \<noteq> 0 then pid s # signals s else signals s)\<rparr>"
  by (cases s) (simp add: apu_irq_def apu_mmio_write_def control_ack_en send_user_interrupt_def Let_def)

lemma control_zero: "apu_control 0 d = d\<lparr>apu_en := False\<rparr>"
  by (cases d) (simp add: apu_control_def)

lemma apu_release_eq: "apu_release s
    = (0, s\<lparr>pid := 0, req := 0, adev := (adev s)\<lparr>apu_en := False\<rparr>, apu_lock := 0\<rparr>)"
  by (simp add: apu_release_def apu_mmio_write_def control_zero)

lemma apu_ioctl_eq: "apu_ioctl c a s =
    (case c of IOCTL_APU_SET_CALLBACK_PID \<Rightarrow>
       (0, s\<lparr>pid := a, adev := (adev s)\<lparr>apu_en := True, irq_en := True\<rparr>\<rparr>)
     | APU_OTHER n \<Rightarrow> (- EINVAL, s))"
  by (cases c) (simp_all add: apu_ioctl_def apu_mmio_write_def control_en_req)

lemma apu_written_inv:
  assumes "apu_inv s" and "length bs \<le> APU_BUF_SIZE"
  shows "apu_inv (apu_written bs s)"
  using assms free_buf_le [of s] by (auto simp: apu_inv_def apu_written_def buf_addr_def)

lemma apu_write_bad: "APU_BUF_SIZE < unat len \<or> buf = None \<Longrightarrow> apu_write buf len s = Returns (- EINVAL, s)"
  by (auto simp: apu_write_def)

lemma apu_write_inv:
  assumes inv: "apu_inv s" and ok: "apu_call_ok (ApuWrite buf len)"
  shows "\<exists>r t. apu_write buf len s = Returns (r, t) \<and> apu_inv t"
proof (cases "APU_BUF_SIZE < unat len \<or> buf = None")
  case True
  then show ?thesis using inv by (simp add: apu_write_bad)
next
  case False
  then obtain b where b: "buf = Some b" and n: "unat len \<le> APU_BUF_SIZE" by auto
  with ok have okb: "ubuf_ok b" by simp
  have l: "length (fst (b (unat len))) \<le> APU_BUF_SIZE"
    using okb n unfolding ubuf_ok_def by (meson order_trans)
  have "apu_inv (s\<lparr>samples := blit (free_buf s) (zeros APU_BUF_SIZE) (samples s), req := 0\<rparr>)"
    using inv free_buf_le [of s] by (auto simp: apu_inv_def buf_addr_def)
  then show ?thesis
    using apu_write_eq [OF inv okb, of len] apu_written_inv [OF inv l] inv b
    by (auto split: if_splits)
qed

lemma apu_open_inv: "apu_inv s \<Longrightarrow> apu_inv (snd (apu_open s))"
  by (simp add: apu_inv_def apu_open_def buf_addr_def Let_def)

lemma apu_release_inv: "apu_inv s \<Longrightarrow> apu_inv (snd (apu_release s))"
  by (simp add: apu_inv_def apu_release_eq buf_addr_def)

lemma apu_ioctl_inv: "apu_inv s \<Longrightarrow> apu_inv (snd (apu_ioctl c a s))"
  by (cases c) (simp_all add: apu_ioctl_eq apu_inv_def buf_addr_def)

lemma apu_irq_inv: "apu_inv s \<Longrightarrow> apu_irq_line (adev s) \<Longrightarrow> apu_inv (apu_irq s)"
  by (simp add: apu_inv_def apu_irq_eq apu_irq_line_def buf_addr_def)

lemma apu_fetch_inv: "apu_inv s \<Longrightarrow> apu_inv (s\<lparr>adev := apu_fetch (adev s)\<rparr>)"
  by (cases "queued (adev s)") (force simp: apu_inv_def apu_fetch_def buf_addr_def)+

lemma apu_exec_inv:
  assumes "apu_inv s" and "apu_call_ok c"
  shows "apu_exec c s \<noteq> Corrupts" and "apu_exec c s = Returns t \<Longrightarrow> apu_inv t"
proof -
  have "apu_exec c s \<noteq> Corrupts \<and> (apu_exec c s = Returns t \<longrightarrow> apu_inv t)"
  proof (cases c)
    case (ApuWrite buf len)
    with apu_write_inv [OF assms(1), of buf len] assms(2) show ?thesis by auto
  qed (use assms(1) in \<open>auto intro: apu_open_inv apu_release_inv apu_ioctl_inv apu_irq_inv apu_fetch_inv\<close>)
  then show "apu_exec c s \<noteq> Corrupts" and "apu_exec c s = Returns t \<Longrightarrow> apu_inv t" by auto
qed

interpretation apu_module: inv_system apu_init apu_step apu_inv
proof unfold_locales
  show "apu_inv s" if "apu_init s" for s
    using that by (auto simp: apu_init_def apu_inv_def)
  show "apu_inv t" if "apu_inv s" "apu_step s t" for s t
    using that by (auto elim: apu_stepE dest: apu_exec_inv(2))
qed

definition apu_close :: "apu_drv \<Rightarrow> apu_drv option" where
  "apu_close s = Some (snd (apu_release s))"

interpretation apu_device: exclusive_open apu_open apu_close "\<lambda>s. apu_lock s = 1" apu_inv
proof unfold_locales
  fix s s' :: apu_drv and r
  assume "apu_inv s" "apu_lock s \<noteq> 1" "apu_open s = (r, s')"
  then show "r = 0 \<and> apu_lock s' = 1 \<and> apu_inv s'"
    by (auto simp: apu_open_def Let_def apu_inv_def buf_addr_def)
next
  fix s :: apu_drv
  assume "apu_inv s" "apu_lock s = 1"
  then show "apu_open s = (- EBUSY, s)" by (cases s) (simp add: apu_open_def)
next
  fix s s' :: apu_drv
  assume "apu_inv s" "apu_lock s = 1" "apu_close s = Some s'"
  then show "apu_lock s' \<noteq> 1 \<and> apu_inv s'"
    by (auto simp: apu_close_def apu_release_eq apu_inv_def buf_addr_def)
qed

fun apu_run :: "apu_call list \<Rightarrow> apu_drv \<Rightarrow> apu_drv kresult" where
  "apu_run [] s = Returns s"
| "apu_run (c # cs) s =
     (case apu_exec c s of Returns t \<Rightarrow> apu_run cs t | Spins \<Rightarrow> Spins | Corrupts \<Rightarrow> Corrupts)"

lemma apu_reach_run:
  "reach apu_init apu_step s \<Longrightarrow> list_all apu_call_ok cs \<Longrightarrow> apu_run cs s = Returns t
   \<Longrightarrow> reach apu_init apu_step t"
proof (induction cs arbitrary: s)
  case (Cons c cs)
  then obtain u where u: "apu_exec c s = Returns u" "apu_run cs u = Returns t"
    by (auto split: kresult.splits)
  from Cons.prems(1) have "reach apu_init apu_step u"
    by (rule reach_step) (use Cons.prems(2) u in \<open>auto intro: apu_step\<close>)
  with Cons u show ?case by simp
qed simp

text \<open>
  With no request open and the interrupt masked, only the ioctl opens the way again.
\<close>

definition apu_deaf :: "apu_drv \<Rightarrow> bool" where
  "apu_deaf s \<longleftrightarrow> req s = 0 \<and> \<not> irq_en (adev s)"

lemma apu_deaf_write:
  assumes "apu_deaf s" and "apu_inv s"
  shows "\<exists>r. apu_write buf len s = Returns (r, s) \<and> r < 0"
proof -
  have "s\<lparr>write_lock := 1, req := 0, write_lock := 0\<rparr> = s"
    using assms by (cases s) (simp add: apu_deaf_def apu_inv_def)
  then show ?thesis using assms by (simp add: apu_write_def Let_def apu_deaf_def apu_inv_def)
qed

lemma apu_deaf_exec:
  assumes "apu_deaf s" and "apu_inv s" and "\<forall>a. c \<noteq> ApuIoctl IOCTL_APU_SET_CALLBACK_PID a"
    and "apu_exec c s = Returns t"
  shows "apu_deaf t"
proof (cases c)
  case (ApuWrite buf len)
  with apu_deaf_write [OF assms(1,2), of buf len] assms(1,4) show ?thesis by auto
next
  case (ApuIoctl k a)
  with assms show ?thesis by (cases k) (auto simp: apu_ioctl_eq)
qed (use assms in \<open>auto simp: apu_deaf_def apu_open_def apu_release_eq apu_irq_line_def apu_fetch_def
    Let_def split: option.splits\<close>)

lemma apu_deaf_run:
  "apu_deaf s \<Longrightarrow> apu_inv s \<Longrightarrow> list_all apu_call_ok cs \<Longrightarrow>
   list_all (\<lambda>c. \<forall>a. c \<noteq> ApuIoctl IOCTL_APU_SET_CALLBACK_PID a) cs \<Longrightarrow> apu_run cs s = Returns t \<Longrightarrow>
   apu_deaf t \<and> apu_inv t"
proof (induction cs arbitrary: s)
  case (Cons c cs)
  then obtain u where u: "apu_exec c s = Returns u" "apu_run cs u = Returns t"
    by (auto split: kresult.splits)
  with Cons.prems have "apu_deaf u" "apu_inv u"
    by (auto intro: apu_deaf_exec [where c = c and s = s] apu_exec_inv(2) [where c = c and s = s])
  with Cons u show ?case by simp
qed simp

end
