(* ===== verification/ApuLib.thy ===== *)
theory ApuLib
  imports ApuDriver Noway
begin

text \<open>
  The audio library, \<^verbatim>\<open>Library/src/apu.c\<close>: taking the device, the signal handler that
  asks the game for samples, and giving the device up.  As in the graphics library the
  operating system is a record of the calls the library makes.
\<close>

section \<open>The process\<close>

record 'w apu_sys =
  a_open :: "'w \<Rightarrow> int \<times> 'w"
  a_close :: "int \<Rightarrow> 'w \<Rightarrow> 'w"
  a_sigaction :: "'w \<Rightarrow> int"
  a_set_pid :: "int \<Rightarrow> u32 \<Rightarrow> 'w \<Rightarrow> int \<times> 'w"
  a_getpid :: "'w \<Rightarrow> u32"
  a_write :: "int \<Rightarrow> ubuf option \<Rightarrow> u32 \<Rightarrow> 'w \<Rightarrow> int \<times> 'w"

text \<open>
  The statics of the library, whether \<open>apu_sig_handler\<close> is the handler of the callback
  signal, whether the signal is blocked, and how often the handler has reported an error.
  A callback is the game's own code: it returns the buffer and the length it stores through
  its two pointers.
\<close>

record 'w aproc =
  apu_fd :: int
  callback_fn :: "('w \<Rightarrow> (ubuf option \<times> u32) \<times> 'w) option"
  handler :: bool
  blocked :: bool
  errors :: nat
  aos :: 'w

section \<open>The functions\<close>

definition apu_enable :: "'w apu_sys \<Rightarrow> ('w \<Rightarrow> (ubuf option \<times> u32) \<times> 'w) option \<Rightarrow> 'w aproc
    \<Rightarrow> (int \<times> 'w aproc) outcome" where
  "apu_enable sys callback p =
     noway (callback = None) ''callback == NULL''
    (noway (apu_fd p \<noteq> -1) ''apu_fd != -1''
    (let (fd, w) = a_open sys (aos p); p = p\<lparr>apu_fd := fd, aos := w\<rparr>
     in if fd < 0 then Done (-1, p)
        else
    (let p = p\<lparr>callback_fn := callback\<rparr>
     in noway (a_sigaction sys (aos p) < 0) ''sigaction(APU_CALLBACK_SIG, &sig, NULL) < 0''
    (let p = p\<lparr>handler := True\<rparr>;
         (r, w) = a_set_pid sys (apu_fd p) (a_getpid sys (aos p)) (aos p);
         p = p\<lparr>aos := w\<rparr>
     in noway (r < 0) ''ioctl(apu_fd, IOCTL_APU_SET_CALLBACK_PID, getpid()) < 0''
       (Done (0, p))))))"

text \<open>\<open>sigaction\<close> with a NULL action only queries the handler, so it stays registered.\<close>

definition apu_disable :: "'w apu_sys \<Rightarrow> 'w aproc \<Rightarrow> 'w aproc outcome" where
  "apu_disable sys p =
     noway (apu_fd p = -1) ''apu_fd == -1''
     (Done (p\<lparr>aos := a_close sys (apu_fd p) (aos p), apu_fd := -1, callback_fn := None\<rparr>))"

definition apu_callback_enable :: "'w aproc \<Rightarrow> 'w aproc" where
  "apu_callback_enable p = p\<lparr>blocked := False\<rparr>"

definition apu_callback_disable :: "'w aproc \<Rightarrow> 'w aproc" where
  "apu_callback_disable p = p\<lparr>blocked := True\<rparr>"

definition apu_sig_handler :: "'w apu_sys \<Rightarrow> 'w aproc \<Rightarrow> 'w aproc outcome" where
  "apu_sig_handler sys p =
     noway (callback_fn p = None) ''callback_fn == NULL''
     (let ((buf, len), w) = the (callback_fn p) (aos p);
          (r, w) = a_write sys (apu_fd p) buf len w;
          p = p\<lparr>aos := w\<rparr>
      in Done (if r \<noteq> 0 then p\<lparr>errors := errors p + 1\<rparr> else p))"

section \<open>The library on the model of the module\<close>

record apu_host =
  adrv :: apu_drv
  a_fd :: "int option"
  my_pid :: u32
  apu_corrupted :: bool

definition apu_host_open :: "apu_host \<Rightarrow> int \<times> apu_host" where
  "apu_host_open w =
     (let (r, d) = apu_open (adrv w); w = w\<lparr>adrv := d\<rparr>
      in if r < 0 then (-1, w) else (3, w\<lparr>a_fd := Some 3\<rparr>))"

definition apu_host_close :: "int \<Rightarrow> apu_host \<Rightarrow> apu_host" where
  "apu_host_close fd w =
     (if a_fd w \<noteq> Some fd then w else w\<lparr>adrv := snd (apu_release (adrv w)), a_fd := None\<rparr>)"

definition apu_host_ioctl :: "int \<Rightarrow> u32 \<Rightarrow> apu_host \<Rightarrow> int \<times> apu_host" where
  "apu_host_ioctl fd a w =
     (if a_fd w \<noteq> Some fd then (-1, w)
      else (let (r, d) = apu_ioctl IOCTL_APU_SET_CALLBACK_PID a (adrv w)
            in (if r < 0 then -1 else r, w\<lparr>adrv := d\<rparr>)))"

definition apu_host_write :: "int \<Rightarrow> ubuf option \<Rightarrow> u32 \<Rightarrow> apu_host \<Rightarrow> int \<times> apu_host" where
  "apu_host_write fd buf len w =
     (if a_fd w \<noteq> Some fd \<or> sint len < 0 then (-1, w)
      else
        (case apu_write buf len (adrv w) of
           Returns (r, d) \<Rightarrow> (if r < 0 then -1 else r, w\<lparr>adrv := d\<rparr>)
         | Spins \<Rightarrow> (-1, w)
         | Corrupts \<Rightarrow> (-1, w\<lparr>apu_corrupted := True\<rparr>)))"

definition apu_host_sys :: "apu_host apu_sys" where
  "apu_host_sys = \<lparr>a_open = apu_host_open, a_close = apu_host_close, a_sigaction = \<lambda>w. 0,
     a_set_pid = apu_host_ioctl, a_getpid = my_pid, a_write = apu_host_write\<rparr>"

end
