(* ===== verification/Apu_Props.thy ===== *)
theory Apu_Props
  imports ApuLib
begin

text \<open>
  The properties of the audio module and of the audio library over it.
\<close>

section \<open>The module\<close>

definition demo_apu :: apu_drv where
  "demo_apu = \<lparr>samples = zeros (2 * APU_BUF_SIZE), active_buf = 0, dma_addr = 0x3000, req = 0, pid = 0,
     apu_lock = 0, write_lock = 0, signals = [],
     adev = \<lparr>apu_en = False, irq_en = False, queued = None, playing = None\<rparr>\<rparr>"

lemma demo_apu_init: "apu_init demo_apu"
  by (simp add: apu_init_def demo_apu_def)

lemma demo_apu_reach: "reach apu_init apu_step demo_apu"
  by (rule reach_init) (rule demo_apu_init)

text \<open>Opened, told its pid and asked for samples.\<close>

definition demo_asked :: apu_drv where
  "demo_asked = demo_apu\<lparr>apu_lock := 1, pid := 42, req := 1, signals := [42],
     adev := \<lparr>apu_en = True, irq_en = False, queued = None, playing = None\<rparr>\<rparr>"

lemma demo_asked_run:
  "apu_run [ApuOpen, ApuIoctl IOCTL_APU_SET_CALLBACK_PID 42, ApuIrq] demo_apu = Returns demo_asked"
  by (simp add: demo_asked_def demo_apu_def apu_open_def apu_ioctl_eq apu_irq_line_def apu_irq_eq)

lemma demo_asked_reach: "reach apu_init apu_step demo_asked"
  by (rule apu_reach_run [OF demo_apu_reach _ demo_asked_run]) simp

lemma demo_asked_inv: "apu_inv demo_asked"
  by (rule apu_module.inv_reach [OF demo_asked_reach])

text \<open>C28. A write without a buffer or of more samples than a buffer holds is
  refused with EINVAL, before it takes the write lock; one that finds the write lock taken, in
  whatever state the writer that holds it has left the module, is refused with EBUSY, and so is
  one when no request is open; none of these changes anything.  Otherwise it returns 0, fills the
  inactive buffer with the samples padded by zeros, queues that buffer on the device, makes
  it the active one, uses the request up and asks for the next interrupt.  A buffer that
  faults leaves the inactive buffer silent and uses the request up as well.\<close>

theorem apu_write_spec:
  assumes inv: "write_lock s = 1 \<or> apu_inv s" and ok: "apu_call_ok (ApuWrite buf len)"
  shows "apu_write buf len s =
    (if buf = None \<or> 512 < unat len then Returns (- EINVAL, s)
     else if write_lock s = 1 \<or> req s \<noteq> 1 then Returns (- EBUSY, s)
     else let free = (if active_buf s = 0 then 512 else 0); (bs, left) = the buf (unat len)
       in if left \<noteq> 0
          then Returns (- EFAULT, s\<lparr>samples := blit free (zeros 512) (samples s), req := 0\<rparr>)
          else Returns (0, s\<lparr>samples := blit free (bs @ zeros (512 - length bs)) (samples s),
            req := 0, active_buf := (if active_buf s = 0 then 1 else 0),
            adev := (adev s)\<lparr>queued := Some (dma_addr s + of_nat free), apu_en := True, irq_en := True\<rparr>\<rparr>))"
proof (cases "buf = None \<or> write_lock s = 1")
  case True
  then show ?thesis by (cases s) (auto simp: apu_write_def)
next
  case False
  then obtain b where b: "buf = Some b" "ubuf_ok b" using ok by auto
  have "apu_inv s" using inv False by simp
  from apu_write_eq [OF this b(2), of len] show ?thesis
    using False by (auto simp: b(1) apu_written_def free_buf_def buf_addr_def Let_def split_beta)
qed

theorem apu_write_spec_witness:
  "(\<exists>t. apu_write (Some (user_mem [1, 2])) 2 demo_asked = Returns (0, t)
     \<and> samples t = blit 512 ([1, 2] @ zeros 510) (zeros 1024) \<and> active_buf t = 1)
   \<and> apu_write None 0 demo_asked = Returns (- EINVAL, demo_asked)
   \<and> apu_write (Some (user_mem [1, 2])) 2 (demo_asked\<lparr>write_lock := 1\<rparr>)
       = Returns (- EBUSY, demo_asked\<lparr>write_lock := 1\<rparr>)"
proof -
  note inv = disjI2 [OF demo_asked_inv]
  have free: "write_lock demo_asked \<noteq> 1" "req demo_asked = 1" "active_buf demo_asked = 0"
    "samples demo_asked = zeros 1024" by (simp_all add: demo_asked_def demo_apu_def)
  have "user_mem [1, 2] (unat (2 :: u32)) = ([1, 2], 0)" by (simp add: user_mem_def)
  then show ?thesis
    using apu_write_spec [OF inv, of "Some (user_mem [1, 2])" 2] apu_write_spec [OF inv, of None 0] free
      apu_write_spec [of "demo_asked\<lparr>write_lock := 1\<rparr>" "Some (user_mem [1, 2])" 2]
    by simp
qed

text \<open>C19. When the handlers run one at a time: in every reachable state of the
  module and the device, whatever calls, interrupts and buffer changes have come in whatever
  order, no write changes a byte of a buffer that the device is playing or has queued, and none
  leaves the block of the two buffers.  (Handlers that interleave are the subject of
  \<open>ApuConcurrent_Props\<close>, where a registration in the middle of a write breaks this.)\<close>

theorem apu_double_buffer_safe:
  assumes "reach apu_init apu_step s" and "apu_call_ok (ApuWrite buf len)"
    and a: "playing (adev s) = Some a \<or> queued (adev s) = Some a"
  shows "\<exists>r t. apu_write buf len s = Returns (r, t) \<and> length (samples t) = 1024
    \<and> (\<forall>i < 512. a = dma_addr s \<longrightarrow> samples t ! i = samples s ! i)
    \<and> (\<forall>i < 512. a = dma_addr s + 512 \<longrightarrow> samples t ! (512 + i) = samples s ! (512 + i))"
proof -
  have inv: "apu_inv s" using assms(1) by (rule apu_module.inv_reach)
  obtain r t where w: "apu_write buf len s = Returns (r, t)" and invt: "apu_inv t"
    using apu_write_inv [OF inv assms(2)] by blast
  have l: "length (samples s) = 1024" "length (samples t) = 1024"
    using inv invt by (simp_all add: apu_inv_def)
  have same: "samples t = samples s \<or> (req s = 1 \<and>
      (\<exists>xs. length xs = 512 \<and> samples t = blit (free_buf s) xs (samples s)))"
  proof (cases "512 < unat len \<or> buf = None \<or> req s \<noteq> 1")
    case True
    then show ?thesis
      using w inv assms(2) by (cases buf) (auto simp: apu_write_bad apu_write_eq split: if_splits)
  next
    case False
    then obtain b where b: "buf = Some b" "ubuf_ok b" using assms(2) by auto
    have "length (fst (b (unat len))) \<le> unat len" using b(2) by (simp add: ubuf_ok_def)
    then have l1: "length (fst (b (unat len)) @ zeros (512 - length (fst (b (unat len))))) = 512"
      using False by simp
    let ?xs = "if snd (b (unat len)) \<noteq> 0 then zeros 512
      else fst (b (unat len)) @ zeros (512 - length (fst (b (unat len))))"
    have "length ?xs = 512" using l1 by (simp del: length_append)
    moreover have "samples t = blit (free_buf s) ?xs (samples s)"
      using False w b apu_write_eq [OF inv b(2), of len] by (auto simp: apu_written_def split: if_splits)
    ultimately show ?thesis using False by blast
  qed
  have "samples t = samples s \<or> a = buf_addr (active_buf s) s"
    using same inv a by (auto simp: apu_inv_def)
  moreover have "\<forall>i < 1024. (i < free_buf s \<or> free_buf s + 512 \<le> i) \<longrightarrow> samples t ! i = samples s ! i"
    using same l free_buf_le [of s] by (auto simp: nth_blit)
  moreover have "active_buf s = 0 \<or> active_buf s = 1" using inv by (auto simp: apu_inv_def)
  ultimately have "(\<forall>i < 512. a = dma_addr s \<longrightarrow> samples t ! i = samples s ! i)
    \<and> (\<forall>i < 512. a = dma_addr s + 512 \<longrightarrow> samples t ! (512 + i) = samples s ! (512 + i))"
    by (auto simp: buf_addr_def free_buf_def)
  then show ?thesis using w l(2) by blast
qed

text \<open>The device plays the second buffer and asks for the next one.\<close>

definition demo_round :: "apu_call list" where
  "demo_round = [ApuOpen, ApuIoctl IOCTL_APU_SET_CALLBACK_PID 42, ApuIrq,
     ApuWrite (Some (user_mem [])) 0, ApuFetch, ApuIrq]"

definition demo_playing :: apu_drv where
  "demo_playing = demo_asked\<lparr>samples := blit 512 (zeros 512) (zeros 1024), active_buf := 1,
     signals := [42, 42],
     adev := \<lparr>apu_en = True, irq_en = False, queued = None, playing = Some 0x3200\<rparr>\<rparr>"

lemma demo_round_run: "apu_run demo_round demo_apu = Returns demo_playing"
proof -
  have w: "apu_write (Some (user_mem [])) 0 demo_asked = Returns (0, apu_written [] demo_asked)"
    using apu_write_eq [OF demo_asked_inv, of "user_mem []" 0] by (simp add: user_mem_def) (simp add: demo_asked_def)
  have "apu_run demo_round demo_apu
      = apu_run [ApuWrite (Some (user_mem [])) 0, ApuFetch, ApuIrq] demo_asked"
    using demo_asked_run by (simp add: demo_round_def split: kresult.splits)
  also have "\<dots> = Returns demo_playing"
    by (simp add: w) (simp add: apu_written_def demo_asked_def demo_apu_def demo_playing_def apu_fetch_def
        apu_irq_line_def apu_irq_eq free_buf_def buf_addr_def)
  finally show ?thesis .
qed

lemma demo_playing_reach: "reach apu_init apu_step demo_playing"
  by (rule apu_reach_run [OF demo_apu_reach _ demo_round_run]) (simp add: demo_round_def)

theorem apu_double_buffer_safe_witness:
  "\<exists>r t. apu_write (Some (user_mem [9])) 1 demo_playing = Returns (r, t)
     \<and> (\<forall>i < 512. samples t ! (512 + i) = samples demo_playing ! (512 + i))"
  using apu_double_buffer_safe [OF demo_playing_reach, of "Some (user_mem [9])" 1 "0x3200"]
  by (auto simp: demo_playing_def demo_asked_def demo_apu_def)

text \<open>C29. A write whose buffer faults uses the request up without asking for the
  next interrupt: from then on, through any sequence of calls, interrupts and buffer
  changes without another registration of a process, the device never asks again and every
  write is refused.\<close>

theorem apu_fault_wedges:
  assumes "apu_inv s" and "ubuf_ok buf" and "\<not> irq_en (adev s)"
    and "apu_write (Some buf) len s = Returns (- EFAULT, t)"
    and "list_all apu_call_ok cs" and "\<forall>a. ApuIoctl IOCTL_APU_SET_CALLBACK_PID a \<notin> set cs"
    and "apu_run cs t = Returns u"
  shows "\<not> apu_irq_line (adev u) \<and> (\<forall>b n. \<exists>r. apu_write b n u = Returns (r, u) \<and> r < 0)"
proof -
  from assms(4) have t: "t = s\<lparr>samples := blit (free_buf s) (zeros APU_BUF_SIZE) (samples s), req := 0\<rparr>"
    unfolding apu_write_eq [OF assms(1,2)] by (auto split: if_splits)
  have "apu_deaf t" using assms(3) by (simp add: apu_deaf_def t)
  moreover have "apu_inv t" using apu_write_inv [OF assms(1), of "Some buf" len] assms(2,4) by auto
  ultimately have "apu_deaf u \<and> apu_inv u"
    by (rule apu_deaf_run) (use assms(5-7) in \<open>auto simp: list_all_iff\<close>)
  then show ?thesis using apu_deaf_write by (simp add: apu_irq_line_def apu_deaf_def)
qed

theorem apu_fault_wedges_witness:
  "\<exists>t. apu_write (Some (user_mem [1])) 2 demo_asked = Returns (- EFAULT, t)
     \<and> \<not> apu_irq_line (adev t) \<and> (\<exists>r. apu_write (Some (user_mem [1])) 1 t = Returns (r, t) \<and> r < 0)"
proof -
  have "\<exists>t. apu_write (Some (user_mem [1])) 2 demo_asked = Returns (- EFAULT, t)"
    using apu_write_eq [OF demo_asked_inv, of "user_mem [1]" 2]
    by (simp add: user_mem_def) (simp add: demo_asked_def)
  then obtain t where t: "apu_write (Some (user_mem [1])) 2 demo_asked = Returns (- EFAULT, t)" ..
  have "\<not> irq_en (adev demo_asked)" by (simp add: demo_asked_def)
  from apu_fault_wedges [OF demo_asked_inv _ this t, of "[]" t] t show ?thesis by auto
qed

text \<open>Closing the device forgets the process and the open request, mutes the
  device and frees it, but it does not mask the interrupt: when one was asked for and
  nothing is queued, the handler then runs without an owner and turns the output on again.\<close>

theorem apu_release_unmutes:
  assumes "apu_inv s" and "irq_en (adev s)" and "queued (adev s) = None"
  shows "\<exists>t u. apu_release s = (0, t) \<and> pid t = 0 \<and> req t = 0 \<and> apu_lock t = 0 \<and> \<not> apu_en (adev t)
    \<and> apu_exec ApuIrq t = Returns u \<and> apu_en (adev u) \<and> apu_lock u = 0 \<and> signals u = signals s"
  using assms by (simp add: apu_release_eq apu_irq_line_def apu_irq_eq)

theorem apu_release_unmutes_witness:
  "apu_en (adev (apu_irq (snd (apu_release (snd (apu_ioctl IOCTL_APU_SET_CALLBACK_PID 42 demo_apu))))))"
proof -
  let ?s = "snd (apu_ioctl IOCTL_APU_SET_CALLBACK_PID 42 demo_apu)"
  have "apu_inv ?s"
    by (rule apu_ioctl_inv) (rule apu_module.inv_init [OF demo_apu_init])
  moreover have "irq_en (adev ?s)" "queued (adev ?s) = None" by (simp_all add: apu_ioctl_eq demo_apu_def)
  ultimately obtain t u where "apu_release ?s = (0, t)" "apu_exec ApuIrq t = Returns u" "apu_en (adev u)"
    "\<not> apu_en (adev t)"
    using apu_release_unmutes [of ?s] by blast
  then show ?thesis by (auto split: if_splits)
qed

text \<open>Whatever opens and closes processes make on a probed module, at most one
  process holds the audio device at a time.\<close>

theorem apu_single_owner:
  assumes "apu_init s" and "clients apu_open apu_close as (s, {}) = Some (s', own)"
  shows "card own \<le> 1 \<and> (apu_lock s' = 1 \<longleftrightarrow> own \<noteq> {})"
proof -
  from assms(1) have "apu_inv s" "apu_lock s \<noteq> 1"
    by (auto simp: apu_init_def intro: apu_module.inv_init)
  then show ?thesis using assms(2) by (rule apu_device.one_owner)
qed

theorem apu_single_owner_witness:
  "\<exists>s'. clients apu_open apu_close [Attach 1, Attach 2] (demo_apu, {}) = Some (s', {1})
     \<and> card {1 :: nat} \<le> 1 \<and> apu_lock s' = 1"
proof -
  obtain s' where s': "clients apu_open apu_close [Attach 1, Attach 2] (demo_apu, {}) = Some (s', {1})"
    by (simp add: apu_open_def demo_apu_def)
  with apu_single_owner [OF demo_apu_init s'] show ?thesis by auto
qed

section \<open>The library\<close>

text \<open>C33. A process that has enabled and then disabled the audio still has
  the library's signal handler registered, and a callback signal that arrives then (one that
  was blocked or in flight) aborts it.\<close>

theorem apu_disable_keeps_handler:
  assumes "apu_enable sys cb p = Done (0, p1)" and "apu_disable sys p1 = Done p2"
  shows "handler p2 \<and> apu_sig_handler sys p2 = Abort (NoWay ''callback_fn == NULL'')"
  using assms
  by (auto simp: apu_enable_def apu_disable_def apu_sig_handler_def Let_def split_beta split: if_splits)

definition demo_apu_proc :: "apu_host aproc" where
  "demo_apu_proc = \<lparr>apu_fd = -1, callback_fn = None, handler = False, blocked = False, errors = 0,
     aos = \<lparr>adrv = demo_apu, a_fd = None, my_pid = 42, apu_corrupted = False\<rparr>\<rparr>"

definition demo_callback :: "apu_host \<Rightarrow> (ubuf option \<times> u32) \<times> apu_host" where
  "demo_callback w = ((Some (user_mem [7]), 1), w)"

theorem apu_disable_keeps_handler_witness:
  "\<exists>p1 p2. apu_enable apu_host_sys (Some demo_callback) demo_apu_proc = Done (0, p1)
     \<and> apu_disable apu_host_sys p1 = Done p2
     \<and> apu_sig_handler apu_host_sys p2 = Abort (NoWay ''callback_fn == NULL'')"
proof -
  obtain p1 where p1: "apu_enable apu_host_sys (Some demo_callback) demo_apu_proc = Done (0, p1)"
    by (simp add: apu_enable_def demo_apu_proc_def apu_host_sys_def apu_host_open_def apu_open_def
        apu_host_ioctl_def apu_ioctl_eq demo_apu_def Let_def)
  then have "apu_fd p1 \<noteq> -1"
    by (auto simp: apu_enable_def demo_apu_proc_def apu_host_sys_def apu_host_open_def apu_open_def
        demo_apu_def Let_def split_beta split: if_splits)
  then obtain p2 where p2: "apu_disable apu_host_sys p1 = Done p2" by (simp add: apu_disable_def)
  from apu_disable_keeps_handler [OF p1 p2] p1 p2 show ?thesis by blast
qed

text \<open>C32. A callback signal that reaches an enabled process while the module has a
  request open sends what the callback provides to the device: if its samples are readable
  and at most a buffer's worth, the inactive buffer holds them, padded by zeros, and is
  queued, and no error is reported; if there are more, an error is reported, nothing else
  changes and the request stays open.\<close>

theorem apu_callback_plays:
  assumes fd: "a_fd (aos p) = Some (apu_fd p)" and inv: "apu_inv (adrv (aos p))"
    and req: "req (adrv (aos p)) = 1"
    and cb: "callback_fn p = Some cb" "cb (aos p) = ((Some buf, len), aos p)"
    and buf: "ubuf_ok buf" "user_readable buf bs" "length bs = unat len"
  shows "if unat len \<le> 512
    then apu_sig_handler apu_host_sys p = Done (p\<lparr>aos := (aos p)\<lparr>adrv := apu_written bs (adrv (aos p))\<rparr>\<rparr>)
    else apu_sig_handler apu_host_sys p = Done (p\<lparr>errors := errors p + 1\<rparr>)"
proof (cases "unat len \<le> 512")
  case True
  have "sint len = int (unat len)" using True by (intro sint_len) simp
  then have "\<not> sint len < 0" by linarith
  moreover have "buf (unat len) = (bs, 0)" using user_readableD [OF buf(2), of "unat len"] buf(3) by simp
  ultimately show ?thesis
    using True fd cb req by (simp add: apu_sig_handler_def apu_host_sys_def apu_host_write_def
        apu_write_eq [OF inv buf(1)])
next
  case False
  then show ?thesis
    using fd cb req by (simp add: apu_sig_handler_def apu_host_sys_def apu_host_write_def
        apu_write_eq [OF inv buf(1)])
qed

definition demo_enabled :: "apu_host aproc" where
  "demo_enabled = \<lparr>apu_fd = 3, callback_fn = Some demo_callback, handler = True, blocked = False, errors = 0,
     aos = \<lparr>adrv = demo_asked, a_fd = Some 3, my_pid = 42, apu_corrupted = False\<rparr>\<rparr>"

theorem apu_callback_plays_witness:
  "\<exists>p'. apu_sig_handler apu_host_sys demo_enabled = Done p' \<and> errors p' = 0
     \<and> queued (adev (adrv (aos p'))) = Some 0x3200"
proof -
  have "req demo_asked = 1" by (simp add: demo_asked_def)
  from apu_callback_plays [of demo_enabled demo_callback "user_mem [7]" 1 "[7]"] this demo_asked_inv
  show ?thesis
    by (simp add: demo_enabled_def demo_callback_def)
      (simp add: apu_written_def demo_asked_def demo_apu_def buf_addr_def)
qed

end
