(* ===== verification/ApuConcurrent.thy ===== *)
theory ApuConcurrent
  imports ApuDriver
begin

text \<open>
  The handlers of \<^verbatim>\<open>Kernel/apu/apu.c\<close> running at the same time: threads in
  the write, ioctl and release handlers, the interrupt handler, and the device, which
  interleave at every access to the shared variables, the samples and the registers.
\<close>

section \<open>Threads\<close>

text \<open>
  A writing thread takes the write lock (\<open>AReq\<close>) and the request (\<open>ACopy\<close>, with the bytes
  still to be stored and where), fills up with zeros (\<open>AFill\<close>, with whether the copy
  succeeded), queues the buffer, makes it active, gives the lock up and asks for the next
  interrupt.
\<close>

datatype apu_pc =
    AIdle
  | AReq ubuf u32
  | ABusy
  | ACopy ubuf u32 "u8 list" nat
  | AFill bool nat nat
  | AQueue | AFlip | AUnlock | AAsk | AFault
  | AIoctl
  | ARelReq | ARelMute | ARelUnlock

datatype irq_pc = IrqIdle | IrqSet | IrqSignal

record apu_conc =
  ka :: apu_drv
  apcs :: "nat \<Rightarrow> apu_pc"
  airq :: irq_pc
  aopened :: bool

definition ago :: "nat \<Rightarrow> apu_pc \<Rightarrow> apu_drv \<Rightarrow> apu_conc \<Rightarrow> apu_conc" where
  "ago t pc s c = c\<lparr>ka := s, apcs := (apcs c)(t := pc)\<rparr>"

definition ago_irq :: "irq_pc \<Rightarrow> apu_drv \<Rightarrow> apu_conc \<Rightarrow> apu_conc" where
  "ago_irq pc s c = c\<lparr>ka := s, airq := pc\<rparr>"

text \<open>Whether a step is the start of an ioctl that registers a process.\<close>

datatype alabel = Registers | Plain

section \<open>Steps\<close>

inductive astep :: "apu_conc \<Rightarrow> alabel \<Rightarrow> apu_conc \<Rightarrow> bool" where
  a_open: "apcs c t = AIdle \<Longrightarrow> apu_open (ka c) = (r, s) \<Longrightarrow>
    astep c Plain ((ago t AIdle s c)\<lparr>aopened := aopened c \<or> r = 0\<rparr>)"
| a_write_bad: "apcs c t = AIdle \<Longrightarrow> aopened c \<Longrightarrow> unat (len :: u32) > APU_BUF_SIZE \<or> buf = (None :: ubuf option) \<Longrightarrow>
    astep c Plain (ago t AIdle (ka c) c)"
| a_write_busy: "apcs c t = AIdle \<Longrightarrow> aopened c \<Longrightarrow> unat (len :: u32) \<le> APU_BUF_SIZE \<Longrightarrow> write_lock (ka c) = 1 \<Longrightarrow>
    astep c Plain (ago t AIdle ((ka c)\<lparr>write_lock := 1\<rparr>) c)"
| a_write_lock: "apcs c t = AIdle \<Longrightarrow> aopened c \<Longrightarrow> unat len \<le> APU_BUF_SIZE \<Longrightarrow> ubuf_ok buf \<Longrightarrow>
    write_lock (ka c) \<noteq> 1 \<Longrightarrow> astep c Plain (ago t (AReq buf len) ((ka c)\<lparr>write_lock := 1\<rparr>) c)"
| a_no_request: "apcs c t = AReq buf len \<Longrightarrow> req (ka c) \<noteq> 1 \<Longrightarrow>
    astep c Plain (ago t ABusy ((ka c)\<lparr>req := 0\<rparr>) c)"
| a_busy: "apcs c t = ABusy \<Longrightarrow> astep c Plain (ago t AIdle ((ka c)\<lparr>write_lock := 0\<rparr>) c)"
| a_request: "apcs c t = AReq buf len \<Longrightarrow> req (ka c) = 1 \<Longrightarrow>
    astep c Plain (ago t (ACopy buf len (fst (buf (unat len))) (free_buf (ka c))) ((ka c)\<lparr>req := 0\<rparr>) c)"
| a_byte: "apcs c t = ACopy buf len (b # bs) addr \<Longrightarrow>
    astep c Plain (ago t (ACopy buf len bs (Suc addr)) ((ka c)\<lparr>samples := (samples (ka c))[addr := b]\<rparr>) c)"
| a_copied: "apcs c t = ACopy buf len [] addr \<Longrightarrow> snd (buf (unat len)) = 0 \<Longrightarrow>
    astep c Plain (ago t (AFill True (free_buf (ka c) + unat len) (APU_BUF_SIZE - unat len)) (ka c) c)"
| a_faulted: "apcs c t = ACopy buf len [] addr \<Longrightarrow> snd (buf (unat len)) \<noteq> 0 \<Longrightarrow>
    astep c Plain (ago t (AFill False (free_buf (ka c)) APU_BUF_SIZE) (ka c) c)"
| a_zero: "apcs c t = AFill ok addr (Suc n) \<Longrightarrow>
    astep c Plain (ago t (AFill ok (Suc addr) n) ((ka c)\<lparr>samples := (samples (ka c))[addr := 0]\<rparr>) c)"
| a_filled: "apcs c t = AFill ok addr 0 \<Longrightarrow>
    astep c Plain (ago t (if ok then AQueue else AFault) (ka c) c)"
| a_fault: "apcs c t = AFault \<Longrightarrow> astep c Plain (ago t AIdle ((ka c)\<lparr>write_lock := 0\<rparr>) c)"
| a_queue: "apcs c t = AQueue \<Longrightarrow>
    astep c Plain (ago t AFlip (apu_mmio_write APU_BUF_OFFSET
      (dma_addr (ka c) + (if active_buf (ka c) = 0 then of_nat APU_BUF_SIZE else 0)) (ka c)) c)"
| a_flip: "apcs c t = AFlip \<Longrightarrow>
    astep c Plain (ago t AUnlock ((ka c)\<lparr>active_buf := (if active_buf (ka c) = 0 then 1 else 0)\<rparr>) c)"
| a_unlock: "apcs c t = AUnlock \<Longrightarrow> astep c Plain (ago t AAsk ((ka c)\<lparr>write_lock := 0\<rparr>) c)"
| a_ask: "apcs c t = AAsk \<Longrightarrow>
    astep c Plain (ago t AIdle (apu_mmio_write APU_CONFIG_OFFSET (APU_ENABLE OR APU_IRQ_REQ) (ka c)) c)"
| a_ioctl_bad: "apcs c t = AIdle \<Longrightarrow> aopened c \<Longrightarrow> astep c Plain (ago t AIdle (ka c) c)"
| a_ioctl: "apcs c t = AIdle \<Longrightarrow> aopened c \<Longrightarrow> astep c Registers (ago t AIoctl ((ka c)\<lparr>pid := p\<rparr>) c)"
| a_ioctl_ask: "apcs c t = AIoctl \<Longrightarrow>
    astep c Plain (ago t AIdle (apu_mmio_write APU_CONFIG_OFFSET (APU_ENABLE OR APU_IRQ_REQ) (ka c)) c)"
| a_release: "aopened c \<Longrightarrow> \<forall>u. apcs c u = AIdle \<Longrightarrow>
    astep c Plain ((ago t ARelReq ((ka c)\<lparr>pid := 0\<rparr>) c)\<lparr>aopened := False\<rparr>)"
| a_rel_req: "apcs c t = ARelReq \<Longrightarrow> astep c Plain (ago t ARelMute ((ka c)\<lparr>req := 0\<rparr>) c)"
| a_rel_mute: "apcs c t = ARelMute \<Longrightarrow>
    astep c Plain (ago t ARelUnlock (apu_mmio_write APU_CONFIG_OFFSET 0 (ka c)) c)"
| a_rel_unlock: "apcs c t = ARelUnlock \<Longrightarrow> astep c Plain (ago t AIdle ((ka c)\<lparr>apu_lock := 0\<rparr>) c)"
| a_irq: "airq c = IrqIdle \<Longrightarrow> apu_irq_line (adev (ka c)) \<Longrightarrow>
    astep c Plain (ago_irq IrqSet (apu_mmio_write APU_CONFIG_OFFSET (APU_IRQ_ACK OR APU_ENABLE) (ka c)) c)"
| a_irq_set: "airq c = IrqSet \<Longrightarrow> astep c Plain (ago_irq IrqSignal ((ka c)\<lparr>req := 1\<rparr>) c)"
| a_irq_signal: "airq c = IrqSignal \<Longrightarrow>
    astep c Plain (ago_irq IrqIdle (if pid (ka c) \<noteq> 0 then send_user_interrupt (pid (ka c)) (ka c) else ka c) c)"
| a_fetch: "astep c Plain (c\<lparr>ka := (ka c)\<lparr>adev := apu_fetch (adev (ka c))\<rparr>\<rparr>)"


section \<open>The request as a token\<close>

text \<open>
  The right to fill the free buffer is in one place at a time: the device may interrupt
  for it, the interrupt handler is about to record it, it is recorded, or a thread has
  taken it.
\<close>

fun has_request :: "apu_pc \<Rightarrow> bool" where
  "has_request (ACopy buf len bs addr) = True"
| "has_request (AFill ok addr n) = True"
| "has_request AQueue = True"
| "has_request AFlip = True"
| "has_request AUnlock = True"
| "has_request AAsk = True"
| "has_request AFault = True"
| "has_request _ = False"

fun before_queue :: "apu_pc \<Rightarrow> bool" where
  "before_queue (ACopy buf len bs addr) = True"
| "before_queue (AFill ok addr n) = True"
| "before_queue AQueue = True"
| "before_queue AFault = True"
| "before_queue _ = False"

text \<open>A filling thread stays inside the buffer that is free.\<close>

fun in_free :: "apu_pc \<Rightarrow> apu_drv \<Rightarrow> bool" where
  "in_free (ACopy buf len bs addr) s \<longleftrightarrow>
     unat len \<le> APU_BUF_SIZE \<and> free_buf s \<le> addr \<and> addr + length bs \<le> free_buf s + APU_BUF_SIZE"
| "in_free (AFill ok addr n) s \<longleftrightarrow> free_buf s \<le> addr \<and> addr + n \<le> free_buf s + APU_BUF_SIZE"
| "in_free _ s \<longleftrightarrow> True"

datatype place = Line | Handler | Recorded | Taken nat

fun token_at :: "place \<Rightarrow> apu_conc \<Rightarrow> bool" where
  "token_at Line c = irq_en (adev (ka c))"
| "token_at Handler c = (airq c = IrqSet)"
| "token_at Recorded c = (req (ka c) = 1)"
| "token_at (Taken t) c = has_request (apcs c t)"

definition one_token :: "apu_conc \<Rightarrow> bool" where
  "one_token c \<longleftrightarrow> (\<forall>x y. token_at x c \<longrightarrow> token_at y c \<longrightarrow> x = y) \<and> (\<forall>t. apcs c t \<noteq> AIoctl)"

text \<open>The buffer that the module takes for the active one, as the device should see it: a
  thread that has queued a buffer and not yet recorded it is the exception.\<close>

definition live_buf :: "apu_conc \<Rightarrow> u32" where
  "live_buf c = buf_addr (if \<exists>t. apcs c t = AFlip then (if active_buf (ka c) = 0 then 1 else 0)
     else active_buf (ka c)) (ka c)"

definition apu_conc_inv :: "apu_conc \<Rightarrow> bool" where
  "apu_conc_inv c \<longleftrightarrow> one_token c
     \<and> length (samples (ka c)) = 2 * APU_BUF_SIZE \<and> active_buf (ka c) \<in> {0, 1} \<and> req (ka c) \<in> {0, 1}
     \<and> (\<forall>t. in_free (apcs c t) (ka c))
     \<and> (\<forall>t buf len. apcs c t = AReq buf len \<longrightarrow> unat len \<le> APU_BUF_SIZE \<and> ubuf_ok buf)
     \<and> (airq c = IrqSet \<or> req (ka c) = 1 \<or> (\<exists>t. before_queue (apcs c t)) \<longrightarrow> queued (adev (ka c)) = None)
     \<and> (\<forall>a. queued (adev (ka c)) = Some a \<longrightarrow> a = live_buf c)
     \<and> (\<forall>a. queued (adev (ka c)) = None \<longrightarrow> playing (adev (ka c)) = Some a \<longrightarrow> a = live_buf c)"

lemma ago_sel [simp]:
  "ka (ago t pc s c) = s" "apcs (ago t pc s c) = (apcs c)(t := pc)" "airq (ago t pc s c) = airq c"
  "aopened (ago t pc s c) = aopened c"
  by (simp_all add: ago_def)

lemma ago_irq_sel [simp]:
  "ka (ago_irq pc s c) = s" "apcs (ago_irq pc s c) = apcs c" "airq (ago_irq pc s c) = pc"
  "aopened (ago_irq pc s c) = aopened c"
  by (simp_all add: ago_irq_def)

lemma in_free_only: "\<not> has_request pc \<Longrightarrow> in_free pc s"
  by (cases pc) simp_all

lemma before_queue_has: "before_queue pc \<Longrightarrow> has_request pc"
  by (cases pc) simp_all

lemma in_free_cong: "active_buf s = active_buf s' \<Longrightarrow> in_free pc s = in_free pc s'"
  by (cases pc) (simp_all add: free_buf_def)

lemma buf_addr_cong: "dma_addr s = dma_addr s' \<Longrightarrow> buf_addr b s = buf_addr b s'"
  by (simp add: buf_addr_def)

lemma apu_conc_parts:
  assumes "apu_conc_inv c"
  shows "one_token c" "length (samples (ka c)) = 2 * APU_BUF_SIZE" "active_buf (ka c) \<in> {0, 1}"
    "req (ka c) \<in> {0, 1}" "\<And>t. in_free (apcs c t) (ka c)"
    "\<And>t buf len. apcs c t = AReq buf len \<Longrightarrow> unat len \<le> APU_BUF_SIZE \<and> ubuf_ok buf"
    "airq c = IrqSet \<Longrightarrow> queued (adev (ka c)) = None" "req (ka c) = 1 \<Longrightarrow> queued (adev (ka c)) = None"
    "\<And>t. before_queue (apcs c t) \<Longrightarrow> queued (adev (ka c)) = None"
    "\<And>a. queued (adev (ka c)) = Some a \<Longrightarrow> a = live_buf c"
    "\<And>a. queued (adev (ka c)) = None \<Longrightarrow> playing (adev (ka c)) = Some a \<Longrightarrow> a = live_buf c"
  using assms by (auto simp: apu_conc_inv_def)

text \<open>A token stays, is lost or is passed on.\<close>

lemma one_token_keep:
  "one_token c \<Longrightarrow> (\<And>x. token_at x d \<Longrightarrow> token_at x c) \<Longrightarrow> (\<And>t. apcs d t \<noteq> AIoctl) \<Longrightarrow> one_token d"
  by (auto simp: one_token_def)

lemma one_token_pass:
  "one_token c \<Longrightarrow> token_at x c \<Longrightarrow> (\<And>z. token_at z d \<Longrightarrow> z = y \<or> (z \<noteq> x \<and> token_at z c))
   \<Longrightarrow> (\<And>t. apcs d t \<noteq> AIoctl) \<Longrightarrow> one_token d"
  unfolding one_token_def by metis

lemma one_tokenD:
  "one_token c \<Longrightarrow> token_at x c \<Longrightarrow> token_at y c \<Longrightarrow> x = y"
  "one_token c \<Longrightarrow> apcs c t \<noteq> AIoctl"
  by (auto simp: one_token_def)

text \<open>A thread that moves on without taking a token or touching the buffers of the device.\<close>

lemma quiet_move:
  assumes inv: "apu_conc_inv c"
    and pc: "has_request pc \<Longrightarrow> has_request (apcs c t)" "before_queue pc \<Longrightarrow> before_queue (apcs c t)"
      "(pc = AFlip) = (apcs c t = AFlip)" "pc \<noteq> AIoctl" "in_free pc s"
      "\<And>buf len. pc = AReq buf len \<Longrightarrow> unat len \<le> APU_BUF_SIZE \<and> ubuf_ok buf"
    and s: "length (samples s) = length (samples (ka c))" "active_buf s = active_buf (ka c)"
    "dma_addr s = dma_addr (ka c)" "req s = req (ka c) \<or> req s = 0" "irq_en (adev s) = irq_en (adev (ka c))"
    "queued (adev s) = queued (adev (ka c))" "playing (adev s) = playing (adev (ka c))"
  shows "apu_conc_inv (ago t pc s c)"
proof -
  note p = apu_conc_parts [OF inv]
  have flip: "(\<exists>u. ((apcs c)(t := pc)) u = AFlip) = (\<exists>u. apcs c u = AFlip)"
    using pc(3) by (metis fun_upd_apply)
  have "one_token (ago t pc s c)"
  proof (rule one_token_keep [OF p(1)])
    show "token_at x c" if "token_at x (ago t pc s c)" for x
      using that pc(1) s(4,5) by (cases x) (auto split: if_splits)
    show "apcs (ago t pc s c) u \<noteq> AIoctl" for u
      using one_tokenD(2) [OF p(1)] pc(4) by (cases "u = t") auto
  qed
  moreover have "live_buf (ago t pc s c) = live_buf c"
    unfolding live_buf_def ago_sel flip s by (simp add: buf_addr_def s)
  moreover have "in_free (((apcs c)(t := pc)) u) s" for u
    using p(5) pc(5) in_free_cong [OF s(2)] by (cases "u = t") auto
  moreover have "queued (adev s) = None" if "before_queue (((apcs c)(t := pc)) u)" for u
    using that p(9) pc(2) s(6) by (cases "u = t") auto
  moreover have "unat len \<le> APU_BUF_SIZE \<and> ubuf_ok buf" if "((apcs c)(t := pc)) u = AReq buf len" for u buf len
    using that p(6) pc(6) by (cases "u = t") auto
  moreover have "queued (adev s) = None" if "airq c = IrqSet \<or> req s = 1"
    using that p(7,8) s(4,6) by auto
  moreover have "req s \<in> {0, 1}" using p(4) s(4) by auto
  ultimately show ?thesis
    using p(2,3,10,11) s unfolding apu_conc_inv_def ago_sel by metis
qed

text \<open>The steps that move the token or touch what the device plays.\<close>

lemma move_request:
  assumes inv: "apu_conc_inv c" and t: "apcs c t = AReq buf len" and r: "req (ka c) = 1"
  shows "apu_conc_inv (ago t (ACopy buf len (fst (buf (unat len))) (free_buf (ka c))) ((ka c)\<lparr>req := 0\<rparr>) c)"
    (is "apu_conc_inv ?d")
proof -
  note p = apu_conc_parts [OF inv]
  have len: "unat len \<le> APU_BUF_SIZE" "length (fst (buf (unat len))) \<le> unat len"
    using p(6) [OF t] by (auto simp: ubuf_ok_def)
  have here: "token_at Recorded c" using r by simp
  have no: "\<not> has_request (apcs c u)" for u using one_tokenD(1) [OF p(1) here, of "Taken u"] by auto
  have noflip: "apcs c u \<noteq> AFlip" for u using no [of u] by auto
  have q: "queued (adev (ka c)) = None" by (rule p(8) [OF r])
  have "one_token ?d"
  proof (rule one_token_pass [OF p(1) here, where y = "Taken t"])
    show "z = Taken t \<or> z \<noteq> Recorded \<and> token_at z c" if "token_at z ?d" for z
      using that by (cases z) (auto split: if_splits)
  qed (use one_tokenD(2) [OF p(1)] in auto)
  moreover have "live_buf ?d = live_buf c" by (simp add: live_buf_def noflip buf_addr_def)
  moreover have "in_free (apcs ?d u) (ka ?d)" for u
    using len in_free_only [OF no] by (cases "u = t") (simp_all add: free_buf_def)
  moreover have "apcs ?d u = AReq buf' len' \<longrightarrow> unat len' \<le> APU_BUF_SIZE \<and> ubuf_ok buf'" for u buf' len'
    using p(6) by (cases "u = t") auto
  ultimately show ?thesis
    using p(2-4,11) q unfolding apu_conc_inv_def by simp
qed

lemma move_ask:
  assumes inv: "apu_conc_inv c" and t: "apcs c t = AAsk"
  shows "apu_conc_inv (ago t AIdle (apu_mmio_write APU_CONFIG_OFFSET (APU_ENABLE OR APU_IRQ_REQ) (ka c)) c)"
    (is "apu_conc_inv ?d")
proof -
  note p = apu_conc_parts [OF inv]
  have here: "token_at (Taken t) c" using t by simp
  have only: "has_request (apcs c u) \<Longrightarrow> u = t" for u using one_tokenD(1) [OF p(1) here, of "Taken u"] by auto
  have noflip: "apcs c u \<noteq> AFlip" for u using only [of u] t by auto
  have nobefore: "\<not> before_queue (apcs c u)" for u using only [of u] before_queue_has t by fastforce
  have r: "airq c \<noteq> IrqSet" "req (ka c) \<noteq> 1"
    using one_tokenD(1) [OF p(1) here, of Handler] one_tokenD(1) [OF p(1) here, of Recorded] by auto
  have "one_token ?d"
  proof (rule one_token_pass [OF p(1) here, where y = Line])
    show "z = Line \<or> z \<noteq> Taken t \<and> token_at z c" if "token_at z ?d" for z
      using that by (cases z) (auto split: if_splits)
  qed (use one_tokenD(2) [OF p(1)] in auto)
  moreover have "live_buf ?d = live_buf c" by (simp add: live_buf_def noflip buf_addr_def)
  moreover have "in_free (apcs ?d u) (ka ?d)" for u
    using only by (cases "u = t") (auto intro: in_free_only)
  moreover have "apcs ?d u = AReq buf' len' \<longrightarrow> unat len' \<le> APU_BUF_SIZE \<and> ubuf_ok buf'" for u buf' len'
    using p(6) by (cases "u = t") auto
  moreover have "\<not> before_queue (apcs ?d u)" for u using nobefore by (cases "u = t") auto
  ultimately show ?thesis
    using p(2-4,10,11) r unfolding apu_conc_inv_def by simp
qed

lemma move_queue:
  assumes inv: "apu_conc_inv c" and t: "apcs c t = AQueue"
  shows "apu_conc_inv (ago t AFlip (apu_mmio_write APU_BUF_OFFSET
      (dma_addr (ka c) + (if active_buf (ka c) = 0 then of_nat APU_BUF_SIZE else 0)) (ka c)) c)"
    (is "apu_conc_inv ?d")
proof -
  note p = apu_conc_parts [OF inv]
  have here: "token_at (Taken t) c" using t by simp
  have only: "has_request (apcs c u) \<Longrightarrow> u = t" for u using one_tokenD(1) [OF p(1) here, of "Taken u"] by auto
  have r: "airq c \<noteq> IrqSet" "req (ka c) \<noteq> 1"
    using one_tokenD(1) [OF p(1) here, of Handler] one_tokenD(1) [OF p(1) here, of Recorded] by auto
  have "one_token ?d"
  proof (rule one_token_keep [OF p(1)])
    show "token_at z c" if "token_at z ?d" for z
      using that t by (cases z) (auto simp: apu_mmio_write_def apu_queue_def split: if_splits)
  qed (use one_tokenD(2) [OF p(1)] in auto)
  moreover have "in_free (apcs ?d u) (ka ?d)" for u
    using only by (cases "u = t") (auto intro: in_free_only)
  moreover have "apcs ?d u = AReq buf' len' \<longrightarrow> unat len' \<le> APU_BUF_SIZE \<and> ubuf_ok buf'" for u buf' len'
    using p(6) by (cases "u = t") auto
  moreover have "\<not> before_queue (apcs ?d u)" for u
    using only [of u] before_queue_has [of "apcs c u"] by (cases "u = t") auto
  moreover have "live_buf ?d = dma_addr (ka c) + (if active_buf (ka c) = 0 then of_nat APU_BUF_SIZE else 0)"
    by (auto simp: live_buf_def buf_addr_def)
  moreover have "queued (adev (ka ?d))
      = Some (dma_addr (ka c) + (if active_buf (ka c) = 0 then of_nat APU_BUF_SIZE else 0))"
    by (simp add: apu_mmio_write_def apu_queue_def)
  ultimately show ?thesis
    using p(2-4) r unfolding apu_conc_inv_def by simp
qed

lemma move_flip:
  assumes inv: "apu_conc_inv c" and t: "apcs c t = AFlip"
  shows "apu_conc_inv (ago t AUnlock ((ka c)\<lparr>active_buf := (if active_buf (ka c) = 0 then 1 else 0)\<rparr>) c)"
    (is "apu_conc_inv ?d")
proof -
  note p = apu_conc_parts [OF inv]
  have here: "token_at (Taken t) c" using t by simp
  have only: "has_request (apcs c u) \<Longrightarrow> u = t" for u using one_tokenD(1) [OF p(1) here, of "Taken u"] by auto
  have r: "airq c \<noteq> IrqSet" "req (ka c) \<noteq> 1"
    using one_tokenD(1) [OF p(1) here, of Handler] one_tokenD(1) [OF p(1) here, of Recorded] by auto
  have "one_token ?d"
  proof (rule one_token_keep [OF p(1)])
    show "token_at z c" if "token_at z ?d" for z
      using that t by (cases z) (auto split: if_splits)
  qed (use one_tokenD(2) [OF p(1)] in auto)
  moreover have "in_free (apcs ?d u) (ka ?d)" for u
    using only by (cases "u = t") (auto intro: in_free_only)
  moreover have "apcs ?d u = AReq buf' len' \<longrightarrow> unat len' \<le> APU_BUF_SIZE \<and> ubuf_ok buf'" for u buf' len'
    using p(6) by (cases "u = t") auto
  moreover have "\<not> before_queue (apcs ?d u)" for u
    using only [of u] before_queue_has [of "apcs c u"] t by (cases "u = t") auto
  moreover have "live_buf ?d = live_buf c"
  proof -
    have "apcs ?d u \<noteq> AFlip" for u using only [of u] by (cases "u = t") auto
    moreover have "\<exists>u. apcs c u = AFlip" using t by blast
    ultimately show ?thesis by (simp add: live_buf_def buf_addr_def)
  qed
  ultimately show ?thesis
    using p(2-4,10,11) r unfolding apu_conc_inv_def by simp
qed

text \<open>The steps of the interrupt handler and of the device, which move no thread.\<close>

lemma device_move:
  assumes inv: "apu_conc_inv c" and same: "apcs d = apcs c" "samples (ka d) = samples (ka c)"
    "active_buf (ka d) = active_buf (ka c)" "dma_addr (ka d) = dma_addr (ka c)"
    and tok: "one_token d" and r: "req (ka d) \<in> {0, 1}"
    and q: "queued (adev (ka d)) = None \<or> queued (adev (ka d)) = queued (adev (ka c))"
      "airq d = IrqSet \<or> req (ka d) = 1 \<Longrightarrow> queued (adev (ka d)) = None"
      "\<And>a. queued (adev (ka d)) = None \<Longrightarrow> playing (adev (ka d)) = Some a \<Longrightarrow> a = live_buf c"
  shows "apu_conc_inv d"
proof -
  note p = apu_conc_parts [OF inv]
  have live: "live_buf d = live_buf c" by (simp add: live_buf_def same buf_addr_def)
  have "in_free (apcs d u) (ka d)" for u using p(5) in_free_cong [OF same(3)] by (simp add: same)
  moreover have "before_queue (apcs d u) \<Longrightarrow> queued (adev (ka d)) = None" for u
    using p(9) q(1) by (auto simp: same)
  moreover have "queued (adev (ka d)) = Some a \<Longrightarrow> a = live_buf c" for a using p(10) q(1) by auto
  ultimately show ?thesis
    using p(2,3,6) tok r q(2,3) unfolding apu_conc_inv_def same live by blast
qed

lemma move_irq:
  assumes inv: "apu_conc_inv c" and line: "apu_irq_line (adev (ka c))"
  shows "apu_conc_inv (ago_irq IrqSet (apu_mmio_write APU_CONFIG_OFFSET (APU_IRQ_ACK OR APU_ENABLE) (ka c)) c)"
    (is "apu_conc_inv ?d")
proof (rule device_move [OF inv])
  note p = apu_conc_parts [OF inv]
  have here: "token_at Line c" using line by (simp add: apu_irq_line_def)
  show "one_token ?d"
  proof (rule one_token_pass [OF p(1) here, where y = Handler])
    show "z = Handler \<or> z \<noteq> Line \<and> token_at z c" if "token_at z ?d" for z
      using that by (cases z) (auto simp: apu_mmio_write_def control_ack_en)
  qed (use one_tokenD(2) [OF p(1)] in auto)
  show "\<And>a. queued (adev (ka ?d)) = None \<Longrightarrow> playing (adev (ka ?d)) = Some a \<Longrightarrow> a = live_buf c"
    using p(11) by simp
qed (use apu_conc_parts(4) [OF inv] line in \<open>auto simp: apu_irq_line_def\<close>)

lemma move_irq_set:
  assumes inv: "apu_conc_inv c" and h: "airq c = IrqSet"
  shows "apu_conc_inv (ago_irq IrqSignal ((ka c)\<lparr>req := 1\<rparr>) c)" (is "apu_conc_inv ?d")
proof (rule device_move [OF inv])
  note p = apu_conc_parts [OF inv]
  have here: "token_at Handler c" using h by simp
  show "one_token ?d"
  proof (rule one_token_pass [OF p(1) here, where y = Recorded])
    show "z = Recorded \<or> z \<noteq> Handler \<and> token_at z c" if "token_at z ?d" for z
      using that by (cases z) auto
  qed (use one_tokenD(2) [OF p(1)] in auto)
  show "\<And>a. queued (adev (ka ?d)) = None \<Longrightarrow> playing (adev (ka ?d)) = Some a \<Longrightarrow> a = live_buf c"
    using p(11) by simp
qed (use apu_conc_parts(7) [OF inv] h in auto)

lemma move_irq_signal:
  assumes inv: "apu_conc_inv c"
  shows "apu_conc_inv (ago_irq IrqIdle (if pid (ka c) \<noteq> 0 then send_user_interrupt (pid (ka c)) (ka c) else ka c) c)"
    (is "apu_conc_inv ?d")
proof (rule device_move [OF inv])
  note p = apu_conc_parts [OF inv]
  show "one_token ?d"
  proof (rule one_token_keep [OF p(1)])
    show "token_at z c" if "token_at z ?d" for z
      using that by (cases z) (auto simp: send_user_interrupt_def split: if_splits)
  qed (use one_tokenD(2) [OF p(1)] in auto)
  show "\<And>a. queued (adev (ka ?d)) = None \<Longrightarrow> playing (adev (ka ?d)) = Some a \<Longrightarrow> a = live_buf c"
    using p(11) by (simp add: send_user_interrupt_def split: if_splits)
qed (use apu_conc_parts(4,8) [OF inv] in \<open>auto simp: send_user_interrupt_def\<close>)

lemma move_fetch:
  assumes inv: "apu_conc_inv c"
  shows "apu_conc_inv (c\<lparr>ka := (ka c)\<lparr>adev := apu_fetch (adev (ka c))\<rparr>\<rparr>)" (is "apu_conc_inv ?d")
proof (rule device_move [OF inv])
  note p = apu_conc_parts [OF inv]
  have fetched: "queued (apu_fetch v) = None" "irq_en (apu_fetch v) = irq_en v"
    "playing (apu_fetch v) = queued v" for v
    by (simp_all add: apu_fetch_def split: option.split)
  show "one_token ?d"
  proof (rule one_token_keep [OF p(1)])
    show "token_at z c" if "token_at z ?d" for z using that by (cases z) (auto simp: fetched)
  qed (use one_tokenD(2) [OF p(1)] in auto)
  show "queued (adev (ka ?d)) = None \<or> queued (adev (ka ?d)) = queued (adev (ka c))"
    by (simp add: fetched)
  show "airq ?d = IrqSet \<or> req (ka ?d) = 1 \<Longrightarrow> queued (adev (ka ?d)) = None" by (simp add: fetched)
  show "\<And>a. queued (adev (ka ?d)) = None \<Longrightarrow> playing (adev (ka ?d)) = Some a \<Longrightarrow> a = live_buf c"
    using p(10) by (simp add: fetched)
qed (use apu_conc_parts(4) [OF inv] in auto)

lemma opened_irrelevant: "apu_conc_inv (c\<lparr>aopened := fl\<rparr>) = apu_conc_inv c"
proof -
  have "token_at x (c\<lparr>aopened := fl\<rparr>) = token_at x c" for x by (cases x) simp_all
  then show ?thesis by (simp add: apu_conc_inv_def one_token_def live_buf_def)
qed

lemma apu_conc_step:
  assumes inv: "apu_conc_inv c" and step: "astep c Plain d"
  shows "apu_conc_inv d"
  using step
proof (cases rule: astep.cases)
  case (a_open t r s)
  have "apu_conc_inv (ago t AIdle s c)"
    by (rule quiet_move [OF inv]) (use a_open in \<open>auto simp: apu_open_def\<close>)
  then show ?thesis using a_open by (simp add: opened_irrelevant)
next
  case (a_copied t buf len addr)
  have "unat len \<le> APU_BUF_SIZE" using apu_conc_parts(5) [OF inv, of t] a_copied by simp
  then show ?thesis
    unfolding a_copied(1) by (intro quiet_move [OF inv]) (use a_copied in auto)
next
  case (a_faulted t buf len addr)
  then show ?thesis by (auto intro!: quiet_move [OF inv])
next
  case (a_byte t buf len b bs addr)
  have "in_free (ACopy buf len (b # bs) addr) (ka c)" using apu_conc_parts(5) [OF inv, of t] a_byte by simp
  then show ?thesis
    unfolding a_byte(1) by (intro quiet_move [OF inv]) (use a_byte in \<open>auto simp: free_buf_def\<close>)
next
  case (a_zero t ok addr n)
  have "in_free (AFill ok addr (Suc n)) (ka c)" using apu_conc_parts(5) [OF inv, of t] a_zero by simp
  then show ?thesis
    unfolding a_zero(1) by (intro quiet_move [OF inv]) (use a_zero in \<open>auto simp: free_buf_def\<close>)
next
  case (a_filled t ok addr)
  then show ?thesis by (auto intro!: quiet_move [OF inv] split: if_splits)
next
  case (a_request t buf len)
  then show ?thesis using move_request [OF inv] by simp
next
  case (a_queue t)
  then show ?thesis using move_queue [OF inv] by simp
next
  case (a_flip t)
  then show ?thesis using move_flip [OF inv] by simp
next
  case (a_ask t)
  then show ?thesis using move_ask [OF inv] by simp
next
  case (a_ioctl_ask t)
  then show ?thesis using one_tokenD(2) [OF apu_conc_parts(1) [OF inv]] by simp
next
  case (a_release t)
  have "apu_conc_inv (ago t ARelReq ((ka c)\<lparr>pid := 0\<rparr>) c)"
    by (rule quiet_move [OF inv]) (use a_release in auto)
  then show ?thesis using a_release by (simp add: opened_irrelevant)
next
  case (a_rel_mute t)
  then show ?thesis
    by (auto intro!: quiet_move [OF inv] simp: apu_mmio_write_def control_zero)
next
  case a_irq
  then show ?thesis using move_irq [OF inv] by simp
next
  case a_irq_set
  then show ?thesis using move_irq_set [OF inv] by simp
next
  case a_irq_signal
  then show ?thesis using move_irq_signal [OF inv] by simp
next
  case a_fetch
  then show ?thesis using move_fetch [OF inv] by simp
qed (auto intro!: quiet_move [OF inv])

end
