(* ===== verification/ApuConcurrent_Props.thy ===== *)
theory ApuConcurrent_Props
  imports ApuConcurrent
begin

text \<open>
  The double buffer under interleaved handlers: safe as long as no process registers while
  a request is under way, and not beyond that.
\<close>

text \<open>All threads outside the handlers, and not both an interrupt and a request outstanding.\<close>

definition apu_quiet :: "apu_conc \<Rightarrow> bool" where
  "apu_quiet c \<longleftrightarrow> apu_inv (ka c) \<and> (\<forall>t. apcs c t = AIdle) \<and> airq c = IrqIdle
     \<and> \<not> (irq_en (adev (ka c)) \<and> req (ka c) = 1)"

definition plain_step :: "apu_conc \<Rightarrow> apu_conc \<Rightarrow> bool" where
  "plain_step c d \<longleftrightarrow> astep c Plain d"

definition any_step :: "apu_conc \<Rightarrow> apu_conc \<Rightarrow> bool" where
  "any_step c d \<longleftrightarrow> (\<exists>l. astep c l d)"

lemma quiet_inv:
  assumes "apu_quiet c"
  shows "apu_conc_inv c"
proof -
  have i: "apu_inv (ka c)" and idle: "\<And>t. apcs c t = AIdle" and h: "airq c = IrqIdle"
    and nt: "\<not> (irq_en (adev (ka c)) \<and> req (ka c) = 1)"
    using assms by (auto simp: apu_quiet_def)
  have "one_token c"
    unfolding one_token_def
  proof (intro conjI allI impI)
    show "x = y" if "token_at x c" "token_at y c" for x y
      using that nt h idle by (cases x; cases y) auto
  qed (simp add: idle)
  then show ?thesis using i idle h by (auto simp: apu_conc_inv_def apu_inv_def live_buf_def)
qed

interpretation apu_threads: inv_system apu_quiet plain_step apu_conc_inv
  by unfold_locales (auto simp: plain_step_def intro: quiet_inv apu_conc_step)

lemma live_active: "apu_conc_inv c \<Longrightarrow> before_queue (apcs c t) \<Longrightarrow> live_buf c = buf_addr (active_buf (ka c)) (ka c)"
proof -
  assume inv: "apu_conc_inv c" and b: "before_queue (apcs c t)"
  have here: "token_at (Taken t) c" using before_queue_has [OF b] by simp
  have "apcs c u \<noteq> AFlip" for u
    using one_tokenD(1) [OF apu_conc_parts(1) [OF inv] here, of "Taken u"] b by (cases "u = t") auto
  then show ?thesis by (simp add: live_buf_def)
qed

text \<open>The steps that store a sample, and where.\<close>

lemma step_stores:
  assumes inv: "apu_conc_inv c" and step: "astep c Plain d" and new: "samples (ka d) \<noteq> samples (ka c)"
  shows "\<exists>t i v. before_queue (apcs c t) \<and> free_buf (ka c) \<le> i \<and> i < free_buf (ka c) + APU_BUF_SIZE
    \<and> samples (ka d) = (samples (ka c))[i := v]"
  using step
proof (cases rule: astep.cases)
  case (a_byte t buf len b bs addr)
  then show ?thesis using apu_conc_parts(5) [OF inv, of t] by (intro exI [of _ t] exI [of _ addr] exI [of _ b]) simp
next
  case (a_zero t ok addr n)
  then show ?thesis using apu_conc_parts(5) [OF inv, of t] by (intro exI [of _ t] exI [of _ addr] exI [of _ 0]) simp
qed (use new in \<open>auto simp: apu_open_def Let_def send_user_interrupt_def split: if_splits\<close>)

text \<open>C11. However the handlers of any number of threads, the interrupt handler
  and the device interleave, as long as no process registers for interrupts meanwhile, no
  step changes a byte of a buffer that the device is playing or has queued.\<close>

theorem apu_concurrent_safe:
  assumes "reach apu_quiet plain_step c" and step: "plain_step c d"
    and a: "playing (adev (ka c)) = Some a \<or> queued (adev (ka c)) = Some a"
  shows "length (samples (ka d)) = 1024
    \<and> (\<forall>i < 512. a = dma_addr (ka c) \<longrightarrow> samples (ka d) ! i = samples (ka c) ! i)
    \<and> (\<forall>i < 512. a = dma_addr (ka c) + 512 \<longrightarrow> samples (ka d) ! (512 + i) = samples (ka c) ! (512 + i))"
proof -
  have inv: "apu_conc_inv c" using assms(1) by (rule apu_threads.inv_reach)
  have "apu_conc_inv d" using inv step by (rule apu_threads.inv_step)
  then have l: "length (samples (ka d)) = 1024" using apu_conc_parts(2) [of d] by simp
  show ?thesis
  proof (cases "samples (ka d) = samples (ka c)")
    case False
    then obtain t i v where s: "before_queue (apcs c t)" "free_buf (ka c) \<le> i"
      "i < free_buf (ka c) + APU_BUF_SIZE" "samples (ka d) = (samples (ka c))[i := v]"
      using step_stores [OF inv step [unfolded plain_step_def] False] by blast
    have "queued (adev (ka c)) = None" by (rule apu_conc_parts(9) [OF inv s(1)])
    then have "a = buf_addr (active_buf (ka c)) (ka c)"
      using a apu_conc_parts(11) [OF inv] live_active [OF inv s(1)] by auto
    then show ?thesis
      using l s apu_conc_parts(3) [OF inv] by (auto simp: buf_addr_def free_buf_def nth_list_update)
  next
    case True
    then show ?thesis using l by simp
  qed
qed

text \<open>A module that plays its first buffer and has a request open.\<close>

definition demo_open :: apu_drv where
  "demo_open = \<lparr>samples = zeros 1024, active_buf = 0, dma_addr = 0x3000, req = 1, pid = 42, apu_lock = 1,
     write_lock = 0, signals = [], adev = \<lparr>apu_en = True, irq_en = False, queued = None, playing = Some 0x3000\<rparr>\<rparr>"

lemma demo_open_inv: "apu_inv demo_open"
  by (simp add: demo_open_def apu_inv_def zeros_def buf_addr_def)

text \<open>An opened module with two threads.\<close>

definition two :: "apu_drv \<Rightarrow> apu_pc \<Rightarrow> apu_pc \<Rightarrow> irq_pc \<Rightarrow> apu_conc" where
  "two s p q h = \<lparr>ka = s, apcs = (\<lambda>_. AIdle)(0 := p, 1 := q), airq = h, aopened = True\<rparr>"

lemma two_sel [simp]:
  "ka (two s p q h) = s" "apcs (two s p q h) 0 = p" "apcs (two s p q h) (Suc 0) = q"
  "airq (two s p q h) = h" "aopened (two s p q h) = True"
  by (simp_all add: two_def)

lemma two_go [simp]:
  "ago 0 p' s' (two s p q h) = two s' p' q h" "ago (Suc 0) q' s' (two s p q h) = two s' p q' h"
  "ago_irq h' s' (two s p q h) = two s' p q h'"
  by (auto simp: two_def ago_def ago_irq_def)

lemma demo_open_quiet: "apu_quiet (two demo_open AIdle AIdle IrqIdle)"
  by (simp add: apu_quiet_def demo_open_inv) (simp add: two_def demo_open_def)

theorem apu_concurrent_safe_witness:
  "\<exists>c d. reach apu_quiet plain_step c \<and> plain_step c d \<and> playing (adev (ka c)) = Some 0x3000
     \<and> samples (ka d) ! 512 = 9 \<and> (\<forall>i < 512. samples (ka d) ! i = samples (ka c) ! i)"
proof -
  let ?buf = "user_mem [9]" and ?s = "demo_open\<lparr>write_lock := 1\<rparr>"
  let ?t = "?s\<lparr>req := 0\<rparr>"
  let ?c = "two demo_open AIdle AIdle IrqIdle"
  have 1: "plain_step ?c (two ?s (AReq ?buf 1) AIdle IrqIdle)"
    using astep.a_write_lock [of ?c 0 1 ?buf] by (simp add: plain_step_def demo_open_def)
  have 2: "plain_step (two ?s (AReq ?buf 1) AIdle IrqIdle) (two ?t (ACopy ?buf 1 [9] 512) AIdle IrqIdle)"
    using astep.a_request [of "two ?s (AReq ?buf 1) AIdle IrqIdle" 0 ?buf 1]
    by (simp add: plain_step_def demo_open_def user_mem_def free_buf_def)
  have 3: "plain_step (two ?t (ACopy ?buf 1 [9] 512) AIdle IrqIdle)
      (two (?t\<lparr>samples := (zeros 1024)[512 := 9]\<rparr>) (ACopy ?buf 1 [] 513) AIdle IrqIdle)"
    using astep.a_byte [of "two ?t (ACopy ?buf 1 [9] 512) AIdle IrqIdle" 0 ?buf 1 9 "[]" 512]
    by (simp add: plain_step_def demo_open_def)
  have "reach apu_quiet plain_step ?c" by (rule reach_init) (rule demo_open_quiet)
  then have "reach apu_quiet plain_step (two ?s (AReq ?buf 1) AIdle IrqIdle)" using 1 by (rule reach_step)
  then have r: "reach apu_quiet plain_step (two ?t (ACopy ?buf 1 [9] 512) AIdle IrqIdle)" using 2 by (rule reach_step)
  have "samples demo_open = zeros 1024" "dma_addr demo_open = 0x3000" "playing (adev demo_open) = Some 0x3000"
    by (simp_all add: demo_open_def)
  with apu_concurrent_safe [OF r 3, of "0x3000"] r 3 show ?thesis
    by (intro exI conjI) (assumption, assumption, simp_all add: zeros_def)
qed

section \<open>A registration in between\<close>

lemma any_steps: "any_step\<^sup>*\<^sup>* a c \<Longrightarrow> astep c l d \<Longrightarrow> any_step\<^sup>*\<^sup>* a d"
  by (rule rtranclp.rtrancl_into_rtrancl) (auto simp: any_step_def)

text \<open>Filling up with zeros from \<open>addr\<close> on.\<close>

lemma fill_run:
  "any_step\<^sup>*\<^sup>* a (ago t (AFill ok addr n) s c) \<Longrightarrow>
   \<exists>m. any_step\<^sup>*\<^sup>* a (ago t (AFill ok (addr + n) 0) (s\<lparr>samples := m\<rparr>) c)
     \<and> length m = length (samples s) \<and> take addr m = take addr (samples s)"
proof (induction n arbitrary: addr s)
  case 0
  then show ?case by (intro exI [of _ "samples s"]) simp
next
  case (Suc n)
  let ?s = "s\<lparr>samples := (samples s)[addr := 0]\<rparr>"
  have "astep (ago t (AFill ok addr (Suc n)) s c) Plain
      (ago t (AFill ok (Suc addr) n) ((ka (ago t (AFill ok addr (Suc n)) s c))\<lparr>samples :=
        (samples (ka (ago t (AFill ok addr (Suc n)) s c)))[addr := 0]\<rparr>) (ago t (AFill ok addr (Suc n)) s c))"
    by (rule astep.a_zero) simp
  then have "astep (ago t (AFill ok addr (Suc n)) s c) Plain (ago t (AFill ok (Suc addr) n) ?s c)"
    by (simp add: ago_def)
  from Suc.IH [OF any_steps [OF Suc.prems this]] obtain m where
    m: "any_step\<^sup>*\<^sup>* a (ago t (AFill ok (Suc addr + n) 0) (?s\<lparr>samples := m\<rparr>) c)"
      "length m = length (samples s)" "take (Suc addr) m = take (Suc addr) ((samples s)[addr := 0])" by auto
  have "take addr m = take addr (take (Suc addr) m)" by simp
  also have "\<dots> = take addr (samples s)" unfolding m(3) by simp
  finally show ?case using m(1,2) by (intro exI [of _ m]) simp
qed

text \<open>The first write up to its copy, and the registration with the interrupt it leads to.\<close>

lemma race_first:
  assumes "write_lock s = 0" and "req s = 1" and "queued (adev s) = None" and "active_buf s = 0"
  shows "any_step\<^sup>*\<^sup>* (two s AIdle AIdle IrqIdle)
    (two (s\<lparr>write_lock := 1, req := 1, pid := 42, signals := 42 # signals s,
        adev := (adev s)\<lparr>apu_en := True, irq_en := False\<rparr>\<rparr>) (ACopy (user_mem []) 0 [] 512) AIdle IrqIdle)"
proof -
  let ?buf = "user_mem []"
  note go = any_steps
  have 1: "astep (two s AIdle AIdle IrqIdle) Plain (two (s\<lparr>write_lock := 1\<rparr>) (AReq ?buf 0) AIdle IrqIdle)"
    using astep.a_write_lock [of "two s AIdle AIdle IrqIdle" 0 0 ?buf] assms by simp
  let ?s1 = "s\<lparr>write_lock := 1\<rparr>"
  have 2: "astep (two ?s1 (AReq ?buf 0) AIdle IrqIdle) Plain
      (two (?s1\<lparr>req := 0\<rparr>) (ACopy ?buf 0 [] 512) AIdle IrqIdle)"
    using astep.a_request [of "two ?s1 (AReq ?buf 0) AIdle IrqIdle" 0 ?buf 0] assms
    by (simp add: user_mem_def free_buf_def)
  let ?s2 = "?s1\<lparr>req := 0\<rparr>"
  let ?p = "ACopy ?buf 0 [] 512"
  have 3: "astep (two ?s2 ?p AIdle IrqIdle) Registers (two (?s2\<lparr>pid := 42\<rparr>) ?p AIoctl IrqIdle)"
    using astep.a_ioctl [of "two ?s2 ?p AIdle IrqIdle" "Suc 0" 42] by simp
  let ?s3 = "?s2\<lparr>pid := 42\<rparr>"
  let ?s4 = "?s3\<lparr>adev := (adev s)\<lparr>apu_en := True, irq_en := True\<rparr>\<rparr>"
  have 4: "astep (two ?s3 ?p AIoctl IrqIdle) Plain (two ?s4 ?p AIdle IrqIdle)"
    using astep.a_ioctl_ask [of "two ?s3 ?p AIoctl IrqIdle" "Suc 0"]
    by (simp add: apu_mmio_write_def control_en_req)
  let ?s5 = "?s3\<lparr>adev := (adev s)\<lparr>apu_en := True, irq_en := False\<rparr>\<rparr>"
  have 5: "astep (two ?s4 ?p AIdle IrqIdle) Plain (two ?s5 ?p AIdle IrqSet)"
    using astep.a_irq [of "two ?s4 ?p AIdle IrqIdle"] assms
    by (simp add: apu_mmio_write_def control_ack_en apu_irq_line_def)
  have 6: "astep (two ?s5 ?p AIdle IrqSet) Plain (two (?s5\<lparr>req := 1\<rparr>) ?p AIdle IrqSignal)"
    using astep.a_irq_set [of "two ?s5 ?p AIdle IrqSet"] by simp
  let ?s6 = "s\<lparr>write_lock := 1, req := 1, pid := 42, signals := 42 # signals s,
        adev := (adev s)\<lparr>apu_en := True, irq_en := False\<rparr>\<rparr>"
  let ?s7 = "?s5\<lparr>req := 1, signals := 42 # signals s\<rparr>"
  have 7: "astep (two (?s5\<lparr>req := 1\<rparr>) ?p AIdle IrqSignal) Plain (two ?s7 ?p AIdle IrqIdle)"
    using astep.a_irq_signal [of "two (?s5\<lparr>req := 1\<rparr>) ?p AIdle IrqSignal"]
    by (simp add: send_user_interrupt_def)
  have eq: "?s6 = ?s7" by (cases s) simp
  show ?thesis unfolding eq
    by (rule go [OF go [OF go [OF go [OF go [OF go [OF go [OF rtranclp.rtrancl_refl 1] 2] 3] 4] 5] 6] 7])
qed

text \<open>The first write to its end and the second up to its first store.\<close>

lemma race_second:
  assumes run: "any_step\<^sup>*\<^sup>* c0 (two s (ACopy (user_mem []) 0 [] 512) AIdle IrqIdle)"
    and s: "req s = 1" "active_buf s = 0" "length (samples s) = 1024"
  shows "\<exists>u. any_step\<^sup>*\<^sup>* c0 (two u (ACopy (user_mem [b]) 1 [b] 0) AIdle IrqIdle)
    \<and> dma_addr u = dma_addr s \<and> playing (adev u) = playing (adev s) \<and> samples u ! 0 = samples s ! 0
    \<and> length (samples u) = 1024"
proof -
  note go = any_steps
  have 1: "astep (two s (ACopy (user_mem []) 0 [] 512) AIdle IrqIdle) Plain (two s (AFill True 512 512) AIdle IrqIdle)"
    using astep.a_copied [of "two s (ACopy (user_mem []) 0 [] 512) AIdle IrqIdle" 0 "user_mem []" 0 512] s
    by (simp add: user_mem_def free_buf_def)
  have "any_step\<^sup>*\<^sup>* c0 (ago 0 (AFill True 512 512) s (two s AIdle AIdle IrqIdle))" using go [OF run 1] by simp
  from fill_run [OF this] obtain m where
    2: "any_step\<^sup>*\<^sup>* c0 (two (s\<lparr>samples := m\<rparr>) (AFill True 1024 0) AIdle IrqIdle)"
    and m: "length m = 1024" "take 512 m = take 512 (samples s)" using s by auto
  have m0: "m ! 0 = samples s ! 0" using m(2) nth_take [of 0 512 m] nth_take [of 0 512 "samples s"] by simp
  let ?s = "s\<lparr>samples := m\<rparr>"
  have 3: "astep (two ?s (AFill True 1024 0) AIdle IrqIdle) Plain (two ?s AQueue AIdle IrqIdle)"
    using astep.a_filled [of "two ?s (AFill True 1024 0) AIdle IrqIdle" 0 True 1024] by simp
  let ?q = "?s\<lparr>adev := (adev s)\<lparr>queued := Some (dma_addr s + 512)\<rparr>\<rparr>"
  have 4: "astep (two ?s AQueue AIdle IrqIdle) Plain (two ?q AFlip AIdle IrqIdle)"
    using astep.a_queue [of "two ?s AQueue AIdle IrqIdle" 0] s by (simp add: apu_mmio_write_def apu_queue_def)
  have 5: "astep (two ?q AFlip AIdle IrqIdle) Plain (two (?q\<lparr>active_buf := 1\<rparr>) AUnlock AIdle IrqIdle)"
    using astep.a_flip [of "two ?q AFlip AIdle IrqIdle" 0] s by simp
  let ?f = "?q\<lparr>active_buf := 1, write_lock := 0\<rparr>"
  have 6: "astep (two (?q\<lparr>active_buf := 1\<rparr>) AUnlock AIdle IrqIdle) Plain (two ?f AAsk AIdle IrqIdle)"
    using astep.a_unlock [of "two (?q\<lparr>active_buf := 1\<rparr>) AUnlock AIdle IrqIdle" 0] by simp
  let ?g = "?f\<lparr>adev := (adev s)\<lparr>queued := Some (dma_addr s + 512), apu_en := True, irq_en := True\<rparr>\<rparr>"
  have 7: "astep (two ?f AAsk AIdle IrqIdle) Plain (two ?g AIdle AIdle IrqIdle)"
    using astep.a_ask [of "two ?f AAsk AIdle IrqIdle" 0] by (simp add: apu_mmio_write_def control_en_req)
  have 8: "astep (two ?g AIdle AIdle IrqIdle) Plain (two (?g\<lparr>write_lock := 1\<rparr>) (AReq (user_mem [b]) 1) AIdle IrqIdle)"
    using astep.a_write_lock [of "two ?g AIdle AIdle IrqIdle" 0 1 "user_mem [b]"] by simp
  let ?u = "?g\<lparr>write_lock := 1, req := 0\<rparr>"
  have 9: "astep (two (?g\<lparr>write_lock := 1\<rparr>) (AReq (user_mem [b]) 1) AIdle IrqIdle) Plain
      (two ?u (ACopy (user_mem [b]) 1 [b] 0) AIdle IrqIdle)"
    using astep.a_request [of "two (?g\<lparr>write_lock := 1\<rparr>) (AReq (user_mem [b]) 1) AIdle IrqIdle" 0 "user_mem [b]" 1] s
    by (simp add: user_mem_def free_buf_def)
  have "any_step\<^sup>*\<^sup>* c0 (two ?u (ACopy (user_mem [b]) 1 [b] 0) AIdle IrqIdle)"
    by (rule go [OF go [OF go [OF go [OF go [OF go [OF go [OF 2 3] 4] 5] 6] 7] 8] 9])
  then show ?thesis using m m0 by (intro exI [of _ ?u]) simp
qed

text \<open>C12. From any state of the module in which the device plays the active buffer,
  the first one, and a request is open, with every thread outside the handlers: when a
  second thread registers for interrupts while a first one is in the write handler, a second
  request is recorded, the next write is accepted as well, and it stores into the buffer the
  device is playing.\<close>

theorem apu_register_race:
  assumes "apu_inv s" and "req s = 1" and "active_buf s = 0" and "playing (adev s) = Some (dma_addr s)"
    and "b \<noteq> samples s ! 0"
  shows "\<exists>c d. any_step\<^sup>*\<^sup>* (two s AIdle AIdle IrqIdle) c \<and> astep c Plain d
    \<and> playing (adev (ka c)) = Some (dma_addr (ka c)) \<and> samples (ka d) ! 0 \<noteq> samples (ka c) ! 0"
proof -
  have s: "write_lock s = 0" "queued (adev s) = None" "length (samples s) = 1024"
    using assms(1,2) by (simp_all add: apu_inv_def)
  let ?t = "s\<lparr>write_lock := 1, req := 1, pid := 42, signals := 42 # signals s,
        adev := (adev s)\<lparr>apu_en := True, irq_en := False\<rparr>\<rparr>"
  have run: "any_step\<^sup>*\<^sup>* (two s AIdle AIdle IrqIdle) (two ?t (ACopy (user_mem []) 0 [] 512) AIdle IrqIdle)"
    by (rule race_first [OF s(1) assms(2) s(2) assms(3)])
  obtain u where u: "any_step\<^sup>*\<^sup>* (two s AIdle AIdle IrqIdle) (two u (ACopy (user_mem [b]) 1 [b] 0) AIdle IrqIdle)"
    "dma_addr u = dma_addr s" "playing (adev u) = playing (adev s)" "samples u ! 0 = samples s ! 0"
    "length (samples u) = 1024"
    using race_second [OF run, of b] assms(3) s(3) by auto
  have "astep (two u (ACopy (user_mem [b]) 1 [b] 0) AIdle IrqIdle) Plain
      (two (u\<lparr>samples := (samples u)[0 := b]\<rparr>) (ACopy (user_mem [b]) 1 [] (Suc 0)) AIdle IrqIdle)"
    using astep.a_byte [of "two u (ACopy (user_mem [b]) 1 [b] 0) AIdle IrqIdle" 0 "user_mem [b]" 1 b "[]" 0] by simp
  moreover have "(samples u)[0 := b] ! 0 = b" using u(5) by simp
  ultimately show ?thesis
    using u assms(4,5) by (intro exI conjI) (assumption, auto)
qed

theorem apu_register_race_witness:
  "\<exists>c d. any_step\<^sup>*\<^sup>* (two demo_open AIdle AIdle IrqIdle) c \<and> astep c Plain d
     \<and> playing (adev (ka c)) = Some (dma_addr (ka c)) \<and> samples (ka d) ! 0 \<noteq> samples (ka c) ! 0"
  by (rule apu_register_race [OF demo_open_inv, of 7]) (simp_all add: demo_open_def zeros_def)

end
