(* ===== verification/Controller.thy ===== *)
theory Controller
  imports Chardev Noway
begin

text \<open>
  The controller: its kernel module \<^verbatim>\<open>Kernel/con/con.c\<close>, the library function
  \<^verbatim>\<open>Library/src/con.c\<close> and the button masks of
  \<^verbatim>\<open>Library/usr/inc/fp-game/con.h\<close>.
\<close>

section \<open>The kernel module\<close>

datatype con_cmd = IOCTL_CON_GET_STATE | CON_OTHER nat

text \<open>\<open>state\<close> is what \<open>readl\<close> finds in the controller's register.\<close>

definition con_ioctl :: "con_cmd \<Rightarrow> u32 \<Rightarrow> int" where
  "con_ioctl ioctl_num state = (if ioctl_num \<noteq> IOCTL_CON_GET_STATE then -1 else sint state)"

definition con_init :: "int \<Rightarrow> kernel_res \<Rightarrow> int \<times> kernel_res" where
  "con_init ret k =
     (if ret < 0 then (ret, k)
      else (0, k\<lparr>chrdev := True, iomap := True, dev_class := True, dev_node := True\<rparr>))"

definition con_clean :: "kernel_res \<Rightarrow> kernel_res" where
  "con_clean k = k\<lparr>dev_node := False, dev_class := False, chrdev := False, iomap := False\<rparr>"

section \<open>The library\<close>

record 'w con_sys =
  c_open :: "'w \<Rightarrow> int \<times> 'w"
  c_close :: "int \<Rightarrow> 'w \<Rightarrow> 'w"
  c_atexit :: "'w \<Rightarrow> int"
  c_ioctl :: "int \<Rightarrow> con_cmd \<Rightarrow> 'w \<Rightarrow> int \<times> 'w"

text \<open>\<open>exit_handlers\<close> counts the registrations of \<open>con_cleanup\<close>.\<close>

record 'w cproc =
  dev_file_fd :: int
  exit_handlers :: nat
  cos :: 'w

definition con_cleanup :: "'w con_sys \<Rightarrow> 'w cproc \<Rightarrow> 'w cproc outcome" where
  "con_cleanup sys p =
     noway (dev_file_fd p < 0) ''dev_file_fd < 0''
     (Done (p\<lparr>cos := c_close sys (dev_file_fd p) (cos p), dev_file_fd := -1\<rparr>))"

definition con_query :: "'w con_sys \<Rightarrow> bool \<Rightarrow> 'w cproc \<Rightarrow> (int \<times> 'w cproc) outcome" where
  "con_query sys close_fd p =
     (let (ret, w) = c_ioctl sys (dev_file_fd p) IOCTL_CON_GET_STATE (cos p); p = p\<lparr>cos := w\<rparr>
      in if close_fd then and_then (con_cleanup sys p) (\<lambda>p. Done (ret, p)) else Done (ret, p))"

definition get_con_state :: "'w con_sys \<Rightarrow> 'w cproc \<Rightarrow> (int \<times> 'w cproc) outcome" where
  "get_con_state sys p =
     (if dev_file_fd p < 0 then
        (let (fd, w) = c_open sys (cos p); p = p\<lparr>dev_file_fd := fd, cos := w\<rparr>
         in noway (fd < 0) ''(dev_file_fd = open(CON_DEV_FILE, 0)) < 0''
           (if fd < 0 then Done (-1, p)
            else
              (let r = c_atexit sys (cos p);
                   p = (if r = 0 then p\<lparr>exit_handlers := exit_handlers p + 1\<rparr> else p)
               in con_query sys (r < 0) p)))
      else con_query sys False p)"

section \<open>Buttons\<close>

datatype button =
    CON_BUT_B | CON_BUT_Y | CON_BUT_SELECT | CON_BUT_START | CON_BUT_UP | CON_BUT_DOWN
  | CON_BUT_LEFT | CON_BUT_RIGHT | CON_BUT_A | CON_BUT_X | CON_BUT_L | CON_BUT_R

fun con_but :: "button \<Rightarrow> u32" where
  "con_but CON_BUT_B = push_bit 15 1"
| "con_but CON_BUT_Y = push_bit 14 1"
| "con_but CON_BUT_SELECT = push_bit 13 1"
| "con_but CON_BUT_START = push_bit 12 1"
| "con_but CON_BUT_UP = push_bit 11 1"
| "con_but CON_BUT_DOWN = push_bit 10 1"
| "con_but CON_BUT_LEFT = push_bit 9 1"
| "con_but CON_BUT_RIGHT = push_bit 8 1"
| "con_but CON_BUT_A = push_bit 7 1"
| "con_but CON_BUT_X = push_bit 6 1"
| "con_but CON_BUT_L = push_bit 5 1"
| "con_but CON_BUT_R = push_bit 4 1"

definition con_is_pressed :: "u32 \<Rightarrow> u32 \<Rightarrow> bool" where
  "con_is_pressed state but \<longleftrightarrow> state AND but = 0"

definition con_is_released :: "u32 \<Rightarrow> u32 \<Rightarrow> bool" where
  "con_is_released state but \<longleftrightarrow> state AND but \<noteq> 0"

section \<open>The library on the model of the module\<close>

text \<open>The world: the register and whether the device file can be opened.\<close>

record con_host =
  con_reg :: u32
  con_present :: bool
  con_fd :: "int option"

definition con_host_sys :: "int \<Rightarrow> con_host con_sys" where
  "con_host_sys atexit_ret = \<lparr>
     c_open = \<lambda>w. (if con_present w then (3, w\<lparr>con_fd := Some 3\<rparr>) else (-1, w)),
     c_close = \<lambda>fd w. (if con_fd w = Some fd then w\<lparr>con_fd := None\<rparr> else w),
     c_atexit = \<lambda>w. atexit_ret,
     c_ioctl = \<lambda>fd c w.
       (if con_fd w \<noteq> Some fd then (-1, w)
        else let r = con_ioctl c (con_reg w) in (if r < 0 then -1 else r, w))\<rparr>"

lemma con_ioctl_16: "con_ioctl IOCTL_CON_GET_STATE (ucast (st :: u16)) = int (unat st)"
proof -
  have "unat st < 2 ^ 16" by (rule order_less_le_trans [OF unsigned_less]) simp
  then have "unat (ucast st :: u32) < 2 ^ 31" by (simp add: unat_u32_u16)
  then have "sint (ucast st :: u32) = int (unat (ucast st :: u32))" by (rule sint_len)
  then show ?thesis by (simp add: con_ioctl_def unat_u32_u16)
qed


section \<open>Properties\<close>

text \<open>C40. Asking for the controller's state the first time opens the device file,
  registers its closing once and returns the sixteen bits of the register; every later call
  returns them without opening again; without the device file the first call aborts
  (the header promises a negative result).\<close>

theorem get_con_state_spec:
  assumes reg: "con_reg (cos p) = ucast (st :: u16)"
    and fresh: "dev_file_fd p = -1" "con_fd (cos p) = None"
  shows "if con_present (cos p)
    then \<exists>p'. get_con_state (con_host_sys 0) p = Done (int (unat st), p')
      \<and> dev_file_fd p' = 3 \<and> exit_handlers p' = exit_handlers p + 1
      \<and> get_con_state (con_host_sys 0) p' = Done (int (unat st), p')
    else get_con_state (con_host_sys 0) p
      = Abort (NoWay ''(dev_file_fd = open(CON_DEV_FILE, 0)) < 0'')"
proof -
  have r: "con_ioctl IOCTL_CON_GET_STATE (ucast st) = int (unat st)" by (rule con_ioctl_16)
  have nn: "\<not> int (unat st) < 0" by linarith
  show ?thesis
    using reg fresh
    by (cases p; cases "cos p")
      (auto simp: get_con_state_def con_host_sys_def con_query_def Let_def r nn simp del: of_nat_unat)
qed

definition demo_con :: "con_host cproc" where
  "demo_con = \<lparr>dev_file_fd = -1, exit_handlers = 0,
     cos = \<lparr>con_reg = ucast (0x7FFF :: u16), con_present = True, con_fd = None\<rparr>\<rparr>"

theorem get_con_state_spec_witness:
  "\<exists>p'. get_con_state (con_host_sys 0) demo_con = Done (0x7FFF, p') \<and> dev_file_fd p' = 3"
  using get_con_state_spec [of demo_con "0x7FFF"] by (auto simp: demo_con_def)

fun but_bit :: "button \<Rightarrow> nat" where
  "but_bit CON_BUT_B = 15" | "but_bit CON_BUT_Y = 14" | "but_bit CON_BUT_SELECT = 13"
| "but_bit CON_BUT_START = 12" | "but_bit CON_BUT_UP = 11" | "but_bit CON_BUT_DOWN = 10"
| "but_bit CON_BUT_LEFT = 9" | "but_bit CON_BUT_RIGHT = 8" | "but_bit CON_BUT_A = 7"
| "but_bit CON_BUT_X = 6" | "but_bit CON_BUT_L = 5" | "but_bit CON_BUT_R = 4"

lemma con_but_bit: "con_but b = 2 ^ but_bit b"
  by (cases b) simp_all

lemma but_bit_less: "but_bit b < 16"
  by (cases b) simp_all

lemma but_bit_inj: "but_bit b = but_bit c \<longleftrightarrow> b = c"
  by (cases b; cases c) simp_all

text \<open>Each button has a bit of its own: it reads as pressed exactly when its bit of the
  state is clear and as released exactly when it is set, and pressing one button, that is
  clearing its bit, changes what is read of no other.\<close>

theorem con_buttons:
  "(con_is_pressed st (con_but b) \<longleftrightarrow> \<not> bit st (but_bit b))
   \<and> (con_is_released st (con_but b) \<longleftrightarrow> bit st (but_bit b))
   \<and> con_is_pressed (st AND NOT (con_but b)) (con_but c) = (c = b \<or> con_is_pressed st (con_but c))"
proof -
  have "k < 32 \<Longrightarrow> bit (st AND NOT (2 ^ j)) k \<longleftrightarrow> bit st k \<and> k \<noteq> j" for j k
    by (auto simp: bit_simps)
  then show ?thesis
    using but_bit_less [of b] but_bit_less [of c] but_bit_inj [of b c]
    by (auto simp: con_is_pressed_def con_is_released_def con_but_bit and_exp_eq_0_iff_not_bit)
qed

end
