(* ===== verification/Spec2Isabelle.thy ===== *)
theory Spec2Isabelle
  imports Picture TileFetch PpuControl_Props PpuSession PpuConcurrent_Props PpuLoaders_Props PpuPatternFile Apu_Props ApuConcurrent_Props Controller
begin

text \<open>
  FP-GAme is a game console on a Cyclone V board: graphics, sound and controller circuits in
  the FPGA, three Linux kernel modules that drive them, and a C library that games link
  against.  This development models the C code, that is the modules under
  \<^verbatim>\<open>src/Kernel\<close> and the library under \<^verbatim>\<open>src/Library\<close>, and of the
  circuits under \<^verbatim>\<open>src/fpgame\<close> the pixel processing unit and the registers of the audio
  unit, so that a call of the library can be followed to the colour of a pixel.

  \<^bold>\<open>How the parts interact.\<close>  A game calls the library.  The graphics library
  keeps the descriptor of the device file in the static \<open>ppu_fd\<close>, packs tiles, patterns,
  palettes and sprites, and hands the bytes to the PPU module by \<open>pwrite\<close> and register values by
  \<open>ioctl\<close>.  The module keeps an image of VRAM in kernel memory behind \<open>vram_lock\<close>; an update
  gives the address of the image to the device, which copies it and then interrupts, and only
  the interrupt frees the lock.  The APU module keeps two sample buffers; the device plays one
  and asks by interrupt for the other, the module signals the registered process, and the
  library's signal handler calls the game for samples and writes them.  The controller's
  state is one register.

  \<^bold>\<open>The theories.\<close>

  \<^item> \<open>Prelude\<close>: the C integers as words, memory writes that can leave their block
    (\<open>mem_write\<close>, \<open>blit\<close>), reachable states and the locale \<open>inv_system\<close> of their invariants,
    histories of atomic events and the locale \<open>atomicity\<close> by which interleaved steps are shown
    to have one.
  \<^item> \<open>Bytes\<close>: little-endian encodings and the locale \<open>codec\<close>, interpreted on tiles,
    words and bytes: writing encoded elements into bytes is writing elements into an array.
  \<^item> \<open>Noway\<close>: \<^verbatim>\<open>noway.c\<close> and \<^verbatim>\<open>noway.h\<close>, and the type \<open>outcome\<close> of a library
    call (it returns, aborts with a report, hangs in a system call, or is undefined).
  \<^item> \<open>Chardev\<close>: what the modules share: error numbers, user buffers as
    \<open>copy_from_user\<close> sees them, results of handlers, resources of probes, and the locale
    \<open>exclusive_open\<close> of a device that one process at a time holds, interpreted on both modules.
  \<^item> \<open>PpuDriver\<close>, \<open>PpuDriver_Props\<close>: \<^verbatim>\<open>Kernel/ppu/ppu.c\<close>.  The record
    \<open>ppu_drv\<close> is its static variables with the device's registers \<open>ppu_dev\<close>; \<open>ppu_open\<close>,
    \<open>ppu_release\<close>, \<open>ppu_write\<close>, \<open>ppu_ioctl\<close>, \<open>ppu_irq\<close>, \<open>ppu_probe\<close> and \<open>ppu_remove\<close> are its
    functions.  \<open>ppu_inv\<close> is its invariant; the properties are memory safety, one transfer per
    interrupt, a frozen image during a transfer, and what each handler does on each branch.
  \<^item> \<open>PpuConcurrent\<close>, \<open>PpuConcurrent_Props\<close>: the same handlers on any number of
    threads.  The relation \<open>pstep\<close> has one step for each access to a lock, a byte of the image
    or a register; \<open>conc_rel\<close> relates each of its states to a state of \<open>PpuDriver\<close>.  The
    properties are mutual exclusion, that every interleaving answers like atomic handlers but for
    the EBUSY of writes and ioctls, and that in every fair run (\<open>fair_run\<close>) every handler returns.
  \<^item> \<open>PpuData\<close>, \<open>PpuLib\<close>: the types of \<^verbatim>\<open>ppu.h\<close> and the control and write
    functions of \<^verbatim>\<open>Library/src/ppu.c\<close>, over a record \<open>ppu_sys\<close> of the system calls.
  \<^item> \<open>PpuView\<close>, \<open>PpuHost\<close>: VRAM as tile layers, patterns, palettes and sprites; the
    locale \<open>ppu_host\<close> of the laws that the library relies on, and its functions' behaviour
    proved inside it.
  \<^item> \<open>PpuSystem\<close>: the system calls on the model of the module (\<open>host_sys\<close>), where the
    locale is interpreted as \<open>game\<close>.
  \<^item> \<open>PpuLib_Props\<close>, \<open>PpuControl_Props\<close>, \<open>PpuSession\<close>: the properties of the library
    over the module: what each write leaves in VRAM, with its wrap-around and frame; owning and
    giving up the device; and that no sequence of calls corrupts the module.
  \<^item> \<open>Scanf\<close>, \<open>PpuLoaders\<close>, \<open>PpuLoaders_Props\<close>, \<open>PpuPatternFile\<close>: \<open>fscanf\<close> for the
    directives the loaders use, \<open>ppu_load_tilemap\<close>, \<open>ppu_load_pattern\<close> and \<open>ppu_load_palette\<close>,
    and what well-formed files load as.
  \<^item> \<open>ApuDriver\<close>, \<open>ApuLib\<close>, \<open>Apu_Props\<close>: \<^verbatim>\<open>Kernel/apu/apu.c\<close> over the control and
    buffer registers of \<^verbatim>\<open>apu.sv\<close>, and \<^verbatim>\<open>Library/src/apu.c\<close>; no write touches what the
    device plays, and where the interrupts are lost or outlive their owner.
  \<^item> \<open>ApuConcurrent\<close>, \<open>ApuConcurrent_Props\<close>: the audio handlers interleaved (\<open>astep\<close>).  The
    right to fill the free buffer is a token (\<open>one_token\<close>); it stays unique as long as no process
    registers meanwhile, and a run shows what happens when one does.
  \<^item> \<open>Controller\<close>: \<^verbatim>\<open>Kernel/con/con.c\<close>, \<^verbatim>\<open>Library/src/con.c\<close> and \<^verbatim>\<open>con.h\<close>.

  The circuits, under \<^verbatim>\<open>src/fpgame/src/ppu\<close>:

  \<^item> \<open>HwRam\<close>: bit fields, and the RAMs of the drawing side as words cut out of an image of
    VRAM (\<open>image_vram\<close>).
  \<^item> \<open>TileEngine\<close>, \<open>SpriteEngine\<close>, \<open>Screen\<close>: what a tile engine and the sprite engine answer
    for a pixel, the priorities of the pixel mixer, and the colour; \<open>painted\<close> is the
    specification, layers and sprites painted over each other, and \<open>paints\<close> its equivalence with
    the circuits.
  \<^item> \<open>HwCopy\<close>: the two copiers cycle by cycle, \<^verbatim>\<open>sync_writer.sv\<close> and
    \<^verbatim>\<open>indirect_sync_writer.sv\<close>, over read ports with an address and an output register;
    the locale \<open>write_port\<close> of what they write to, interpreted for the split words of the video
    memory and the wide words of the row buffers.
  \<^item> \<open>HwTransfer\<close>: the processor's side of the video memory, the DMA engine and
    \<^verbatim>\<open>vram_sync_writer.sv\<close>; a transfer copies the image exactly.
  \<^item> \<open>TileFetch\<close>: the state machine of a tile engine filling its row buffers.
  \<^item> \<open>LineFill\<close>: the pixel mixer filling a line of the row buffer.
  \<^item> \<open>PpuFsm\<close>, \<open>PpuUpdate\<close>: \<^verbatim>\<open>ppu.sv\<close> as one circuit (\<open>hw_step\<close> is a cycle), and the
    phases of an update (\<open>in_phase\<close>): it is atomic, and it is answered by one interrupt.
  \<^item> \<open>Picture\<close>: the properties that join the library, the module and the circuits.

  \<^bold>\<open>Conventions.\<close>  An \<open>unsigned\<close>, \<open>size_t\<close> or enum is a \<open>u32\<close>, an \<open>int\<close> that
  only holds a result is an \<open>int\<close>; \<open>off_t\<close> has 32 bits and \<open>loff_t\<close> 64.  A store outside its
  block is \<open>Corrupts\<close> in a handler and \<open>Undef\<close> in the library.  A \<open>malloc\<close>ed block and the bytes a
  user buffer yields are given by the caller of the model: \<open>ubuf_ok\<close> says that
  \<open>copy_from_user\<close> stores no more than it was asked for, and everything when it reports nothing
  left over; \<open>vfs_pos\<close> that the kernel passes positions that are not negative and do not
  overflow; \<open>alloc_ok\<close> that a block is at least as large as asked for.

  \<^bold>\<open>Loops and bounds.\<close>  The spin loops of \<open>ppu_release\<close> run over a schedule that
  says before each turn whether the device has interrupted; \<open>Spins\<close> is a schedule that ends
  first, and exactly which schedules return is a property.  \<open>write_columns\<close> has fuel 2: the
  second turn always completes the column, which the properties of the vertical write and of
  sessions prove.  The loops of the loaders take their number of turns from the arguments of
  the call.  In the interleaved models a spin loop is a step that changes nothing.
  In the circuits the bounds are theorems: the sync writer takes 2051 cycles, a tile engine 65,
  a line of the mixer 323, and an update at most \<open>1 + 895676 * B\<close> when the bus takes a word and
  the video clock ticks at least once in every \<open>B\<close> cycles (two frames of 420000 ticks, a cycle for
  each of the 53568 bytes, which is generous, and the synchronisation).

  \<^bold>\<open>Not modelled.\<close>  Of the circuits: the audio unit beyond its registers, the controller,
  the HDMI output but for the counters that time the blanking, and the swap of the row buffers.
  The sprite engine is a function of the RAMs, not a circuit of cycles; a read of the palette by
  the output is a lookup.  Of the DMA engine the control is modelled; the words that wait between
  its two buses are not, and a word counts as moved when the bus takes the write.  The video
  clock is a tick that comes with some cycles of the main clock, so the crossing between the two
  clocks is assumed to be clean.  Messages of \<open>printk\<close> and \<open>perror\<close>, the file, line and function
  names in reports, and the mapping and unmapping of registers, which have no effect on the
  modelled state.  Memory order: the steps of the interleaved models are sequentially
  consistent.  Other users of a descriptor (\<open>dup\<close>, \<open>fork\<close>), except that the handlers of one open
  file may run on many threads.  Signals interrupt the library only between its calls.

  Two small liberties: the address of \<open>ppu_write\<close> is a natural number, which does not wrap (a
  position that would make it wrap is \<open>Corrupts\<close>, and \<open>vfs_pos\<close> excludes it), and \<open>apu_fetch\<close> ends a
  buffer and takes over the next in one step.

  \<^bold>\<open>Planned.\<close>  The sprite engine cycle by cycle, the swap of the row buffers with the
  video output, the audio output, and sessions of the audio library.
\<close>

end
